(* ===== verification/Prelude.thy ===== *)
theory Prelude
  imports Main "HOL-Library.Word"
begin

unbundle bit_operations_syntax

text \<open>
  Shared vocabulary of the development: the machine integers of the 32-bit Cortex-M target
  (\<open>size_t\<close>, \<open>uintptr_t\<close> and pointers are 32 bits wide), a byte-addressed memory with
  little-endian accessors, the C library routines the loader calls (\<open>memcpy\<close>, \<open>memset\<close>,
  \<open>strcmp\<close>, \<open>strncmp\<close>, \<open>memchr\<close>), and the lemmas on blocks, word arithmetic and
  alignment that the component theories use.
\<close>

section \<open>Types\<close>

type_synonym u8 = "8 word"
type_synonym u16 = "16 word"
type_synonym u32 = "32 word"
type_synonym u64 = "64 word"
type_synonym addr = "32 word"
type_synonym mem = "addr \<Rightarrow> u8"

text \<open>The null pointer.\<close>

abbreviation NULL :: addr where "NULL \<equiv> 0"

text \<open>Facts that compute memory reads over memory writes are collected in \<open>mem_simps\<close>,
  the facts saying what a writer leaves alone in \<open>mem_frame\<close>, and the unfoldings of the
  small accessors in \<open>acc_defs\<close>.\<close>

named_theorems mem_simps \<open>reads over writes\<close>
named_theorems mem_frame \<open>bytes a writer does not touch\<close>
named_theorems acc_defs \<open>definitions of small accessors\<close>

section \<open>Blocks of addresses\<close>

text \<open>\<open>in_blk a b n\<close>: address \<open>a\<close> is one of the \<open>n\<close> bytes that start at \<open>b\<close>. The
  difference is taken modulo the address space, so a block may wrap around.\<close>

definition in_blk :: "addr \<Rightarrow> addr \<Rightarrow> u32 \<Rightarrow> bool" where
  "in_blk a b n \<longleftrightarrow> a - b < n"

definition blk :: "addr \<Rightarrow> u32 \<Rightarrow> addr set" where
  "blk b n = {a. in_blk a b n}"

lemma mem_blk [simp]: "a \<in> blk b n \<longleftrightarrow> a - b < n"
  by (simp add: blk_def in_blk_def)

lemma in_blk_blk: "in_blk a b n \<longleftrightarrow> a \<in> blk b n"
  by (simp add: in_blk_def)

lemma blk_0 [simp]: "blk b 0 = {}"
  by (auto simp: blk_def in_blk_def)

text \<open>A sub-block given by an offset and a length that fit (counted without wrap-around).\<close>

lemma unat_plus_no_wrap:
  fixes x y :: u32
  assumes "unat x + unat y < 2 ^ 32"
  shows "unat (x + y) = unat x + unat y"
  using assms by (simp add: unat_word_ariths)

lemma unat_u32_less: "unat (x :: u32) < 4294967296"
  using unsigned_less [of x] by simp

lemma sub_blk:
  assumes "unat off + unat k \<le> unat n"
  shows "blk (b + off) k \<subseteq> blk b n"
proof
  fix a assume "a \<in> blk (b + off) k"
  then have lt: "unat (a - (b + off)) < unat k" by (simp add: word_less_nat_alt)
  have eq: "a - b = (a - (b + off)) + off" by simp
  have n: "unat n < 2 ^ 32" using unsigned_less [of n] by simp
  with lt assms have "unat (a - (b + off)) + unat off < 2 ^ 32" by linarith
  then have "unat (a - b) = unat (a - (b + off)) + unat off"
    by (subst eq) (rule unat_plus_no_wrap)
  with lt assms show "a \<in> blk b n" by (simp add: word_less_nat_alt)
qed

lemma sub_blk_start:
  assumes "k \<le> n"
  shows "blk b k \<subseteq> blk b n"
  using assms by auto

lemma disjoint_sub_blks:
  assumes "unat o1 + unat k1 \<le> unat o2" and "unat o2 + unat k2 < 2 ^ 32"
  shows "blk (b + o1) k1 \<inter> blk (b + o2) k2 = {}"
proof -
  have False if a: "a \<in> blk (b + o1) k1" "a \<in> blk (b + o2) k2" for a
  proof -
    let ?x = "a - b"
    from a have lt1: "unat (?x - o1) < unat k1" and lt2: "unat (?x - o2) < unat k2"
      by (simp_all add: word_less_nat_alt diff_diff_eq)
    have e1: "?x = (?x - o1) + o1" and e2: "?x = (?x - o2) + o2" by simp_all
    have "unat (?x - o1) + unat o1 < 2 ^ 32" using lt1 assms by linarith
    then have x1: "unat ?x = unat (?x - o1) + unat o1"
      using e1 unat_plus_no_wrap by metis
    have "unat (?x - o2) + unat o2 < 2 ^ 32" using lt2 assms by linarith
    then have "unat ?x = unat (?x - o2) + unat o2"
      using e2 unat_plus_no_wrap by metis
    with x1 lt1 assms show False by linarith
  qed
  then show ?thesis by blast
qed

section \<open>Memory accessors\<close>

definition rd16 :: "mem \<Rightarrow> addr \<Rightarrow> u16" where
  "rd16 m a = ucast (m a) OR push_bit 8 (ucast (m (a + 1)))"

definition rd32 :: "mem \<Rightarrow> addr \<Rightarrow> u32" where
  "rd32 m a = ucast (m a) OR push_bit 8 (ucast (m (a + 1)))
     OR push_bit 16 (ucast (m (a + 2))) OR push_bit 24 (ucast (m (a + 3)))"

definition wr16 :: "mem \<Rightarrow> addr \<Rightarrow> u16 \<Rightarrow> mem" where
  "wr16 m a v = m(a := ucast v, a + 1 := ucast (drop_bit 8 v))"

definition wr32 :: "mem \<Rightarrow> addr \<Rightarrow> u32 \<Rightarrow> mem" where
  "wr32 m a v = m(a := ucast v, a + 1 := ucast (drop_bit 8 v),
     a + 2 := ucast (drop_bit 16 v), a + 3 := ucast (drop_bit 24 v))"

text \<open>The bytes of a list laid out from an address: how concrete images are written down.\<close>

fun wr_bytes :: "mem \<Rightarrow> addr \<Rightarrow> u8 list \<Rightarrow> mem" where
  "wr_bytes m a [] = m"
| "wr_bytes m a (x # xs) = wr_bytes (m(a := x)) (a + 1) xs"

text \<open>\<open>memcpy\<close> of non-overlapping blocks and \<open>memset\<close>, as their effect on every address.\<close>

definition memcpy :: "mem \<Rightarrow> addr \<Rightarrow> addr \<Rightarrow> u32 \<Rightarrow> mem" where
  "memcpy m d s n = (\<lambda>a. if a - d < n then m (s + (a - d)) else m a)"

definition memset :: "mem \<Rightarrow> addr \<Rightarrow> u8 \<Rightarrow> u32 \<Rightarrow> mem" where
  "memset m d c n = (\<lambda>a. if a - d < n then c else m a)"

lemma rd16_wr16 [mem_simps]: "rd16 (wr16 m a v) a = v"
  unfolding rd16_def wr16_def by simp (rule bit_word_eqI, auto simp: bit_simps)

lemma u32_of_bytes:
  fixes v :: u32
  shows "(ucast (ucast v :: u8) :: u32) OR push_bit 8 (ucast (ucast (drop_bit 8 v) :: u8))
    OR push_bit 16 (ucast (ucast (drop_bit 16 v) :: u8)) OR push_bit 24 (ucast (ucast (drop_bit 24 v) :: u8)) = v"
proof (rule bit_word_eqI, goal_cases)
  case (1 n)
  then consider "n < 8" | "8 \<le> n" "n < 16" | "16 \<le> n" "n < 24" | "24 \<le> n" by linarith
  then show ?case using 1 by cases (auto simp: bit_simps)
qed

lemma rd32_wr32 [mem_simps]: "rd32 (wr32 m a v) a = v"
  by (simp add: rd32_def wr32_def u32_of_bytes)

lemma wr32_frame [mem_frame]:
  assumes "\<not> x - a < 4"
  shows "wr32 m a v x = m x"
  using assms by (auto simp: wr32_def)

lemma wr32_frame_blk:
  assumes "x \<notin> blk a 4"
  shows "wr32 m a v x = m x"
  using assms wr32_frame by simp

lemma wr16_frame [mem_frame]:
  assumes "\<not> x - a < 2"
  shows "wr16 m a v x = m x"
  using assms by (auto simp: wr16_def)

text \<open>A read depends only on the bytes it reads.\<close>

lemma rd32_cong:
  assumes "\<And>x. x \<in> blk a 4 \<Longrightarrow> m x = m' x"
  shows "rd32 m a = rd32 m' a"
  unfolding rd32_def by (simp add: assms)

lemma rd16_cong:
  assumes "\<And>x. x \<in> blk a 2 \<Longrightarrow> m x = m' x"
  shows "rd16 m a = rd16 m' a"
  unfolding rd16_def by (simp add: assms)

lemma rd32_wr32_disj [mem_simps]:
  assumes "blk a 4 \<inter> blk b 4 = {}"
  shows "rd32 (wr32 m b v) a = rd32 m a"
  by (rule rd32_cong, rule wr32_frame_blk) (use assms in blast)

lemma memcpy_in [mem_simps]: "a - d < n \<Longrightarrow> memcpy m d s n a = m (s + (a - d))"
  and memcpy_out [mem_frame]: "\<not> a - d < n \<Longrightarrow> memcpy m d s n a = m a"
  by (simp_all add: memcpy_def)

lemma memset_in [mem_simps]: "a - d < n \<Longrightarrow> memset m d c n a = c"
  and memset_out [mem_frame]: "\<not> a - d < n \<Longrightarrow> memset m d c n a = m a"
  by (simp_all add: memset_def)

lemma memcpy_0 [simp]: "memcpy m d s 0 = m"
  and memset_0 [simp]: "memset m d c 0 = m"
  by (simp_all add: memcpy_def memset_def)

section \<open>Alignment\<close>

text \<open>The test \<open>al & (al - 1)\<close> recognises powers of two, for which masking computes
  remainders and multiples.\<close>

lemma nat_and_pred_pow2:
  fixes n :: nat
  assumes "n AND (n - 1) = 0" and "n \<noteq> 0"
  shows "\<exists>k. n = 2 ^ k"
  using assms
proof (induction n rule: less_induct)
  case (less n)
  show ?case
  proof (cases "even n")
    case True
    then obtain q where q: "n = 2 * q" by blast
    with less.prems have q0: "q \<noteq> 0" by simp
    have "(n AND (n - 1)) div 2 = n div 2 AND (n - 1) div 2"
      by (simp flip: drop_bit_Suc drop_bit_eq_div[of 1, simplified])
    moreover have "n div 2 = q" "(n - 1) div 2 = q - 1" using q q0 by auto
    ultimately have "q AND (q - 1) = 0" using less.prems by simp
    with less.IH [of q] q q0 obtain k where "q = 2 ^ k" by auto
    with q show ?thesis by (intro exI [of _ "Suc k"]) simp
  next
    case False
    then obtain q where q: "n = 2 * q + 1" by (auto elim: oddE)
    have "(n AND (n - 1)) div 2 = n div 2 AND (n - 1) div 2"
      by (simp flip: drop_bit_Suc drop_bit_eq_div[of 1, simplified])
    moreover have "n div 2 = q" "(n - 1) div 2 = q" using q by auto
    ultimately have "q = 0" using less.prems by simp
    with q show ?thesis by (intro exI [of _ 0]) simp
  qed
qed

definition pow2 :: "u32 \<Rightarrow> bool" where
  "pow2 al \<longleftrightarrow> (\<exists>k < 32. al = 2 ^ k)"

lemma unat_pow2:
  assumes "k < 32" shows "unat (2 ^ k :: u32) = 2 ^ k"
proof -
  have "(2::nat) ^ k < 2 ^ 32" using assms by (rule power_strict_increasing) simp
  then have "unat (of_nat (2 ^ k) :: u32) = 2 ^ k" by (subst unat_of_nat) simp
  then show ?thesis by simp
qed

lemma pow2I:
  fixes al :: u32
  assumes "al AND (al - 1) = 0" and "al \<noteq> 0"
  shows "pow2 al"
proof -
  have "unat (al AND (al - 1)) = unat al AND unat (al - 1)" by (simp add: unsigned_and_eq)
  moreover have "unat (al - 1) = unat al - 1" using assms(2) by (simp add: unat_minus_one)
  moreover have "unat al \<noteq> 0" using assms(2) by (simp add: unat_eq_0)
  ultimately obtain k where k: "unat al = 2 ^ k" using nat_and_pred_pow2 assms(1) by fastforce
  have "unat al < 2 ^ 32" using unsigned_less [of al] by simp
  then have "(2::nat) ^ k < 2 ^ 32" using k by simp
  then have "k < 32" by (rule power_less_imp_less_exp [rotated]) simp
  moreover from this have "al = 2 ^ k" using k using unat_pow2 by (metis word_unat_eq_iff)
  ultimately show ?thesis by (auto simp: pow2_def)
qed

lemma pow2_mask: "pow2 al \<Longrightarrow> \<exists>k < 32. al = 2 ^ k \<and> al - 1 = mask k \<and> unat al = 2 ^ k"
  using unat_pow2 by (auto simp: pow2_def mask_eq_exp_minus_1)

lemma unat_and_mask: "unat (x AND mask k) = unat x mod 2 ^ k" for x :: "'a::len word"
proof -
  have "unat (take_bit k x) = take_bit k (unat x)" by (rule unsigned_take_bit_eq)
  then show ?thesis by (simp add: take_bit_eq_mask flip: take_bit_eq_mod)
qed

lemma unat_and_not_mask:
  fixes x :: "'a::len word"
  shows "unat (x AND NOT (mask k)) = unat x - unat x mod 2 ^ k"
proof -
  have "(x AND NOT (mask k)) + (x AND mask k) = x"
    by (subst disjunctive_add) (auto simp: bit_simps simp flip: bit.conj_disj_distrib)
  then have e: "x AND NOT (mask k) = x - (x AND mask k)" by (simp add: algebra_simps)
  show ?thesis unfolding e by (simp add: unat_sub word_le_nat_alt unat_and_mask)
qed

lemma and_pred_pow2:
  assumes "pow2 al" shows "unat (x AND (al - 1)) = unat x mod unat al"
  using pow2_mask [OF assms] unat_and_mask by auto

lemma and_not_pred_pow2:
  assumes "pow2 al" shows "unat (x AND NOT (al - 1)) = unat x - unat x mod unat al"
  using pow2_mask [OF assms] unat_and_not_mask by auto

lemma unat_of_nat_small [simp]:
  assumes "n < 2 ^ 32" shows "unat (of_nat n :: u32) = n"
  using assms by (simp add: unat_of_nat)

lemma and_pred_eq_0_iff:
  fixes al :: u32
  assumes "al \<noteq> 0"
  shows "al AND (al - 1) = 0 \<longleftrightarrow> pow2 al"
proof
  assume "pow2 al"
  then have "unat (al AND (al - 1)) = 0" by (simp add: and_pred_pow2)
  then show "al AND (al - 1) = 0" by (simp only: unat_eq_0)
qed (use assms pow2I in blast)

lemma and_mask_eq_0_iff:
  assumes "pow2 al"
  shows "x AND (al - 1) = 0 \<longleftrightarrow> unat al dvd unat x"
  unfolding dvd_eq_mod_eq_0 and_pred_pow2 [OF assms, symmetric] unat_eq_0 ..

lemma and_3_eq_0_iff: "x AND 3 = 0 \<longleftrightarrow> 4 dvd unat x" for x :: u32
  using and_mask_eq_0_iff [of 4 x] by (force simp: pow2_def intro: exI [of _ 2])

text \<open>Sums of two 32-bit values computed in 64 bits do not wrap.\<close>

lemma unat_ucast64 [simp]: "unat (ucast x :: u64) = unat x" for x :: u32
proof -
  have "unat x < 2 ^ 32" using unsigned_less [of x] by simp
  then show ?thesis by (simp add: unsigned_ucast_eq take_bit_nat_eq_self)
qed

lemma unat_add_ucast64:
  fixes x y :: u32
  shows "unat ((ucast x :: u64) + ucast y) = unat x + unat y"
proof -
  have "unat x < 2 ^ 32" "unat y < 2 ^ 32" using unsigned_less [of x] unsigned_less [of y] by simp_all
  then show ?thesis by (subst unat_word_ariths) simp
qed

text \<open>Rounding up to a multiple, on naturals and as the code computes it.\<close>

definition roundup :: "nat \<Rightarrow> nat \<Rightarrow> nat" where
  "roundup n a = (n + a - 1) - (n + a - 1) mod a"

lemma roundup:
  assumes "0 < a"
  shows "a dvd roundup n a" and "n \<le> roundup n a" and "roundup n a < n + a"
proof -
  show "a dvd roundup n a" unfolding roundup_def by (rule dvd_minus_mod)
  have "(n + a - 1) mod a < a" using assms by simp
  then show "n \<le> roundup n a" "roundup n a < n + a" using assms unfolding roundup_def by linarith+
qed

definition align_to :: "u32 \<Rightarrow> u32 \<Rightarrow> u32" where
  "align_to x al = (x + al - 1) AND NOT (al - 1)"

lemma unat_align_to:
  assumes "pow2 al" and "unat x + unat al \<le> 2 ^ 32"
  shows "unat (align_to x al) = roundup (unat x) (unat al)"
proof -
  have al0: "0 < unat al" using pow2_mask [OF assms(1)] by auto
  then have m1: "unat (al - 1) = unat al - 1" by (intro unat_minus_one) auto
  have "unat (x + (al - 1)) = unat x + unat (al - 1)"
    by (rule unat_plus_no_wrap) (use assms al0 m1 in linarith)
  then have u: "unat (x + al - 1) = unat x + unat al - 1"
    using al0 m1 by (simp add: add_diff_eq)
  show ?thesis
    using and_not_pred_pow2 [OF assms(1)] by (simp add: align_to_def roundup_def u)
qed

lemma add_3_and_not_3: "(x + 3) AND NOT 3 = align_to x 4" for x :: u32
proof -
  have "x + 4 - 1 = x + 3" by (simp add: algebra_simps)
  then show ?thesis by (simp add: align_to_def add.commute)
qed

lemma pow2_4 [simp]: "pow2 4"
  by (auto simp: pow2_def intro: exI [of _ 2])

lemma roundup_dvd: "a dvd n \<Longrightarrow> 0 < a \<Longrightarrow> roundup n a = n"
proof -
  assume a: "a dvd n" "0 < a"
  then obtain k where "n = a * k" by blast
  moreover have "(a * k + a - 1) mod a = a - 1"
    using a(2) by (metis Nat.add_diff_assoc One_nat_def Suc_leI diff_less mod_less mod_mult_self4 zero_less_one)
  ultimately show ?thesis using a(2) by (simp add: roundup_def)
qed

section \<open>C strings\<close>

text \<open>The bytes from \<open>a\<close> up to (not including) the first NUL, at most \<open>n\<close> of them, and
  the C string at an address (the whole address space bounds it).\<close>

fun cstr_n :: "mem \<Rightarrow> addr \<Rightarrow> nat \<Rightarrow> u8 list" where
  "cstr_n m a n = (if n = 0 then [] else if m a = 0 then []
     else m a # cstr_n m (a + 1) (n - 1))"

declare cstr_n.simps [simp del]

definition cstr :: "mem \<Rightarrow> addr \<Rightarrow> u8 list" where
  "cstr m a = cstr_n m a 4294967296"

text \<open>\<open>strcmp\<close> on the contents of two C strings (its sign; NUL is below every byte).\<close>

fun strcmp :: "u8 list \<Rightarrow> u8 list \<Rightarrow> int" where
  "strcmp [] [] = 0"
| "strcmp [] (y # ys) = - 1"
| "strcmp (x # xs) [] = 1"
| "strcmp (x # xs) (y # ys) = (if x = y then strcmp xs ys else if x < y then - 1 else 1)"

definition strncmp :: "mem \<Rightarrow> addr \<Rightarrow> addr \<Rightarrow> u32 \<Rightarrow> int" where
  "strncmp m a b n = strcmp (cstr_n m a (unat n)) (cstr_n m b (unat n))"

text \<open>\<open>memchr(p, 0, n) != NULL\<close>: one of the \<open>n\<close> bytes at \<open>p\<close> is NUL.\<close>

definition memchr_nul :: "mem \<Rightarrow> addr \<Rightarrow> u32 \<Rightarrow> bool" where
  "memchr_nul m p n = (length (cstr_n m p (unat n)) < unat n)"

lemma length_cstr_n: "length (cstr_n m a n) \<le> n"
proof (induction n arbitrary: a)
  case 0
  then show ?case by (simp add: cstr_n.simps)
next
  case (Suc n)
  show ?case using Suc.IH [of "a + 1"] by (simp add: cstr_n.simps [of m a "Suc n"])
qed

lemma memchr_nul_iff: "memchr_nul m p n \<longleftrightarrow> (\<exists>i < unat n. m (p + of_nat i) = 0)"
proof -
  have "length (cstr_n m p k) < k \<longleftrightarrow> (\<exists>i < k. m (p + of_nat i) = 0)" for k
  proof (induction k arbitrary: p)
    case 0
    then show ?case by simp
  next
    case (Suc k)
    have "(\<exists>i < Suc k. m (p + of_nat i) = 0) \<longleftrightarrow> m p = 0 \<or> (\<exists>i < k. m (p + 1 + of_nat i) = 0)"
      by (simp add: Ex_less_Suc2 add.assoc)
    with Suc.IH [of "p + 1"] show ?case by (simp add: cstr_n.simps [of m p "Suc k"])
  qed
  then show ?thesis by (simp add: memchr_nul_def)
qed

lemma strcmp_refl [simp]: "strcmp xs xs = 0"
  by (induction xs) auto

lemma strcmp_eq_0 [simp]: "strcmp xs ys = 0 \<longleftrightarrow> xs = ys"
  by (induction xs ys rule: strcmp.induct) auto

lemma strcmp_sgn: "strcmp xs ys = - strcmp ys xs"
  by (induction xs ys rule: strcmp.induct) auto

lemma strcmp_le_trans: "strcmp xs ys \<le> 0 \<Longrightarrow> strcmp ys zs \<le> 0 \<Longrightarrow> strcmp xs zs \<le> 0"
proof (induction xs zs arbitrary: ys rule: strcmp.induct)
  case (3 x xs)
  then show ?case by (cases ys) (auto split: if_splits)
next
  case (4 x xs z zs)
  then show ?case
  proof (cases ys)
    case (Cons y ys')
    with "4.prems" have "x \<le> y" "y \<le> z" by (auto split: if_splits)
    with "4.prems" "4.IH" [of ys'] Cons show ?thesis by (auto split: if_splits)
  qed auto
qed auto

lemma strcmp_less_trans: "strcmp xs ys \<le> 0 \<Longrightarrow> strcmp ys zs < 0 \<Longrightarrow> strcmp xs zs < 0"
proof -
  assume le: "strcmp xs ys \<le> 0" and lt: "strcmp ys zs < 0"
  then have "strcmp xs zs \<le> 0" by (intro strcmp_le_trans [of xs ys zs]) auto
  moreover have "strcmp xs zs \<noteq> 0"
  proof
    assume "strcmp xs zs = 0"
    then have "xs = zs" by simp
    with le have "strcmp ys zs \<ge> 0" using strcmp_sgn [of ys zs] by simp
    with lt show False by simp
  qed
  ultimately show ?thesis by linarith
qed

section \<open>Counted loops\<close>

text \<open>\<open>for (i = 0; i < n; i++)\<close> where the bound is a 16-bit field re-read from the state in
  every round, and the body may end the loop (\<open>goto exit\<close>) by putting the state in \<open>stop\<close>.\<close>

function for_u16 :: "('s \<Rightarrow> u16) \<Rightarrow> ('s \<Rightarrow> bool) \<Rightarrow> (nat \<Rightarrow> 's \<Rightarrow> 's) \<Rightarrow> nat \<Rightarrow> 's \<Rightarrow> 's" where
  "for_u16 bound stop body i s =
     (if \<not> stop s \<and> i < unat (bound s) then for_u16 bound stop body (Suc i) (body i s) else s)"
  by pat_completeness auto
termination
proof (relation "measure (\<lambda>(bound, stop, body, i, s). 65536 - i)", goal_cases)
  case (2 bound stop body i s)
  moreover have "unat (bound s) < 65536" using unsigned_less [of "bound s"] by simp
  ultimately have "i < 65536" by linarith
  then show ?case by simp
qed simp

declare for_u16.simps [simp del]

text \<open>The loop rule: an invariant of the counter and the state holds where the loop ends.\<close>

lemma for_u16_inv:
  assumes "I i s"
    and "\<And>i s. I i s \<Longrightarrow> \<not> stop s \<Longrightarrow> i < unat (bound s) \<Longrightarrow> I (Suc i) (body i s)"
  shows "\<exists>j. I j (for_u16 bound stop body i s)
    \<and> (stop (for_u16 bound stop body i s) \<or> unat (bound (for_u16 bound stop body i s)) \<le> j)"
  using assms
proof (induction bound stop body i s rule: for_u16.induct)
  case (1 bound stop body i s)
  show ?case
  proof (cases "\<not> stop s \<and> i < unat (bound s)")
    case True
    then have "for_u16 bound stop body i s = for_u16 bound stop body (Suc i) (body i s)"
      by (simp add: for_u16.simps [of bound stop body i s])
    moreover have "I (Suc i) (body i s)" using True "1.prems" by blast
    ultimately show ?thesis using "1.IH" [OF True] "1.prems"(2) by simp
  next
    case False
    then have "for_u16 bound stop body i s = s" by (subst for_u16.simps) (rule if_not_P)
    with "1.prems" False show ?thesis by (intro exI [of _ i]) auto
  qed
qed

lemma for_u16_inv_simple:
  assumes "I s" and "\<And>i s. I s \<Longrightarrow> I (body i s)"
  shows "I (for_u16 bound stop body i s)"
  using for_u16_inv [of "\<lambda>_. I" i s stop bound body] assms by blast

end
