(* ===== verification/Header.thy ===== *)
theory Header
  imports Prelude
begin

text \<open>
  The module image header and everything the loader derives from it alone
  (\<open>udynlink/udynlink.h\<close>, and \<open>udynlink/udynlink.c\<close> up to the section-table helpers): the
  packed version and architecture tags, the header flags, the sizes of the image metadata,
  and the handle of a loaded module with its packed load mode.
\<close>

section \<open>Result codes\<close>

datatype udynlink_error_t =
    UDYNLINK_OK
  | ERR_LOAD_INVALID_SIGN
  | ERR_LOAD_RAM_LEN_LOW
  | ERR_LOAD_OUT_OF_MEMORY
  | ERR_LOAD_XIP_UNSUPPORTED
  | ERR_LOAD_INVALID_MODE
  | ERR_LOAD_BAD_RELOCATION_TABLE
  | ERR_LOAD_UNKNOWN_SYMBOL
  | ERR_LOAD_DUPLICATE_NAME
  | ERR_LOAD_VERSION_MISMATCH
  | ERR_LOAD_ARCH_MISMATCH
  | ERR_LOAD_IO_ERROR
  | ERR_INVALID_MODULE
  | ERR_LOAD_HOOK_ABORTED
  | ERR_LOAD_RAM_UNALIGNED
  | ERR_LOAD_SECTION_UNRESOLVED
  | ERR_LOAD_SECTION_UNALIGNED
  | ERR_LOAD_BAD_SECTION_TABLE

text \<open>The enumerator's value, which is public ABI (the list is append-only).\<close>

fun error_value :: "udynlink_error_t \<Rightarrow> nat" where
  "error_value UDYNLINK_OK = 0"
| "error_value ERR_LOAD_INVALID_SIGN = 1"
| "error_value ERR_LOAD_RAM_LEN_LOW = 2"
| "error_value ERR_LOAD_OUT_OF_MEMORY = 3"
| "error_value ERR_LOAD_XIP_UNSUPPORTED = 4"
| "error_value ERR_LOAD_INVALID_MODE = 5"
| "error_value ERR_LOAD_BAD_RELOCATION_TABLE = 6"
| "error_value ERR_LOAD_UNKNOWN_SYMBOL = 7"
| "error_value ERR_LOAD_DUPLICATE_NAME = 8"
| "error_value ERR_LOAD_VERSION_MISMATCH = 9"
| "error_value ERR_LOAD_ARCH_MISMATCH = 10"
| "error_value ERR_LOAD_IO_ERROR = 11"
| "error_value ERR_INVALID_MODULE = 12"
| "error_value ERR_LOAD_HOOK_ABORTED = 13"
| "error_value ERR_LOAD_RAM_UNALIGNED = 14"
| "error_value ERR_LOAD_SECTION_UNRESOLVED = 15"
| "error_value ERR_LOAD_SECTION_UNALIGNED = 16"
| "error_value ERR_LOAD_BAD_SECTION_TABLE = 17"

text \<open>The messages, in the order of the values, and \<open>udynlink_error_msg\<close>: the pointer it is given is
  itself taken for the value. \<open>None\<close> is a read outside the table.\<close>

definition error_codes :: "string list" where
  "error_codes = map (\<lambda>s. s @ [CHR 0x0A])
     [''UDYNLINK_OK'', ''UDYNLINK_ERR_LOAD_INVALID_SIGN'', ''UDYNLINK_ERR_LOAD_RAM_LEN_LOW'',
      ''UDYNLINK_ERR_LOAD_OUT_OF_MEMORY'', ''UDYNLINK_ERR_LOAD_XIP_UNSUPPORTED'', ''UDYNLINK_ERR_LOAD_INVALID_MODE'',
      ''UDYNLINK_ERR_LOAD_BAD_RELOCATION_TABLE'', ''UDYNLINK_ERR_LOAD_UNKNOWN_SYMBOL'',
      ''UDYNLINK_ERR_LOAD_DUPLICATE_NAME'', ''UDYNLINK_ERR_LOAD_VERSION_MISMATCH'', ''UDYNLINK_ERR_LOAD_ARCH_MISMATCH'',
      ''UDYNLINK_ERR_LOAD_IO_ERROR'', ''UDYNLINK_ERR_INVALID_MODULE'', ''UDYNLINK_ERR_LOAD_HOOK_ABORTED'',
      ''UDYNLINK_ERR_LOAD_RAM_UNALIGNED'', ''UDYNLINK_ERR_LOAD_SECTION_UNRESOLVED'',
      ''UDYNLINK_ERR_LOAD_SECTION_UNALIGNED'', ''UDYNLINK_ERR_LOAD_BAD_SECTION_TABLE'']"

definition udynlink_error_msg :: "addr \<Rightarrow> string option" where
  "udynlink_error_msg err =
     (if unat err < length error_codes then Some (error_codes ! unat err) else None)"

text \<open>Given the value of an error it finds its message; given the address of a variable that holds
  one, as its documentation says, it reads far outside the table.\<close>

lemma error_msg_of_value: "\<exists>msg. udynlink_error_msg (of_nat (error_value e)) = Some msg"
  by (cases e) (simp_all add: udynlink_error_msg_def error_codes_def)

lemma error_msg_of_pointer: "err \<ge> 18 \<Longrightarrow> udynlink_error_msg err = None"
  by (simp add: udynlink_error_msg_def error_codes_def word_le_nat_alt)

lemma error_value_inj: "error_value a = error_value b \<Longrightarrow> a = b"
  by (cases a; cases b) simp_all

text \<open>Result codes are compared by their value, as the C enumerators are.\<close>

instantiation udynlink_error_t :: linorder
begin

definition less_eq_udynlink_error_t :: "udynlink_error_t \<Rightarrow> udynlink_error_t \<Rightarrow> bool" where
  "less_eq_udynlink_error_t a b \<longleftrightarrow> error_value a \<le> error_value b"

definition less_udynlink_error_t :: "udynlink_error_t \<Rightarrow> udynlink_error_t \<Rightarrow> bool" where
  "less_udynlink_error_t a b \<longleftrightarrow> error_value a < error_value b"

instance
  by standard (auto simp: less_eq_udynlink_error_t_def less_udynlink_error_t_def
    intro: error_value_inj)

end

section \<open>The header record\<close>

record udynlink_module_header_t =
  h_sign :: u32
  h_mod_version :: u16
  h_udynlink_version :: u16
  h_arch_tag :: u16
  h_num_lot :: u16
  h_num_rels :: u16
  h_flags :: u16
  h_symt_size :: u32
  h_code_size :: u32
  h_data_size :: u32
  h_bss_size :: u32

text \<open>What a \<open>const udynlink_module_header_t *\<close> points at: the 32 bytes at the address,
  field by field at the offsets of the C struct.\<close>

definition read_header :: "mem \<Rightarrow> addr \<Rightarrow> udynlink_module_header_t" where
  "read_header m p = \<lparr>h_sign = rd32 m p, h_mod_version = rd16 m (p + 4),
     h_udynlink_version = rd16 m (p + 6), h_arch_tag = rd16 m (p + 8),
     h_num_lot = rd16 m (p + 10), h_num_rels = rd16 m (p + 12), h_flags = rd16 m (p + 14),
     h_symt_size = rd32 m (p + 16), h_code_size = rd32 m (p + 20),
     h_data_size = rd32 m (p + 24), h_bss_size = rd32 m (p + 28)\<rparr>"

lemma read_header_cong:
  assumes "\<And>x. x \<in> blk p 32 \<Longrightarrow> m x = m' x"
  shows "read_header m p = read_header m' p"
proof -
  have w: "rd32 m (p + k) = rd32 m' (p + k)" if "unat k + 4 \<le> 32" for k
    by (rule rd32_cong, rule assms, rule subsetD [OF sub_blk]) (use that in auto)
  have h: "rd16 m (p + k) = rd16 m' (p + k)" if "unat k + 2 \<le> 32" for k
    by (rule rd16_cong, rule assms, rule subsetD [OF sub_blk]) (use that in auto)
  have "rd32 m p = rd32 m' p" using w [of 0] by simp
  then show ?thesis by (simp add: read_header_def w h)
qed

definition UDYNLINK_HDR_FLAG_SECTIONS :: u16 where
  [acc_defs]: "UDYNLINK_HDR_FLAG_SECTIONS = 0x0001"

definition UDYNLINK_HDR_SECTIONS_MASK :: u16 where
  [acc_defs]: "UDYNLINK_HDR_SECTIONS_MASK = 0x00FE"

definition UDYNLINK_HDR_NUM_SECTIONS :: "u16 \<Rightarrow> u32" where
  [acc_defs]: "UDYNLINK_HDR_NUM_SECTIONS flags = drop_bit 1 (ucast (flags AND UDYNLINK_HDR_SECTIONS_MASK))"

section \<open>Architecture tags\<close>

definition UDYNLINK_ARCH_FAMILY_MASK :: u16 where
  [acc_defs]: "UDYNLINK_ARCH_FAMILY_MASK = 0x0F"

definition UDYNLINK_ARCH_FLOAT_ABI_SHIFT :: nat where
  [acc_defs]: "UDYNLINK_ARCH_FLOAT_ABI_SHIFT = 5"

definition UDYNLINK_ARCH_FLOAT_ABI_SOFT :: u16 where
  [acc_defs]: "UDYNLINK_ARCH_FLOAT_ABI_SOFT = 0"

definition UDYNLINK_ARCH_FLOAT_ABI_SOFTFP :: u16 where
  [acc_defs]: "UDYNLINK_ARCH_FLOAT_ABI_SOFTFP = 1"

definition UDYNLINK_ARCH_FLOAT_ABI_HARD :: u16 where
  [acc_defs]: "UDYNLINK_ARCH_FLOAT_ABI_HARD = 2"

definition UDYNLINK_ARCH_FLAG_NO_PROLOGUE :: u16 where
  [acc_defs]: "UDYNLINK_ARCH_FLAG_NO_PROLOGUE = 0x80"

definition udynlink_module_has_no_prologue :: "udynlink_module_header_t \<Rightarrow> bool" where
  "udynlink_module_has_no_prologue h \<longleftrightarrow> h_arch_tag h AND UDYNLINK_ARCH_FLAG_NO_PROLOGUE \<noteq> 0"

definition udynlink_check_arch_tag :: "u16 \<Rightarrow> u16 \<Rightarrow> udynlink_error_t" where
  "udynlink_check_arch_tag mod_arch host_arch =
     (if mod_arch AND UDYNLINK_ARCH_FAMILY_MASK \<noteq> host_arch AND UDYNLINK_ARCH_FAMILY_MASK
      then ERR_LOAD_ARCH_MISMATCH
      else
        let mod_float = drop_bit UDYNLINK_ARCH_FLOAT_ABI_SHIFT mod_arch AND 0x03;
            host_float = drop_bit UDYNLINK_ARCH_FLOAT_ABI_SHIFT host_arch AND 0x03
        in if mod_float = UDYNLINK_ARCH_FLOAT_ABI_HARD \<and> host_float \<noteq> UDYNLINK_ARCH_FLOAT_ABI_HARD
           then ERR_LOAD_ARCH_MISMATCH
           else if mod_float = UDYNLINK_ARCH_FLOAT_ABI_SOFTFP \<and> host_float = UDYNLINK_ARCH_FLOAT_ABI_SOFT
           then ERR_LOAD_ARCH_MISMATCH
           else UDYNLINK_OK)"

section \<open>Versions\<close>

definition UDYNLINK_MAKE_VERSION :: "u16 \<Rightarrow> u16 \<Rightarrow> u16" where
  [acc_defs]: "UDYNLINK_MAKE_VERSION major minor = push_bit 8 major OR minor"

definition UDYNLINK_GET_MAJOR_VERSION :: "u16 \<Rightarrow> u16" where
  [acc_defs]: "UDYNLINK_GET_MAJOR_VERSION v = drop_bit 8 v AND 0xFF"

definition UDYNLINK_GET_MINOR_VERSION :: "u16 \<Rightarrow> u16" where
  [acc_defs]: "UDYNLINK_GET_MINOR_VERSION v = v AND 0xFF"

definition UDYNLINK_LOADER_ABI_VERSION :: u16 where
  [acc_defs]: "UDYNLINK_LOADER_ABI_VERSION = UDYNLINK_MAKE_VERSION 3 1"

definition UDYNLINK_MODULE_SIGN :: u32 where
  [acc_defs]: "UDYNLINK_MODULE_SIGN = push_bit 24 0x4D OR push_bit 16 0x4C OR push_bit 8 0x44 OR 0x55"

definition udynlink_validate_header :: "udynlink_module_header_t \<Rightarrow> udynlink_error_t" where
  "udynlink_validate_header h =
     (if h_sign h \<noteq> UDYNLINK_MODULE_SIGN then ERR_LOAD_INVALID_SIGN
      else if h_udynlink_version h > UDYNLINK_LOADER_ABI_VERSION then ERR_LOAD_VERSION_MISMATCH
      else UDYNLINK_OK)"

section \<open>Sizes derived from the header\<close>

definition UDYNLINK_MAX_RAM_SIZE :: u32 where
  [acc_defs]: "UDYNLINK_MAX_RAM_SIZE = 16 * 1024 * 1024"

definition UDYNLINK_MAX_IMAGE_SIZE :: u32 where
  [acc_defs]: "UDYNLINK_MAX_IMAGE_SIZE = 4 * 1024 * 1024"

definition UDYNLINK_MAX_SECTIONS :: u32 where
  [acc_defs]: "UDYNLINK_MAX_SECTIONS = 63"

definition is_sectioned :: "udynlink_module_header_t \<Rightarrow> bool" where
  "is_sectioned h \<longleftrightarrow> h_flags h AND UDYNLINK_HDR_FLAG_SECTIONS \<noteq> 0"

definition get_header_size :: "udynlink_module_header_t \<Rightarrow> u32" where
  "get_header_size h =
     (if h_udynlink_version h \<ge> UDYNLINK_MAKE_VERSION 3 0 then 32
      else if h_udynlink_version h \<ge> UDYNLINK_MAKE_VERSION 2 0 then 36
      else 32)"

definition get_symtab_end_offset :: "udynlink_module_header_t \<Rightarrow> u32" where
  "get_symtab_end_offset h =
     (let res = get_header_size h + ucast (h_num_rels h) * 2 * 4 + h_symt_size h
      in (res + 3) AND NOT 3)"

definition get_num_sections_raw :: "udynlink_module_header_t \<Rightarrow> u32" where
  "get_num_sections_raw h =
     (let num = UDYNLINK_HDR_NUM_SECTIONS (h_flags h)
      in if \<not> is_sectioned h \<or> num = 0 \<or> num > UDYNLINK_MAX_SECTIONS then 0 else num)"

definition get_code_offset_from_header :: "udynlink_module_header_t \<Rightarrow> u32" where
  "get_code_offset_from_header h =
     (let res = get_symtab_end_offset h + get_num_sections_raw h * 6 * 4
      in (res + 3) AND NOT 3)"

definition udynlink_get_image_metadata_size :: "udynlink_module_header_t \<Rightarrow> u32" where
  "udynlink_get_image_metadata_size h = get_code_offset_from_header h"

definition get_sym_table_pointer :: "mem \<Rightarrow> addr \<Rightarrow> addr" where
  "get_sym_table_pointer m p =
     (let h = read_header m p
      in p + 4 * (get_header_size h div 4 + ucast (h_num_rels h) * 2))"

section \<open>The module handle\<close>

datatype udynlink_load_mode_t =
    LOAD_MODE_COPY_ALL | LOAD_MODE_COPY_TEXT_DATA | LOAD_MODE_XIP
  | LOAD_MODE_RESERVED \<comment> \<open>the fourth value the two bits in \<open>info\<close> can hold; no enumerator\<close>

fun load_mode_bits :: "udynlink_load_mode_t \<Rightarrow> u8" where
  "load_mode_bits LOAD_MODE_COPY_ALL = 0"
| "load_mode_bits LOAD_MODE_COPY_TEXT_DATA = 1"
| "load_mode_bits LOAD_MODE_XIP = 2"
| "load_mode_bits LOAD_MODE_RESERVED = 3"

record udynlink_module_t =
  p_header :: addr
  p_ram :: addr
  info :: u8
  reserved :: u8
  reserved2 :: u16
  num_named_syms :: u16
  user_ctx :: addr

definition LOAD_MODE_MASK :: u8 where
  [acc_defs]: "LOAD_MODE_MASK = 0x03"

definition LOAD_FOREIGN_RAM_MASK :: u8 where
  [acc_defs]: "LOAD_FOREIGN_RAM_MASK = 0x04"

definition LOAD_GET_MODE :: "udynlink_module_t \<Rightarrow> udynlink_load_mode_t" where
  "LOAD_GET_MODE pm =
     (let b = info pm AND LOAD_MODE_MASK
      in if b = 0 then LOAD_MODE_COPY_ALL else if b = 1 then LOAD_MODE_COPY_TEXT_DATA
         else if b = 2 then LOAD_MODE_XIP else LOAD_MODE_RESERVED)"

definition LOAD_SET_MODE :: "udynlink_load_mode_t \<Rightarrow> udynlink_module_t \<Rightarrow> udynlink_module_t" where
  "LOAD_SET_MODE md pm = pm\<lparr>info := (info pm AND NOT LOAD_MODE_MASK) OR load_mode_bits md\<rparr>"

definition LOAD_IS_FOREIGN_RAM :: "udynlink_module_t \<Rightarrow> bool" where
  "LOAD_IS_FOREIGN_RAM pm \<longleftrightarrow> info pm AND LOAD_FOREIGN_RAM_MASK \<noteq> 0"

definition LOAD_SET_FOREIGN_RAM :: "udynlink_module_t \<Rightarrow> udynlink_module_t" where
  "LOAD_SET_FOREIGN_RAM pm = pm\<lparr>info := info pm OR LOAD_FOREIGN_RAM_MASK\<rparr>"

definition LOAD_CLR_FOREIGN_RAM :: "udynlink_module_t \<Rightarrow> udynlink_module_t" where
  "LOAD_CLR_FOREIGN_RAM pm = pm\<lparr>info := info pm AND NOT LOAD_FOREIGN_RAM_MASK\<rparr>"

definition mark_module_free :: "udynlink_module_t \<Rightarrow> udynlink_module_t" where
  "mark_module_free pm = \<lparr>p_header = NULL, p_ram = NULL, info = 0, reserved = 0,
     reserved2 = 0, num_named_syms = 0, user_ctx = NULL\<rparr>"

section \<open>Exact sizes\<close>

lemma num_sections_le: "unat (get_num_sections_raw h) \<le> 63"
proof -
  have "get_num_sections_raw h \<le> 63"
    by (auto simp: get_num_sections_raw_def acc_defs Let_def)
  then show ?thesis by (simp add: word_le_nat_alt)
qed

text \<open>The offsets as sums of naturals, when the header's sizes do not wrap them.\<close>

definition header_words_ok :: "udynlink_module_header_t \<Rightarrow> bool" where
  "header_words_ok h \<longleftrightarrow> unat (h_symt_size h) < 2 ^ 31"

lemma get_symtab_end_offset_exact:
  assumes "header_words_ok h"
  shows "unat (get_symtab_end_offset h) =
    roundup (unat (get_header_size h) + 8 * unat (h_num_rels h) + unat (h_symt_size h)) 4"
    and "unat (get_symtab_end_offset h) < 2 ^ 31 + 2 ^ 20"
proof -
  have r: "unat (h_num_rels h) < 65536" using unsigned_less [of "h_num_rels h"] by simp
  have hs: "unat (get_header_size h) \<le> 36" by (simp add: get_header_size_def)
  let ?n = "unat (get_header_size h) + 8 * unat (h_num_rels h) + unat (h_symt_size h)"
  have u: "unat (ucast (h_num_rels h) :: u32) = unat (h_num_rels h)"
    using r by (simp add: unsigned_ucast_eq take_bit_nat_eq_self)
  have "unat (ucast (h_num_rels h) * 2 * 4 :: u32) = 8 * unat (h_num_rels h)"
    using r u by (simp add: unat_word_ariths)
  then have "unat (get_header_size h + ucast (h_num_rels h) * 2 * 4 + h_symt_size h) = ?n"
    using r hs assms unfolding header_words_ok_def by (simp add: unat_word_ariths)
  then have e: "unat (get_symtab_end_offset h) = roundup ?n 4"
    unfolding get_symtab_end_offset_def Let_def add_3_and_not_3
    using r hs assms unfolding header_words_ok_def by (subst unat_align_to) auto
  then show "unat (get_symtab_end_offset h) = roundup ?n 4" .
  show "unat (get_symtab_end_offset h) < 2 ^ 31 + 2 ^ 20"
    using e roundup(3) [of 4 ?n] r hs assms unfolding header_words_ok_def by simp
qed

lemma get_code_offset_exact:
  assumes "header_words_ok h"
  shows "unat (get_code_offset_from_header h) =
    unat (get_symtab_end_offset h) + 24 * unat (get_num_sections_raw h)"
proof -
  let ?n = "unat (get_symtab_end_offset h) + 24 * unat (get_num_sections_raw h)"
  note s = get_symtab_end_offset_exact [OF assms]
  have k: "unat (get_num_sections_raw h) \<le> 63" by (rule num_sections_le)
  have "unat (get_num_sections_raw h * 6 * 4) = 24 * unat (get_num_sections_raw h)"
    using k by (simp add: unat_word_ariths)
  then have "unat (get_symtab_end_offset h + get_num_sections_raw h * 6 * 4) = ?n"
    using s(2) k by (simp add: unat_word_ariths)
  moreover have "4 dvd ?n" using s(1) roundup(1) [of 4] by simp
  ultimately show ?thesis
    unfolding get_code_offset_from_header_def Let_def add_3_and_not_3
    using s(2) k by (subst unat_align_to) (auto simp: roundup_dvd)
qed

section \<open>Properties\<close>

lemma two_bits:
  fixes x :: u16
  shows "x AND 3 = 0 \<or> x AND 3 = 1 \<or> x AND 3 = 2 \<or> x AND 3 = 3"
proof -
  have "x AND 3 = take_bit 2 x" by (simp add: take_bit_eq_mask mask_eq_exp_minus_1)
  then have "unat (x AND 3) < 4" by (simp add: take_bit_eq_mod unat_mod_distrib)
  then consider "unat (x AND 3) = 0" | "unat (x AND 3) = 1" | "unat (x AND 3) = 2" | "unat (x AND 3) = 3"
    by linarith
  then show ?thesis by cases (auto simp: word_unat_eq_iff)
qed

text \<open>C25: for the float ABIs soft, softfp and hard, in this order, \<open>udynlink_check_arch_tag\<close>
  accepts a module exactly when the core families agree and the module's float ABI does not
  exceed the host's.\<close>

theorem check_arch_tag_iff:
  assumes "drop_bit 5 mod_arch AND 3 \<noteq> 3" and "drop_bit 5 host_arch AND 3 \<noteq> 3"
  shows "udynlink_check_arch_tag mod_arch host_arch = UDYNLINK_OK \<longleftrightarrow>
     mod_arch AND 15 = host_arch AND 15 \<and> drop_bit 5 mod_arch AND 3 \<le> drop_bit 5 host_arch AND 3"
  using assms two_bits [of "drop_bit 5 mod_arch"] two_bits [of "drop_bit 5 host_arch"]
  by (auto simp: udynlink_check_arch_tag_def acc_defs Let_def word_le_nat_alt)

theorem check_arch_tag_iff_witness:
  "udynlink_check_arch_tag 0x23 0x43 = UDYNLINK_OK \<and> udynlink_check_arch_tag 0x43 0x23 \<noteq> UDYNLINK_OK"
  using check_arch_tag_iff [of "0x23" "0x43"] check_arch_tag_iff [of "0x43" "0x23"]
  by (simp add: word_le_nat_alt)

text \<open>C26: the offset of the code in an image is the sum of the header, the relocation table,
  the symbol table rounded up to a word and the section table, with no wrap-around, for every
  header whose symbol table is below 2 GiB.\<close>

theorem code_offset_exact:
  assumes "unat (h_symt_size h) < 2 ^ 31"
  shows "unat (get_code_offset_from_header h) =
    roundup (unat (get_header_size h) + 8 * unat (h_num_rels h) + unat (h_symt_size h)) 4
    + 24 * (if is_sectioned h then unat (get_num_sections_raw h) else 0)"
proof -
  have ok: "header_words_ok h" using assms by (simp add: header_words_ok_def)
  have "\<not> is_sectioned h \<Longrightarrow> get_num_sections_raw h = 0" by (simp add: get_num_sections_raw_def Let_def)
  then show ?thesis
    using get_code_offset_exact [OF ok] get_symtab_end_offset_exact(1) [OF ok] by auto
qed

theorem code_offset_exact_witness:
  "unat (get_code_offset_from_header \<lparr>h_sign = UDYNLINK_MODULE_SIGN, h_mod_version = 1,
     h_udynlink_version = 0x0301, h_arch_tag = 3, h_num_lot = 2, h_num_rels = 2, h_flags = 9,
     h_symt_size = 38, h_code_size = 8, h_data_size = 4, h_bss_size = 8\<rparr>) = 184"
  by (subst code_offset_exact)
     (simp_all add: get_header_size_def is_sectioned_def get_num_sections_raw_def acc_defs roundup_def)

text \<open>The sums behind the offset are of width 32: a symbol table size close to \<open>2 ^ 32\<close> gives
  an offset of 0, below any limit on the size of an image.\<close>

lemma huge_symbol_table_wraps:
  assumes "h_symt_size h = 0xFFFFFFE0" and "h_num_rels h = 0" and "\<not> is_sectioned h" and "h_udynlink_version h = 0x300"
  shows "get_code_offset_from_header h = 0"
  using assms by (simp add: get_code_offset_from_header_def get_symtab_end_offset_def get_num_sections_raw_def
      get_header_size_def acc_defs Let_def)

end
