(* ===== verification/Images.thy ===== *)
theory Images
  imports Header
begin

text \<open>
  Concrete module images, written as the words the build tool emits, on which the
  properties of the development are instantiated: an untagged image and a sectioned one,
  each laid out from an address in an otherwise zero memory.
\<close>

definition mem_words :: "addr \<Rightarrow> u32 list \<Rightarrow> mem" where
  "mem_words base ws a =
     (let k = unat (a - base)
      in if k div 4 < length ws then ucast (drop_bit (8 * (k mod 4)) (ws ! (k div 4))) else 0)"

text \<open>An untagged image of loader ABI 3.0: two linker offset table entries, four relocations
  (the code address of \<open>f\<close>, the extern \<open>x\<close>, a data word that points into data, a data word
  that points into code), the symbols \<open>m\<close> (module name), \<open>f\<close>, \<open>g\<close> (exported code and data),
  \<open>x\<close> (extern), 8 bytes of code, 8 of data, 8 of zero-initialised data.\<close>

definition plain_image :: "u32 list" where
  "plain_image =
    [0x4D4C4455, 0x03000100, 0x00020003, 0x00000004, 44, 8, 8, 8,
     0, 1,  1, 3,  2, 0x80000008,  3, 0x40000000,
     4,  0x18000024, 0,  0x48000026, 4,  0x08000028, 4,  0x1000002A, 0,
     0x0066006D, 0x00780067,
     0xBF00BF00, 0x4770BF00,
     0x0000000C, 0x00000002]"

text \<open>A sectioned image of loader ABI 3.1: the three main sections and one tagged data
  section \<open>.d\<close> aligned to 16.\<close>

definition tagged_image :: "u32 list" where
  "tagged_image =
    [0x4D4C4455, 0x03010100, 0x00020003, 0x00090002, 40, 6, 4, 8,
     0, 1,  1, 2,
     3,  0x1800001C, 0,  0x4800001E, 2,  0x08000020, 24,
     0x0066006D, 0x642E0067, 0x00000000,
     0, 0, 8, 4, 0, 0x80000000,
     0, 8, 4, 4, 1, 0x80000000,
     0, 16, 8, 8, 2, 0x80000000,
     34, 24, 4, 16, 1, 0,
     0xBF00BF00, 0x00004770,
     0x11223344,
     0x55667788]"

definition plain_mem :: mem where "plain_mem = mem_words 0x1000 plain_image"

definition tagged_mem :: mem where "tagged_mem = mem_words 0x1000 tagged_image"

text \<open>A sectioned image that declares a single section of no bytes: the code bytes that follow
  its table are zero.\<close>

definition short_image :: "u32 list" where
  "short_image =
    [0x4D4C4455, 0x03010100, 0x00000003, 0x00030000, 16, 48, 0, 0,
     1, 0x1800000C, 0, 0x0000006D,
     0, 0, 0, 4, 0, 0x80000000,
     0, 0, 0, 0, 0, 0,
     0, 0, 0, 0, 0, 0]"

definition short_mem :: mem where "short_mem = mem_words 0x1000 short_image"

section \<open>Reading an image\<close>

text \<open>Aligned reads of an image return its words, so concrete images are evaluated by the
  simplifier.\<close>

lemma rd32_mem_words:
  assumes "unat (a - b) mod 4 = 0" and "unat (a - b) div 4 < length ws"
  shows "rd32 (mem_words b ws) a = ws ! (unat (a - b) div 4)"
proof -
  let ?k = "unat (a - b)"
  have lt: "?k < 4 * 1073741824" using unsigned_less [of "a - b"] by simp
  obtain q where "?k = 4 * q" using assms(1) by (auto simp: mod_eq_0_iff_dvd)
  then have k: "?k + 3 < 2 ^ 32" using lt by simp
  have u: "unat (a + d - b) = ?k + unat d" if "unat d < 4" for d
  proof -
    have e: "a + d - b = (a - b) + d" by simp
    show ?thesis unfolding e using k that unat_plus_no_wrap [of "a - b" d] by simp
  qed
  have q: "(?k + j) div 4 = ?k div 4 \<and> (?k + j) mod 4 = j" if "j < 4" for j
    using assms(1) that by presburger
  have m: "mem_words b ws (a + d) = ucast (drop_bit (8 * unat d) (ws ! (?k div 4)))" if "unat d < 4" for d
    using u [OF that] q [OF that] assms(2) by (simp add: mem_words_def Let_def)
  have m0: "mem_words b ws a = ucast (ws ! (?k div 4))" using m [of 0] by simp
  show ?thesis using m [of 1] m [of 2] m [of 3] by (simp add: rd32_def m0 u32_of_bytes)
qed
lemma u16_of_bytes: "(ucast (ucast (v :: u32) :: u8) :: u16) OR push_bit 8 (ucast (ucast (drop_bit 8 v) :: u8)) = ucast v"
  by (rule bit_word_eqI) (auto simp: bit_simps)
lemma rd16_mem_words:
  assumes "unat (a - b) mod 2 = 0" and "unat (a - b) div 4 < length ws"
  shows "rd16 (mem_words b ws) a = ucast (drop_bit (8 * (unat (a - b) mod 4)) (ws ! (unat (a - b) div 4)))"
proof -
  let ?k = "unat (a - b)"
  have lt: "?k < 4 * 1073741824" using unsigned_less [of "a - b"] by simp
  obtain q where "?k = 2 * q" using assms(1) by (auto simp: mod_eq_0_iff_dvd)
  then have k: "?k + 1 < 2 ^ 32" using lt by simp
  have e: "a + 1 - b = (a - b) + 1" by simp
  have u: "unat (a + 1 - b) = ?k + 1" unfolding e using k unat_plus_no_wrap [of "a - b" 1] by simp
  have q: "(?k + 1) div 4 = ?k div 4" "(?k + 1) mod 4 = ?k mod 4 + 1" using assms(1) by presburger+
  let ?v = "drop_bit (8 * (?k mod 4)) (ws ! (?k div 4))"
  have "mem_words b ws (a + 1) = ucast (drop_bit 8 ?v)" "mem_words b ws a = ucast ?v"
    using u q assms(2) by (simp_all add: mem_words_def Let_def add.commute)
  then show ?thesis by (simp only: rd16_def u16_of_bytes)
qed

lemmas words_eval = rd32_mem_words rd16_mem_words

lemma plain_header: "read_header plain_mem 0x1000 = \<lparr>h_sign = 0x4D4C4455, h_mod_version = 0x100,
  h_udynlink_version = 0x300, h_arch_tag = 3, h_num_lot = 2, h_num_rels = 4, h_flags = 0,
  h_symt_size = 44, h_code_size = 8, h_data_size = 8, h_bss_size = 8\<rparr>"
  by (simp add: read_header_def plain_mem_def words_eval plain_image_def)

lemma plain_pointer: "get_sym_table_pointer plain_mem 0x1000 = 0x1040"
  by (simp add: get_sym_table_pointer_def plain_header get_header_size_def acc_defs Let_def)

lemma tagged_header: "read_header tagged_mem 0x1000 = \<lparr>h_sign = 0x4D4C4455, h_mod_version = 0x100,
  h_udynlink_version = 0x301, h_arch_tag = 3, h_num_lot = 2, h_num_rels = 2, h_flags = 9,
  h_symt_size = 40, h_code_size = 6, h_data_size = 4, h_bss_size = 8\<rparr>"
  by (simp add: read_header_def tagged_mem_def words_eval tagged_image_def)

lemma tagged_pointer: "get_sym_table_pointer tagged_mem 0x1000 = 0x1030"
  by (simp add: get_sym_table_pointer_def tagged_header get_header_size_def acc_defs Let_def)

lemma tagged_num: "get_num_sections_raw (read_header tagged_mem 0x1000) = 4"
  by (simp add: tagged_header get_num_sections_raw_def is_sectioned_def acc_defs Let_def)


lemma short_header: "read_header short_mem 0x1000 = \<lparr>h_sign = 0x4D4C4455, h_mod_version = 0x100,
  h_udynlink_version = 0x301, h_arch_tag = 3, h_num_lot = 0, h_num_rels = 0, h_flags = 3,
  h_symt_size = 16, h_code_size = 48, h_data_size = 0, h_bss_size = 0\<rparr>"
  by (simp add: read_header_def short_mem_def words_eval short_image_def)

end
