(* ===== verification/Sectab.thy ===== *)
theory Sectab
  imports Images
begin

text \<open>
  The section table of a sectioned image (loader ABI 3.1): decoding and validation of the
  24-byte entries (\<open>get_sectab\<close>), the search of a link-time address in it
  (\<open>sect_find_by_va\<close>), and the layout walk that places the three main sections inside the
  module's RAM block. Indices and the validated entry count (at most 63) are natural
  numbers; every byte size, offset and address is a 32-bit word.
\<close>

section \<open>Entries and views\<close>

definition UDYNLINK_SEC_CLASS_CODE :: u32 where
  [acc_defs]: "UDYNLINK_SEC_CLASS_CODE = 0"

definition UDYNLINK_SEC_CLASS_DATA :: u32 where
  [acc_defs]: "UDYNLINK_SEC_CLASS_DATA = 1"

definition UDYNLINK_SEC_CLASS_BSS :: u32 where
  [acc_defs]: "UDYNLINK_SEC_CLASS_BSS = 2"

definition UDYNLINK_SEC_FLAG_MAIN :: u32 where
  [acc_defs]: "UDYNLINK_SEC_FLAG_MAIN = 0x80000000"

record sect_entry_t =
  e_name_off :: u32
  e_va :: u32
  e_size :: u32
  e_align :: u32
  e_cls :: u32
  e_flags :: u32

record sect_view_t =
  v_entries :: addr
  v_pool :: addr
  v_num :: nat

definition get_sectab_offset :: "udynlink_module_header_t \<Rightarrow> u32" where
  "get_sectab_offset h = get_symtab_end_offset h"

text \<open>The six words of the entry at an address.\<close>

definition decode_entry :: "mem \<Rightarrow> addr \<Rightarrow> sect_entry_t" where
  "decode_entry m w = \<lparr>e_name_off = rd32 m w, e_va = rd32 m (w + 4), e_size = rd32 m (w + 8),
     e_align = rd32 m (w + 12), e_cls = rd32 m (w + 16), e_flags = rd32 m (w + 20)\<rparr>"

definition sect_entry_at :: "mem \<Rightarrow> sect_view_t \<Rightarrow> nat \<Rightarrow> sect_entry_t" where
  "sect_entry_at m tab idx = decode_entry m (v_entries tab + of_nat idx * 6 * 4)"

definition sect_name :: "sect_view_t \<Rightarrow> sect_entry_t \<Rightarrow> addr" where
  "sect_name tab e = (if e_name_off e \<noteq> 0 then v_pool tab + e_name_off e else NULL)"

definition sect_host_flags :: "sect_entry_t \<Rightarrow> u32" where
  "sect_host_flags e = e_flags e AND NOT (UDYNLINK_SEC_FLAG_MAIN OR 0x00FF0000)"

definition get_nonmain_bases_size :: "sect_view_t \<Rightarrow> u32" where
  "get_nonmain_bases_size tab = (if v_num tab > 3 then of_nat (v_num tab - 3) * 4 else 0)"

definition align_up_u32 :: "u64 \<Rightarrow> u32 \<Rightarrow> u32" where
  "align_up_u32 v al = ucast ((v + ucast al - 1) AND NOT (ucast al - 1 :: u64))"

section \<open>Validation\<close>

text \<open>The checks on one entry, in the order of the loop body of \<open>get_sectab\<close>.\<close>

definition sect_entry_check ::
  "mem \<Rightarrow> udynlink_module_header_t \<Rightarrow> addr \<Rightarrow> bool \<Rightarrow> nat \<Rightarrow> sect_entry_t \<Rightarrow> sect_entry_t
   \<Rightarrow> udynlink_error_t" where
  "sect_entry_check m h pool check_names i prev e =
     (if e_align e < 4 \<or> e_align e AND (e_align e - 1) \<noteq> 0 then ERR_LOAD_BAD_SECTION_TABLE
      else if e_size e AND 3 \<noteq> 0 then ERR_LOAD_BAD_SECTION_TABLE
      else if e_cls e > UDYNLINK_SEC_CLASS_BSS then ERR_LOAD_BAD_SECTION_TABLE
      else if e_flags e AND 0x00FF0000 \<noteq> 0 then ERR_LOAD_BAD_SECTION_TABLE
      else if i < 3 \<and> (e_flags e AND UDYNLINK_SEC_FLAG_MAIN = 0 \<or> e_cls e \<noteq> of_nat i)
        then ERR_LOAD_BAD_SECTION_TABLE
      else if \<not> i < 3 \<and> e_flags e AND UDYNLINK_SEC_FLAG_MAIN \<noteq> 0 then ERR_LOAD_BAD_SECTION_TABLE
      else if \<not> i < 3 \<and> e_name_off e = 0 then ERR_LOAD_BAD_SECTION_TABLE
      else if check_names \<and> e_name_off e \<noteq> 0 \<and>
          (e_name_off e \<ge> h_symt_size h \<or>
           \<not> memchr_nul m (pool + e_name_off e) (h_symt_size h - e_name_off e))
        then ERR_LOAD_BAD_SECTION_TABLE
      else if i = 0 \<and> e_va e \<noteq> 0 then ERR_LOAD_BAD_SECTION_TABLE
      else if i \<noteq> 0 \<and> (ucast (e_va prev) :: u64) + ucast (e_size prev) > ucast (e_va e)
        then ERR_LOAD_BAD_SECTION_TABLE
      else UDYNLINK_OK)"

fun sectab_scan ::
  "mem \<Rightarrow> udynlink_module_header_t \<Rightarrow> addr \<Rightarrow> addr \<Rightarrow> bool \<Rightarrow> sect_entry_t \<Rightarrow> nat list
   \<Rightarrow> udynlink_error_t" where
  "sectab_scan m h entries pool check_names prev [] = UDYNLINK_OK"
| "sectab_scan m h entries pool check_names prev (i # is) =
     (let e = decode_entry m (entries + of_nat i * 6 * 4);
          res = sect_entry_check m h pool check_names i prev e
      in if res \<noteq> UDYNLINK_OK then res
         else sectab_scan m h entries pool check_names e is)"

definition empty_entry :: sect_entry_t where
  "empty_entry = \<lparr>e_name_off = 0, e_va = 0, e_size = 0, e_align = 0, e_cls = 0, e_flags = 0\<rparr>"

text \<open>The consistency of the three main sections with the header, after the loop.\<close>

definition main_sections_check ::
  "udynlink_module_header_t \<Rightarrow> sect_entry_t \<Rightarrow> sect_entry_t \<Rightarrow> sect_entry_t \<Rightarrow> udynlink_error_t" where
  "main_sections_check h m0 m1 m2 =
     (let data_va = align_up_u32 (ucast (h_code_size h)) (e_align m1);
          bss_va = align_up_u32 (ucast data_va + ucast (h_data_size h)) (e_align m2)
      in if e_size m0 \<noteq> data_va \<or> e_va m1 \<noteq> data_va \<or> e_size m1 \<noteq> h_data_size h
            \<or> e_va m2 \<noteq> bss_va \<or> e_size m2 \<noteq> h_bss_size h
         then ERR_LOAD_BAD_SECTION_TABLE else UDYNLINK_OK)"

definition get_sectab :: "mem \<Rightarrow> addr \<Rightarrow> bool \<Rightarrow> udynlink_error_t \<times> sect_view_t" where
  "get_sectab m hp check_names =
     (let h = read_header m hp;
          pool = get_sym_table_pointer m hp;
          empty = \<lparr>v_entries = NULL, v_pool = pool, v_num = 0\<rparr>
      in if h_flags h AND UDYNLINK_HDR_FLAG_SECTIONS = 0 then
           (if h_flags h AND UDYNLINK_HDR_SECTIONS_MASK \<noteq> 0
            then (ERR_LOAD_BAD_SECTION_TABLE, empty) else (UDYNLINK_OK, empty))
         else if h_flags h AND 0xFF00 \<noteq> 0 then (ERR_LOAD_BAD_SECTION_TABLE, empty)
         else if h_udynlink_version h < UDYNLINK_MAKE_VERSION 3 1
           then (ERR_LOAD_BAD_SECTION_TABLE, empty)
         else let num = get_num_sections_raw h
         in if num = 0 then (ERR_LOAD_BAD_SECTION_TABLE, empty)
         else if h_symt_size h > UDYNLINK_MAX_IMAGE_SIZE then (ERR_LOAD_BAD_SECTION_TABLE, empty)
         else let entries = hp + get_sectab_offset h;
                  res = sectab_scan m h entries pool check_names empty_entry [0..<unat num]
         in if res \<noteq> UDYNLINK_OK then (res, empty)
         else let view = \<lparr>v_entries = entries, v_pool = pool, v_num = unat num\<rparr>;
                  res2 = main_sections_check h (sect_entry_at m view 0) (sect_entry_at m view 1)
                           (sect_entry_at m view 2)
         in if res2 \<noteq> UDYNLINK_OK then (res2, empty) else (UDYNLINK_OK, view))"

section \<open>Searching the table\<close>

text \<open>The span of section \<open>i\<close>: a main section reaches up to the next main section.\<close>

definition sect_span :: "mem \<Rightarrow> sect_view_t \<Rightarrow> nat \<Rightarrow> u64" where
  "sect_span m tab i =
     (let e = sect_entry_at m tab i
      in if i + 1 < 3 \<and> i + 1 < v_num tab
         then ucast (e_va (sect_entry_at m tab (i + 1))) - ucast (e_va e)
         else ucast (e_size e))"

fun find_by_va_loop :: "mem \<Rightarrow> sect_view_t \<Rightarrow> u32 \<Rightarrow> nat list \<Rightarrow> nat option" where
  "find_by_va_loop m tab va [] = None"
| "find_by_va_loop m tab va (i # is) =
     (let e = sect_entry_at m tab i
      in if va < e_va e then None
         else if ucast (va - e_va e) < sect_span m tab i then Some i
         else find_by_va_loop m tab va is)"

definition sect_find_by_va :: "mem \<Rightarrow> sect_view_t \<Rightarrow> u32 \<Rightarrow> nat option" where
  "sect_find_by_va m tab va = find_by_va_loop m tab va [0..<v_num tab]"

fun sum_sizes_loop :: "mem \<Rightarrow> sect_view_t \<Rightarrow> u32 \<Rightarrow> u64 \<Rightarrow> nat list \<Rightarrow> u64" where
  "sum_sizes_loop m tab cls_mask tot [] = tot"
| "sum_sizes_loop m tab cls_mask tot (k # ks) =
     (let e = sect_entry_at m tab k
      in sum_sizes_loop m tab cls_mask
           (if cls_mask AND push_bit (unat (e_cls e)) 1 \<noteq> 0 then tot + ucast (e_size e) else tot) ks)"

definition sum_section_sizes :: "mem \<Rightarrow> sect_view_t \<Rightarrow> nat \<Rightarrow> u32 \<Rightarrow> u64" where
  "sum_section_sizes m tab from cls_mask = sum_sizes_loop m tab cls_mask 0 [from..<v_num tab]"

section \<open>Layout of the main sections in the RAM block\<close>

definition get_main_sections_start ::
  "udynlink_module_header_t \<Rightarrow> sect_view_t \<Rightarrow> udynlink_load_mode_t \<Rightarrow> u32" where
  "get_main_sections_start h tab md =
     (let off = ucast (h_num_lot h) * 4 + get_nonmain_bases_size tab
      in if md = LOAD_MODE_COPY_ALL then off + get_code_offset_from_header h else off)"

text \<open>The first main section the walk places: XIP leaves \<open>.text\<close> in the image.\<close>

definition first_main :: "udynlink_load_mode_t \<Rightarrow> nat" where
  "first_main md = (if md = LOAD_MODE_XIP then 1 else 0)"

fun main_offset_loop :: "mem \<Rightarrow> sect_view_t \<Rightarrow> nat \<Rightarrow> u32 \<Rightarrow> nat list \<Rightarrow> u32" where
  "main_offset_loop m tab idx off [] = off"
| "main_offset_loop m tab idx off (i # is) =
     (let e = sect_entry_at m tab i;
          off' = (off + e_align e - 1) AND NOT (e_align e - 1)
      in if i = idx then off' else main_offset_loop m tab idx (off' + e_size e) is)"

definition get_main_section_offset ::
  "mem \<Rightarrow> udynlink_module_header_t \<Rightarrow> sect_view_t \<Rightarrow> udynlink_load_mode_t \<Rightarrow> nat \<Rightarrow> u32" where
  "get_main_section_offset m h tab md idx =
     (if v_num tab \<le> idx then 0
      else main_offset_loop m tab idx (get_main_sections_start h tab md) [first_main md..<Suc idx])"

definition get_code_payload_size :: "mem \<Rightarrow> udynlink_module_header_t \<Rightarrow> sect_view_t \<Rightarrow> u32" where
  "get_code_payload_size m h tab =
     (if v_num tab > 1 then e_va (sect_entry_at m tab 1) else h_code_size h)"

fun main_align_loop :: "mem \<Rightarrow> sect_view_t \<Rightarrow> u32 \<Rightarrow> nat list \<Rightarrow> u32" where
  "main_align_loop m tab al [] = al"
| "main_align_loop m tab al (i # is) =
     (let e = sect_entry_at m tab i
      in main_align_loop m tab (if e_align e > al then e_align e else al) is)"

definition get_main_align :: "mem \<Rightarrow> sect_view_t \<Rightarrow> u32" where
  "get_main_align m tab = (if v_num tab > 0 then main_align_loop m tab 4 [0..<3] else 4)"

fun ram_size_loop :: "mem \<Rightarrow> sect_view_t \<Rightarrow> u32 \<Rightarrow> nat list \<Rightarrow> u32" where
  "ram_size_loop m tab tot [] = tot"
| "ram_size_loop m tab tot (i # is) =
     (let e = sect_entry_at m tab i;
          tot' = (tot + e_align e - 1) AND NOT (e_align e - 1)
      in ram_size_loop m tab (tot' + e_size e) is)"

definition get_ram_size_sections ::
  "mem \<Rightarrow> udynlink_module_header_t \<Rightarrow> sect_view_t \<Rightarrow> udynlink_load_mode_t \<Rightarrow> u32" where
  "get_ram_size_sections m h tab md =
     (let tot = ucast (h_num_lot h) * 4 + get_nonmain_bases_size tab;
          tot' = (if md = LOAD_MODE_COPY_ALL then tot + get_code_offset_from_header h else tot)
      in ram_size_loop m tab tot' [first_main md..<3])"

definition get_ram_size_for_header :: "mem \<Rightarrow> addr \<Rightarrow> udynlink_load_mode_t \<Rightarrow> u32" where
  "get_ram_size_for_header m hp md =
     (let h = read_header m hp; (err, tab) = get_sectab m hp False
      in if is_sectioned h \<and> err = UDYNLINK_OK \<and> v_num tab > 0
         then get_ram_size_sections m h tab md
         else let tot = ucast (h_num_lot h) * 4 + h_data_size h + h_bss_size h
         in if md = LOAD_MODE_COPY_TEXT_DATA then tot + h_code_size h
            else if md = LOAD_MODE_COPY_ALL
            then tot + (get_code_offset_from_header h + h_code_size h)
            else tot)"

definition udynlink_compute_ram_size :: "mem \<Rightarrow> addr \<Rightarrow> udynlink_load_mode_t \<Rightarrow> u32" where
  "udynlink_compute_ram_size m header md = get_ram_size_for_header m header md"

definition udynlink_get_ram_requirements :: "mem \<Rightarrow> addr \<Rightarrow> udynlink_load_mode_t \<Rightarrow> u32" where
  "udynlink_get_ram_requirements m base_addr md = get_ram_size_for_header m base_addr md"

definition udynlink_get_ram_size :: "mem \<Rightarrow> udynlink_module_t \<Rightarrow> u32" where
  "udynlink_get_ram_size m pm = get_ram_size_for_header m (p_header pm) (LOAD_GET_MODE pm)"

section \<open>Image sizes\<close>

definition udynlink_get_image_size :: "mem \<Rightarrow> addr \<Rightarrow> u32" where
  "udynlink_get_image_size m base_addr =
     (if map (\<lambda>i. m (base_addr + i)) [0, 1, 2, 3] \<noteq> [0x55, 0x44, 0x4C, 0x4D] then 0
      else let h = read_header m base_addr
           in get_code_offset_from_header h + h_code_size h + h_data_size h)"

fun bounded_size_loop :: "mem \<Rightarrow> sect_view_t \<Rightarrow> u32 \<Rightarrow> nat list \<Rightarrow> u32" where
  "bounded_size_loop m tab tot [] = tot"
| "bounded_size_loop m tab tot (k # ks) =
     (let e = sect_entry_at m tab k
      in bounded_size_loop m tab
           (if e_cls e \<noteq> UDYNLINK_SEC_CLASS_BSS then tot + e_size e else tot) ks)"

definition udynlink_get_image_size_bounded :: "mem \<Rightarrow> addr \<Rightarrow> u32 \<Rightarrow> u32" where
  "udynlink_get_image_size_bounded m base_addr avail =
     (if base_addr = NULL \<or> avail < 32 then 0
      else let tot = udynlink_get_image_size m base_addr
      in if tot = 0 then 0
      else if tot > avail then 0
      else if \<not> is_sectioned (read_header m base_addr) then tot
      else let (err, tab) = get_sectab m base_addr False
      in if err \<noteq> UDYNLINK_OK then 0
      else bounded_size_loop m tab tot [3..<v_num tab])"

section \<open>Validated tables\<close>

text \<open>What the checks of \<open>get_sectab\<close> establish for a table with its three main sections.\<close>

definition entry_ok :: "nat \<Rightarrow> sect_entry_t \<Rightarrow> bool" where
  "entry_ok i e \<longleftrightarrow> pow2 (e_align e) \<and> 4 \<le> unat (e_align e) \<and> 4 dvd unat (e_size e)
     \<and> unat (e_cls e) \<le> 2 \<and> e_flags e AND 0x00FF0000 = 0
     \<and> (e_flags e AND UDYNLINK_SEC_FLAG_MAIN \<noteq> 0 \<longleftrightarrow> i < 3)
     \<and> (i < 3 \<longrightarrow> unat (e_cls e) = i) \<and> (3 \<le> i \<longrightarrow> e_name_off e \<noteq> 0)"

definition sectab_wf :: "mem \<Rightarrow> sect_view_t \<Rightarrow> bool" where
  "sectab_wf m tab \<longleftrightarrow>
     (\<forall>i < v_num tab. entry_ok i (sect_entry_at m tab i))
     \<and> (v_num tab > 0 \<longrightarrow> e_va (sect_entry_at m tab 0) = 0)
     \<and> (\<forall>i. Suc i < v_num tab \<longrightarrow>
          unat (e_va (sect_entry_at m tab i)) + unat (e_size (sect_entry_at m tab i))
          \<le> unat (e_va (sect_entry_at m tab (Suc i))))"

lemma entry_check_iff:
  assumes "i < 2 ^ 32"
  shows "sect_entry_check m h pool cn i prev e = UDYNLINK_OK \<longleftrightarrow>
    entry_ok i e \<and> (i = 0 \<longrightarrow> e_va e = 0)
    \<and> (i \<noteq> 0 \<longrightarrow> unat (e_va prev) + unat (e_size prev) \<le> unat (e_va e))
    \<and> (cn \<and> e_name_off e \<noteq> 0 \<longrightarrow> e_name_off e < h_symt_size h
        \<and> memchr_nul m (pool + e_name_off e) (h_symt_size h - e_name_off e))"
proof -
  have al: "e_align e < 4 \<or> e_align e AND (e_align e - 1) \<noteq> 0 \<longleftrightarrow> \<not> (pow2 (e_align e) \<and> 4 \<le> unat (e_align e))"
    using and_pred_eq_0_iff [of "e_align e"] by (cases "e_align e = 0") (auto simp: word_less_nat_alt)
  have cl: "e_cls e > UDYNLINK_SEC_CLASS_BSS \<longleftrightarrow> \<not> unat (e_cls e) \<le> 2"
    by (auto simp: acc_defs word_less_nat_alt)
  have ci: "e_cls e \<noteq> of_nat i \<longleftrightarrow> unat (e_cls e) \<noteq> i"
    using assms by (metis unat_of_nat_small of_nat_unat ucast_id)
  have va: "(ucast (e_va prev) :: u64) + ucast (e_size prev) > ucast (e_va e)
      \<longleftrightarrow> \<not> unat (e_va prev) + unat (e_size prev) \<le> unat (e_va e)"
    by (simp add: word_less_nat_alt unat_add_ucast64 not_le)
  show ?thesis
    unfolding sect_entry_check_def al and_3_eq_0_iff cl ci va entry_ok_def
    by (auto simp: not_less)
qed

text \<open>The scan accepts exactly the lists of entries that pass one after the other.\<close>

lemma scan_ok_iff:
  assumes D: "\<And>i. D i = decode_entry m (entries + of_nat i * 6 * 4)"
  shows "sectab_scan m h entries pool cn prev [a..<a + n] = UDYNLINK_OK \<longleftrightarrow>
    (\<forall>i < n. sect_entry_check m h pool cn (a + i) (if i = 0 then prev else D (a + i - 1)) (D (a + i))
             = UDYNLINK_OK)"
proof (induction n arbitrary: a prev)
  case 0
  then show ?case by simp
next
  case (Suc n)
  have l: "[a..<a + Suc n] = a # [Suc a..<Suc a + n]" by (simp add: upt_rec)
  have prev: "(if i = 0 then D a else D (Suc a + i - 1)) = D (a + Suc i - 1)" for i
    by (cases i) simp_all
  have "sectab_scan m h entries pool cn prev [a..<a + Suc n] = UDYNLINK_OK \<longleftrightarrow>
      sect_entry_check m h pool cn a prev (D a) = UDYNLINK_OK
      \<and> sectab_scan m h entries pool cn (D a) [Suc a..<Suc a + n] = UDYNLINK_OK"
    unfolding l sectab_scan.simps Let_def D [symmetric] by (simp del: upt_Suc)
  also have "\<dots> \<longleftrightarrow> sect_entry_check m h pool cn a prev (D a) = UDYNLINK_OK
      \<and> (\<forall>i < n. sect_entry_check m h pool cn (a + Suc i) (D (a + Suc i - 1)) (D (a + Suc i)) = UDYNLINK_OK)"
    unfolding Suc.IH prev by (simp only: add_Suc add_Suc_right)
  also have "\<dots> \<longleftrightarrow> (\<forall>i < Suc n. sect_entry_check m h pool cn (a + i)
      (if i = 0 then prev else D (a + i - 1)) (D (a + i)) = UDYNLINK_OK)"
    unfolding All_less_Suc2 by simp
  finally show ?case .
qed

definition names_ok :: "mem \<Rightarrow> udynlink_module_header_t \<Rightarrow> sect_view_t \<Rightarrow> bool" where
  "names_ok m h tab \<longleftrightarrow> (\<forall>i < v_num tab. let e = sect_entry_at m tab i in
     e_name_off e \<noteq> 0 \<longrightarrow> e_name_off e < h_symt_size h
       \<and> memchr_nul m (v_pool tab + e_name_off e) (h_symt_size h - e_name_off e))"

lemma scan_ok_wf:
  assumes "n \<le> 2 ^ 32"
  shows "sectab_scan m h entries pool cn empty_entry [0..<n] = UDYNLINK_OK \<longleftrightarrow>
     sectab_wf m \<lparr>v_entries = entries, v_pool = pool, v_num = n\<rparr>
     \<and> (cn \<longrightarrow> names_ok m h \<lparr>v_entries = entries, v_pool = pool, v_num = n\<rparr>)"
proof -
  let ?tab = "\<lparr>v_entries = entries, v_pool = pool, v_num = n\<rparr>"
  let ?e = "sect_entry_at m ?tab"
  have e: "decode_entry m (entries + of_nat i * 6 * 4) = ?e i" for i
    by (simp add: sect_entry_at_def)
  have "sectab_scan m h entries pool cn empty_entry [0..<n] = UDYNLINK_OK \<longleftrightarrow>
     (\<forall>i < n. sect_entry_check m h pool cn i (if i = 0 then empty_entry else ?e (i - 1)) (?e i) = UDYNLINK_OK)"
    using scan_ok_iff [of ?e m entries h pool cn empty_entry 0 n] e by simp
  also have "\<dots> \<longleftrightarrow> (\<forall>i < n. entry_ok i (?e i) \<and> (i = 0 \<longrightarrow> e_va (?e i) = 0)
     \<and> (i \<noteq> 0 \<longrightarrow> unat (e_va (?e (i - 1))) + unat (e_size (?e (i - 1))) \<le> unat (e_va (?e i)))
     \<and> (cn \<and> e_name_off (?e i) \<noteq> 0 \<longrightarrow> e_name_off (?e i) < h_symt_size h
        \<and> memchr_nul m (pool + e_name_off (?e i)) (h_symt_size h - e_name_off (?e i))))"
    using assms by (auto simp: entry_check_iff)
  also have "\<dots> \<longleftrightarrow> sectab_wf m ?tab \<and> (cn \<longrightarrow> names_ok m h ?tab)"
    unfolding sectab_wf_def names_ok_def Let_def sect_view_t.simps
    by (auto simp: gr0_conv_Suc)
  finally show ?thesis .
qed

text \<open>\<open>align_up_u32\<close> rounds up in 64 bits and truncates.\<close>

lemma unat_align_up_u32:
  assumes "pow2 al" and "unat v < 2 ^ 63"
  shows "unat (align_up_u32 v al) = roundup (unat v) (unat al) mod 2 ^ 32"
proof -
  from assms(1) obtain k where k: "k < 32" "al = 2 ^ k" "unat al = 2 ^ k"
    using pow2_mask by blast
  have "(2::nat) ^ k < 2 ^ 64" using k(1) by (intro power_strict_increasing) auto
  then have u64: "unat (2 ^ k :: u64) = 2 ^ k"
    using unat_of_nat [of "2 ^ k", where ?'a = 64] by simp
  then have al64: "(ucast al :: u64) = 2 ^ k" using k(3) u64
    by (intro word_unat_eq_iff [THEN iffD2]) simp
  have e1: "v + ucast al - 1 = v + mask k" unfolding al64 mask_eq_exp_minus_1 by simp
  have e2: "unat (v + mask k) = unat v + 2 ^ k - 1"
  proof -
    have "(2::nat) ^ k \<le> 2 ^ 31" using k(1) by (intro power_increasing) auto
    moreover have "unat (mask k :: u64) = 2 ^ k - 1"
      using u64 unfolding mask_eq_exp_minus_1 by (subst unat_minus_one) (use k(1) in auto)
    ultimately show ?thesis using assms(2) by (subst unat_word_ariths) simp
  qed
  have e3: "(ucast al - 1 :: u64) = mask k" unfolding al64 mask_eq_exp_minus_1 ..
  show ?thesis
    unfolding align_up_u32_def roundup_def k(3) e3 e1 unsigned_ucast_eq unat_and_not_mask e2
    by (simp add: take_bit_eq_mod)
qed

text \<open>The main sections describe the code, data and zero-initialised sizes of the header.\<close>

definition mains_match :: "udynlink_module_header_t \<Rightarrow> mem \<Rightarrow> sect_view_t \<Rightarrow> bool" where
  "mains_match h m tab \<longleftrightarrow>
     (let e0 = sect_entry_at m tab 0; e1 = sect_entry_at m tab 1; e2 = sect_entry_at m tab 2
      in unat (e_size e0) = roundup (unat (h_code_size h)) (unat (e_align e1)) mod 2 ^ 32
         \<and> e_va e1 = e_size e0 \<and> e_size e1 = h_data_size h
         \<and> unat (e_va e2) = roundup (unat (e_va e1) + unat (h_data_size h)) (unat (e_align e2)) mod 2 ^ 32
         \<and> e_size e2 = h_bss_size h)"

lemma main_check_iff:
  assumes "sectab_wf m tab" and "3 \<le> v_num tab"
  shows "main_sections_check h (sect_entry_at m tab 0) (sect_entry_at m tab 1) (sect_entry_at m tab 2)
     = UDYNLINK_OK \<longleftrightarrow> mains_match h m tab"
proof -
  let ?e1 = "sect_entry_at m tab 1" and ?e2 = "sect_entry_at m tab 2"
  have p: "pow2 (e_align ?e1)" "pow2 (e_align ?e2)"
    using assms by (auto simp: sectab_wf_def entry_ok_def)
  have lt: "unat x < 2 ^ 32" for x :: u32 using unsigned_less [of x] by simp
  have a1: "unat (align_up_u32 (ucast (h_code_size h)) (e_align ?e1))
      = roundup (unat (h_code_size h)) (unat (e_align ?e1)) mod 2 ^ 32"
    using unat_align_up_u32 [OF p(1), of "ucast (h_code_size h)"] lt [of "h_code_size h"] by simp
  have a2: "unat (align_up_u32 (ucast va + ucast (h_data_size h)) (e_align ?e2))
      = roundup (unat va + unat (h_data_size h)) (unat (e_align ?e2)) mod 2 ^ 32" for va :: u32
    using unat_align_up_u32 [OF p(2), of "ucast va + ucast (h_data_size h)"] lt [of va]
      lt [of "h_data_size h"] unfolding unat_add_ucast64 by simp
  show ?thesis
    unfolding main_sections_check_def mains_match_def Let_def word_unat_eq_iff [of "e_size (sect_entry_at m tab 0)"]
      word_unat_eq_iff [of "e_va ?e1"] word_unat_eq_iff [of "e_va ?e2"]
    using a1 a2 by (auto simp: word_unat_eq_iff)
qed

text \<open>What a sectioned image must satisfy for the loader to accept its table, in words of
  naturals and ranges rather than of the scan.\<close>

definition sectab_spec :: "mem \<Rightarrow> addr \<Rightarrow> bool \<Rightarrow> sect_view_t \<Rightarrow> bool" where
  "sectab_spec m hp check_names tab \<longleftrightarrow>
     (let h = read_header m hp
      in h_flags h AND 0xFF00 = 0 \<and> UDYNLINK_MAKE_VERSION 3 1 \<le> h_udynlink_version h
         \<and> h_symt_size h \<le> UDYNLINK_MAX_IMAGE_SIZE
         \<and> v_entries tab = hp + get_sectab_offset h \<and> v_pool tab = get_sym_table_pointer m hp
         \<and> v_num tab = unat (get_num_sections_raw h)
         \<and> sectab_wf m tab \<and> (check_names \<longrightarrow> names_ok m h tab) \<and> mains_match h m tab)"

lemma get_sectab_iff:
  assumes "is_sectioned (read_header m hp)" and "3 \<le> unat (get_num_sections_raw (read_header m hp))"
  shows "get_sectab m hp cn = (UDYNLINK_OK, tab) \<longleftrightarrow> sectab_spec m hp cn tab"
proof -
  let ?h = "read_header m hp" and ?n = "get_num_sections_raw (read_header m hp)"
  let ?tab = "\<lparr>v_entries = hp + get_sectab_offset ?h, v_pool = get_sym_table_pointer m hp,
    v_num = unat ?n\<rparr>"
  have n: "?n \<noteq> 0" "unat ?n \<le> 2 ^ 32" using assms(2) num_sections_le [of ?h] by auto
  have fl: "h_flags ?h AND UDYNLINK_HDR_FLAG_SECTIONS \<noteq> 0" using assms(1) by (simp add: is_sectioned_def)
  have mm: "main_sections_check ?h (sect_entry_at m ?tab 0) (sect_entry_at m ?tab 1) (sect_entry_at m ?tab 2)
     = UDYNLINK_OK \<longleftrightarrow> mains_match ?h m ?tab" if "sectab_wf m ?tab"
    by (rule main_check_iff [OF that]) (use assms(2) in simp)
  have sp: "sectab_spec m hp cn tab \<longleftrightarrow> tab = ?tab \<and> h_flags ?h AND 0xFF00 = 0
     \<and> UDYNLINK_MAKE_VERSION 3 1 \<le> h_udynlink_version ?h \<and> h_symt_size ?h \<le> UDYNLINK_MAX_IMAGE_SIZE
     \<and> sectab_wf m ?tab \<and> (cn \<longrightarrow> names_ok m ?h ?tab) \<and> mains_match ?h m ?tab"
    by (cases tab) (auto simp: sectab_spec_def Let_def)
  show ?thesis
    unfolding get_sectab_def Let_def sp
    using n fl scan_ok_wf [OF n(2), of m ?h "hp + get_sectab_offset ?h" "get_sym_table_pointer m hp" cn] mm
    by (auto simp: not_less not_le)
qed

lemma get_sectab_untagged:
  assumes "\<not> is_sectioned (read_header m hp)"
  shows "v_num (snd (get_sectab m hp cn)) = 0"
  using assms by (simp add: get_sectab_def is_sectioned_def Let_def)

lemma get_sectab_num:
  assumes "get_sectab m hp cn = (UDYNLINK_OK, tab)"
  shows "v_num tab = unat (get_num_sections_raw (read_header m hp))"
  using assms by (auto simp: get_sectab_def Let_def get_num_sections_raw_def is_sectioned_def split: if_splits)

section \<open>Searching a validated table\<close>

text \<open>Address \<open>va\<close> lies in the span of section \<open>i\<close>, in naturals.\<close>

definition va_in :: "mem \<Rightarrow> sect_view_t \<Rightarrow> nat \<Rightarrow> u32 \<Rightarrow> bool" where
  "va_in m tab i va \<longleftrightarrow>
     unat (e_va (sect_entry_at m tab i)) \<le> unat va
     \<and> unat va < (if i + 1 < 3 \<and> i + 1 < v_num tab then unat (e_va (sect_entry_at m tab (i + 1)))
                  else unat (e_va (sect_entry_at m tab i)) + unat (e_size (sect_entry_at m tab i)))"

lemma sectab_sorted:
  assumes "sectab_wf m tab" and "i < j" and "j < v_num tab"
  shows "unat (e_va (sect_entry_at m tab i)) + unat (e_size (sect_entry_at m tab i))
         \<le> unat (e_va (sect_entry_at m tab j))"
  using assms(2,3)
proof (induction j)
  case (Suc j)
  have step: "unat (e_va (sect_entry_at m tab j)) + unat (e_size (sect_entry_at m tab j))
      \<le> unat (e_va (sect_entry_at m tab (Suc j)))"
    using assms(1) Suc.prems by (simp add: sectab_wf_def)
  show ?case
  proof (cases "i = j")
    case False
    then show ?thesis using Suc step by simp
  qed (use step in simp)
qed simp

lemma span_check_iff:
  assumes "sectab_wf m tab" and "i < v_num tab" and "\<not> va < e_va (sect_entry_at m tab i)"
  shows "ucast (va - e_va (sect_entry_at m tab i)) < sect_span m tab i \<longleftrightarrow> va_in m tab i va"
proof -
  let ?e = "sect_entry_at m tab"
  have le: "unat (e_va (?e i)) \<le> unat va" using assms(3) by (simp add: word_less_nat_alt)
  then have d: "unat (va - e_va (?e i)) = unat va - unat (e_va (?e i))"
    by (simp add: unat_sub word_le_nat_alt)
  show ?thesis
  proof (cases "i + 1 < 3 \<and> i + 1 < v_num tab")
    case True
    then have o: "unat (e_va (?e i)) \<le> unat (e_va (?e (i + 1)))"
      using sectab_sorted [OF assms(1), of i "i + 1"] by simp
    then have "unat ((ucast (e_va (?e (i + 1))) :: u64) - ucast (e_va (?e i)))
        = unat (e_va (?e (i + 1))) - unat (e_va (?e i))"
      by (subst unat_sub) (simp_all add: word_le_nat_alt)
    then show ?thesis using True le d o
      by (auto simp: sect_span_def va_in_def word_less_nat_alt Let_def)
  next
    case False
    then show ?thesis using le d
      unfolding sect_span_def va_in_def word_less_nat_alt Let_def if_not_P [OF False] by auto
  qed
qed

lemma va_in_before:
  assumes "sectab_wf m tab" and "va_in m tab j va" and "i < j" and "j < v_num tab"
  shows "\<not> va_in m tab i va" and "\<not> va < e_va (sect_entry_at m tab i)"
proof -
  note s = sectab_sorted [OF assms(1)]
  have j: "unat (e_va (sect_entry_at m tab j)) \<le> unat va" using assms(2) by (simp add: va_in_def)
  show "\<not> va < e_va (sect_entry_at m tab i)"
    using s [OF assms(3,4)] j by (simp add: word_less_nat_alt)
  have "i + 1 = j \<or> unat (e_va (sect_entry_at m tab (i + 1))) \<le> unat (e_va (sect_entry_at m tab j))"
    using s [of "i + 1" j] assms(3,4) by linarith
  then show "\<not> va_in m tab i va"
    using s [OF assms(3,4)] j by (auto simp: va_in_def split: if_splits)
qed

lemma find_by_va_loop_iff:
  assumes wf: "sectab_wf m tab"
  shows "find_by_va_loop m tab va [a..<v_num tab] = Some i \<longleftrightarrow>
    a \<le> i \<and> i < v_num tab \<and> va_in m tab i va"
proof (induction "v_num tab - a" arbitrary: a)
  case 0
  then show ?case by simp
next
  case (Suc k)
  then have a: "a < v_num tab" and IH: "find_by_va_loop m tab va [Suc a..<v_num tab] = Some i \<longleftrightarrow>
      Suc a \<le> i \<and> i < v_num tab \<and> va_in m tab i va" by simp_all
  have l: "[a..<v_num tab] = a # [Suc a..<v_num tab]" using a by (rule upt_conv_Cons)
  show ?case
  proof (cases "va < e_va (sect_entry_at m tab a)")
    case True
    have "\<not> va_in m tab i va" if "a \<le> i" "i < v_num tab"
    proof (cases "i = a")
      case False
      then show ?thesis using va_in_before(2) [OF wf, of i va a] that True by auto
    qed (use True in \<open>simp add: va_in_def word_less_nat_alt\<close>)
    then show ?thesis unfolding l by (auto simp: True)
  next
    case False
    note sp = span_check_iff [OF wf a False]
    have "i = a" if "va_in m tab a va" "va_in m tab i va" "a \<le> i" "i < v_num tab"
      using va_in_before(1) [OF wf that(2), of a] that by linarith
    then show ?thesis
      unfolding l find_by_va_loop.simps Let_def
      using False sp a IH by (auto simp: Suc_le_eq order.order_iff_strict)
  qed
qed

lemma sect_find_by_va_iff:
  assumes "sectab_wf m tab"
  shows "sect_find_by_va m tab va = Some i \<longleftrightarrow> i < v_num tab \<and> va_in m tab i va"
  using find_by_va_loop_iff [OF assms, of va 0 i] by (simp add: sect_find_by_va_def)

lemma sect_find_by_va_None:
  assumes "sectab_wf m tab"
  shows "sect_find_by_va m tab va = None \<longleftrightarrow> (\<forall>i < v_num tab. \<not> va_in m tab i va)"
  using sect_find_by_va_iff [OF assms, of va] by (cases "sect_find_by_va m tab va") auto

section \<open>The layout walk\<close>

text \<open>The walk needs no more than its start, and each section's size and alignment.\<close>

definition walk_bound :: "mem \<Rightarrow> sect_view_t \<Rightarrow> nat list \<Rightarrow> nat" where
  "walk_bound m tab is =
     (\<Sum>i\<leftarrow>is. unat (e_align (sect_entry_at m tab i)) + unat (e_size (sect_entry_at m tab i)))"

lemma main_offset_ram_size:
  assumes "a \<le> idx"
  shows "main_offset_loop m tab idx off [a..<Suc idx] =
    align_to (ram_size_loop m tab off [a..<idx]) (e_align (sect_entry_at m tab idx))"
  using assms
proof (induction "idx - a" arbitrary: a off)
  case 0
  then show ?case by (simp add: align_to_def Let_def)
next
  case (Suc k)
  have l: "[a..<Suc idx] = a # [Suc a..<Suc idx]" "[a..<idx] = a # [Suc a..<idx]"
    using Suc by (auto intro!: upt_conv_Cons)
  have "a \<noteq> idx" using Suc by auto
  then show ?case unfolding l using Suc by (simp add: Let_def del: upt_Suc)
qed

lemma ram_size_loop_append:
  "ram_size_loop m tab off (xs @ ys) = ram_size_loop m tab (ram_size_loop m tab off xs) ys"
  by (induction xs arbitrary: off) (simp_all add: Let_def)

lemma ram_size_loop_Suc:
  assumes "a \<le> i"
  shows "ram_size_loop m tab off [a..<Suc i] =
    align_to (ram_size_loop m tab off [a..<i]) (e_align (sect_entry_at m tab i))
      + e_size (sect_entry_at m tab i)"
  using assms by (simp add: ram_size_loop_append align_to_def Let_def)

text \<open>One round of the walk, when nothing wraps.\<close>

lemma walk_step:
  assumes "pow2 al" and "unat off + unat al + unat sz < 2 ^ 32"
  shows "unat al dvd unat (align_to off al)" and "unat off \<le> unat (align_to off al)"
    and "unat (align_to off al + sz) = unat (align_to off al) + unat sz"
    and "unat (align_to off al + sz) \<le> unat off + unat al + unat sz"
proof -
  have al0: "0 < unat al" using pow2_mask [OF assms(1)] by auto
  have u: "unat (align_to off al) = roundup (unat off) (unat al)"
    using assms by (intro unat_align_to) auto
  note r = roundup [OF al0, of "unat off"]
  show "unat al dvd unat (align_to off al)" "unat off \<le> unat (align_to off al)" using r u by simp_all
  show s: "unat (align_to off al + sz) = unat (align_to off al) + unat sz"
    by (rule unat_plus_no_wrap) (use r u assms in linarith)
  show "unat (align_to off al + sz) \<le> unat off + unat al + unat sz" using s r u by linarith
qed

lemma walk_no_wrap:
  assumes wf: "sectab_wf m tab" and "i \<le> v_num tab" and "a \<le> i"
    and "unat off + walk_bound m tab [a..<i] < 2 ^ 32"
  shows "unat (ram_size_loop m tab off [a..<i]) \<le> unat off + walk_bound m tab [a..<i]"
    and "unat off \<le> unat (ram_size_loop m tab off [a..<i])"
proof -
  have "unat (ram_size_loop m tab off [a..<i]) \<le> unat off + walk_bound m tab [a..<i]
    \<and> unat off \<le> unat (ram_size_loop m tab off [a..<i])"
    using assms(2-4)
  proof (induction "i - a" arbitrary: i)
    case 0
    then show ?case by (simp add: walk_bound_def)
  next
    case (Suc k)
    then obtain j where j: "i = Suc j" "a \<le> j" by (cases i) auto
    let ?e = "sect_entry_at m tab j"
    have b: "walk_bound m tab [a..<Suc j] = walk_bound m tab [a..<j] + unat (e_align ?e) + unat (e_size ?e)"
      using j by (simp add: walk_bound_def)
    have IH: "unat (ram_size_loop m tab off [a..<j]) \<le> unat off + walk_bound m tab [a..<j]"
      "unat off \<le> unat (ram_size_loop m tab off [a..<j])"
      using Suc.hyps(1) [of j] Suc.hyps(2) Suc.prems j b by auto
    have p: "pow2 (e_align ?e)" using wf Suc.prems j by (simp add: sectab_wf_def entry_ok_def)
    have "unat (ram_size_loop m tab off [a..<j]) + unat (e_align ?e) + unat (e_size ?e) < 2 ^ 32"
      using IH Suc.prems(3) [unfolded j(1) b] by linarith
    note st = walk_step [OF p this]
    show ?case unfolding j(1) ram_size_loop_Suc [OF j(2)] b using st IH by linarith
  qed
  then show "unat (ram_size_loop m tab off [a..<i]) \<le> unat off + walk_bound m tab [a..<i]"
    and "unat off \<le> unat (ram_size_loop m tab off [a..<i])" by blast+
qed

section \<open>What the table functions read\<close>

lemma decode_entry_cong:
  assumes "\<And>x. x \<in> blk w 24 \<Longrightarrow> m x = m' x"
  shows "decode_entry m w = decode_entry m' w"
proof -
  have r: "rd32 m (w + k) = rd32 m' (w + k)" if "unat k + 4 \<le> 24" for k
    by (rule rd32_cong, rule assms, rule subsetD [OF sub_blk]) (use that in auto)
  have "rd32 m w = rd32 m' w" using r [of 0] by simp
  then show ?thesis by (simp add: decode_entry_def r)
qed

lemma sect_entry_at_cong:
  assumes "\<And>x. x \<in> blk (v_entries tab) n \<Longrightarrow> m x = m' x" and "24 * Suc i \<le> unat n"
  shows "sect_entry_at m tab i = sect_entry_at m' tab i"
  unfolding sect_entry_at_def
proof (rule decode_entry_cong)
  fix x assume x: "x \<in> blk (v_entries tab + of_nat i * 6 * 4) 24"
  have "unat n < 2 ^ 32" using unsigned_less [of n] by simp
  then have i: "i * 24 < 2 ^ 32" using assms(2) by simp
  have "(of_nat i * 6 * 4 :: u32) = of_nat (i * 24)" by simp
  then have "unat (of_nat i * 6 * 4 :: u32) = i * 24" using i by (simp only: unat_of_nat_small)
  then have "blk (v_entries tab + of_nat i * 6 * 4) 24 \<subseteq> blk (v_entries tab) n"
    by (intro sub_blk) (use assms(2) in simp)
  then show "m x = m' x" using x assms(1) by blast
qed

lemma sectab_scan_cong:
  assumes "\<And>i. i \<in> set is \<Longrightarrow> decode_entry m (entries + of_nat i * 6 * 4) = decode_entry m' (entries + of_nat i * 6 * 4)"
  shows "sectab_scan m h entries pool False prev is = sectab_scan m' h entries pool False prev is"
  using assms by (induction "is" arbitrary: prev) (simp_all add: sect_entry_check_def Let_def)

text \<open>A table with its three main sections, validated without the name checks, is read from
  the metadata block alone.\<close>

lemma get_sectab_cong:
  assumes hok: "header_words_ok (read_header m hp)"
    and n: "unat (get_code_offset_from_header (read_header m hp)) \<le> unat n" "32 \<le> unat n"
    and eq: "\<And>x. x \<in> blk hp n \<Longrightarrow> m x = m' x"
    and num: "get_num_sections_raw (read_header m hp) \<noteq> 0 \<Longrightarrow> 3 \<le> unat (get_num_sections_raw (read_header m hp))"
  shows "get_sectab m hp False = get_sectab m' hp False"
proof -
  let ?h = "read_header m hp"
  have h: "read_header m' hp = ?h"
    by (rule read_header_cong, rule eq [symmetric], rule subsetD [OF sub_blk_start]) (use n in \<open>auto simp: word_le_nat_alt\<close>)
  have p: "get_sym_table_pointer m' hp = get_sym_table_pointer m hp" by (simp add: get_sym_table_pointer_def h)
  note off = get_code_offset_exact [OF hok] get_symtab_end_offset_exact(2) [OF hok]
  let ?k = "get_num_sections_raw ?h * 6 * 4"
  have k: "unat ?k = 24 * unat (get_num_sections_raw ?h)"
    using num_sections_le [of ?h] by (simp add: unat_word_ariths)
  have sub: "blk (hp + get_sectab_offset ?h) ?k \<subseteq> blk hp n"
    by (rule sub_blk) (use off n k in \<open>simp add: get_sectab_offset_def\<close>)
  have e: "sect_entry_at m tab i = sect_entry_at m' tab i"
    if "v_entries tab = hp + get_sectab_offset ?h" "i < unat (get_num_sections_raw ?h)" for tab i
    using that sub k by (intro sect_entry_at_cong [where n = ?k] eq) auto
  have d: "decode_entry m (hp + get_sectab_offset ?h + of_nat i * 6 * 4)
      = decode_entry m' (hp + get_sectab_offset ?h + of_nat i * 6 * 4)" if "i < unat (get_num_sections_raw ?h)" for i
    using e [of "\<lparr>v_entries = hp + get_sectab_offset ?h, v_pool = 0, v_num = 0\<rparr>" i] that
    by (simp add: sect_entry_at_def)
  have sc: "sectab_scan m ?h (hp + get_sectab_offset ?h) q False pv [0..<unat (get_num_sections_raw ?h)]
     = sectab_scan m' ?h (hp + get_sectab_offset ?h) q False pv [0..<unat (get_num_sections_raw ?h)]" for q pv
    using d by (intro sectab_scan_cong) auto
  show ?thesis
  proof (cases "get_num_sections_raw ?h = 0")
    case True
    then show ?thesis by (simp add: get_sectab_def h p Let_def)
  next
    case False
    then have "3 \<le> unat (get_num_sections_raw ?h)" by (rule num)
    then show ?thesis unfolding get_sectab_def Let_def h p sc
      by (simp add: e)
  qed
qed

lemma bounded_size_loop_cong:
  assumes "\<And>k. k \<in> set ks \<Longrightarrow> sect_entry_at m tab k = sect_entry_at m' tab k"
  shows "bounded_size_loop m tab tot ks = bounded_size_loop m' tab tot ks"
  using assms by (induction ks arbitrary: tot) (simp_all add: Let_def)

lemma get_sectab_view:
  assumes "get_sectab m hp cn = (UDYNLINK_OK, tab)" and "v_num tab > 0"
  shows "v_entries tab = hp + get_sectab_offset (read_header m hp)"
    and "v_pool tab = get_sym_table_pointer m hp"
  using assms by (auto simp: get_sectab_def Let_def split: if_splits)

lemma image_size_bounded_reads:
  assumes eq: "\<And>x. x \<in> blk a avail \<Longrightarrow> m x = m' x"
    and hok: "header_words_ok (read_header m a)"
    and nowrap: "unat (get_code_offset_from_header (read_header m a)) + unat (h_code_size (read_header m a))
        + unat (h_data_size (read_header m a)) < 2 ^ 32"
    and num: "get_num_sections_raw (read_header m a) \<noteq> 0 \<Longrightarrow> 3 \<le> unat (get_num_sections_raw (read_header m a))"
  shows "udynlink_get_image_size_bounded m a avail = udynlink_get_image_size_bounded m' a avail"
proof (cases "avail < 32")
  case True
  then show ?thesis by (simp add: udynlink_get_image_size_bounded_def)
next
  case False
  let ?h = "read_header m a"
  let ?tot = "get_code_offset_from_header ?h + h_code_size ?h + h_data_size ?h"
  have av: "32 \<le> unat avail" using False by (simp add: word_less_nat_alt)
  have h: "read_header m' a = ?h"
    by (rule read_header_cong, rule eq [symmetric], rule subsetD [OF sub_blk_start])
       (use av in \<open>auto simp: word_le_nat_alt\<close>)
  have b: "m (a + i) = m' (a + i)" if "unat i < 4" for i
    by (rule eq) (use that av in \<open>simp add: word_less_nat_alt\<close>)
  have b4: "m a = m' a" "m (a + 1) = m' (a + 1)" "m (a + 2) = m' (a + 2)" "m (a + 3) = m' (a + 3)"
    using b [of 0] b [of 1] b [of 2] b [of 3] by simp_all
  have sz: "udynlink_get_image_size m' a = udynlink_get_image_size m a"
    by (simp add: udynlink_get_image_size_def h b4)
  have tot: "unat ?tot = unat (get_code_offset_from_header ?h) + unat (h_code_size ?h) + unat (h_data_size ?h)"
    using nowrap by (simp add: unat_word_ariths)
  show ?thesis
  proof (cases "?tot \<le> avail")
    case False
    then have "avail < ?tot" by simp
    then show ?thesis
      by (simp add: udynlink_get_image_size_bounded_def udynlink_get_image_size_def h b4 Let_def)
  next
    case True
    then have co: "unat (get_code_offset_from_header ?h) \<le> unat avail"
      using tot by (simp add: word_le_nat_alt)
    have st: "get_sectab m' a False = get_sectab m a False"
      by (rule get_sectab_cong [OF hok co av eq num, symmetric])
    have "bounded_size_loop m tab tt [3..<v_num tab] = bounded_size_loop m' tab tt [3..<v_num tab]"
      if tab: "get_sectab m a False = (UDYNLINK_OK, tab)" for tab tt
    proof (cases "3 < v_num tab")
      case True
      let ?k = "get_num_sections_raw ?h * 6 * 4"
      have k: "unat ?k = 24 * unat (get_num_sections_raw ?h)"
        using num_sections_le [of ?h] by (simp add: unat_word_ariths)
      have v: "v_entries tab = a + get_sectab_offset ?h" using get_sectab_view [OF tab] True by simp
      have "blk (v_entries tab) ?k \<subseteq> blk a avail"
        unfolding v by (rule sub_blk) (use get_code_offset_exact [OF hok] co k in \<open>simp add: get_sectab_offset_def\<close>)
      then show ?thesis using k get_sectab_num [OF tab]
        by (intro bounded_size_loop_cong sect_entry_at_cong [where n = ?k] eq) auto
    qed simp
    then show ?thesis
      unfolding udynlink_get_image_size_bounded_def Let_def sz h st
      by (auto split: prod.splits)
  qed
qed

section \<open>The layout of the main sections\<close>

lemma main_align_loop_mono:
  "unat al \<le> unat (main_align_loop m tab al is)"
proof (induction "is" arbitrary: al)
  case (Cons i "is")
  show ?case using Cons [of "e_align (sect_entry_at m tab i)"] Cons [of al]
    by (auto simp: Let_def word_less_nat_alt)
qed simp

lemma main_align_loop_ge:
  "i \<in> set is \<Longrightarrow> unat (e_align (sect_entry_at m tab i)) \<le> unat (main_align_loop m tab al is)"
proof (induction "is" arbitrary: al)
  case (Cons j "is")
  show ?case
  proof (cases "i = j")
    case True
    show ?thesis
      using main_align_loop_mono [of "e_align (sect_entry_at m tab i)" m tab "is"]
        main_align_loop_mono [of al m tab "is"] True
      by (auto simp: Let_def word_less_nat_alt)
  qed (use Cons in \<open>simp add: Let_def\<close>)
qed simp

lemma main_align_loop_pow2:
  assumes "pow2 al" and "\<And>i. i \<in> set is \<Longrightarrow> pow2 (e_align (sect_entry_at m tab i))"
  shows "pow2 (main_align_loop m tab al is)"
  using assms by (induction "is" arbitrary: al) (simp_all add: Let_def)

lemma pow2_dvd:
  assumes "pow2 a" and "pow2 b" and "unat a \<le> unat b"
  shows "unat a dvd unat b"
proof -
  obtain i j where ij: "unat a = 2 ^ i" "unat b = 2 ^ j" using assms pow2_mask by metis
  then have "i \<le> j" using assms(3) by simp
  then show ?thesis using ij by (simp add: le_imp_power_dvd)
qed

lemma main_align_dvd:
  assumes "sectab_wf m tab" and "3 \<le> v_num tab" and "i < 3"
  shows "unat (e_align (sect_entry_at m tab i)) dvd unat (get_main_align m tab)"
proof -
  have p: "pow2 (e_align (sect_entry_at m tab j))" if "j < 3" for j
    using assms(1,2) that by (simp add: sectab_wf_def entry_ok_def)
  have g: "get_main_align m tab = main_align_loop m tab 4 [0..<3]" using assms(2) by (simp add: get_main_align_def)
  show ?thesis unfolding g
    by (rule pow2_dvd [OF p [OF assms(3)] main_align_loop_pow2])
       (use p assms(3) main_align_loop_ge [of i "[0..<3]" m tab 4] in auto)
qed

lemma main_layout:
  fixes m h tab md
  defines "off \<equiv> \<lambda>i. unat (get_main_section_offset m h tab md i)"
    and "sz \<equiv> \<lambda>i. unat (e_size (sect_entry_at m tab i))"
    and "start \<equiv> get_main_sections_start h tab md"
  assumes wf: "sectab_wf m tab" and n: "3 \<le> v_num tab"
    and nowrap: "unat start + walk_bound m tab [first_main md..<3] < 2 ^ 32"
    and i: "first_main md \<le> i" "i < 3"
  shows "unat (e_align (sect_entry_at m tab i)) dvd off i" and "unat start \<le> off i"
    and "i + 1 < 3 \<Longrightarrow> off i + sz i \<le> off (i + 1)"
    and "off i + sz i \<le> unat (get_ram_size_sections m h tab md)"
proof -
  let ?r = "\<lambda>j. ram_size_loop m tab start [first_main md..<j]"
  have o: "get_main_section_offset m h tab md j = align_to (?r j) (e_align (sect_entry_at m tab j))"
    if "first_main md \<le> j" "j < 3" for j
    using that n main_offset_ram_size [OF that(1)] by (simp add: get_main_section_offset_def start_def del: upt_Suc)
  have tot: "get_ram_size_sections m h tab md = ?r 3"
    by (simp add: get_ram_size_sections_def get_main_sections_start_def start_def Let_def)
  have bd: "walk_bound m tab [first_main md..<3] = walk_bound m tab [first_main md..<j]
      + unat (e_align (sect_entry_at m tab j)) + unat (e_size (sect_entry_at m tab j))
      + walk_bound m tab [Suc j..<3]" if "first_main md \<le> j" "j < 3" for j
  proof -
    have "[first_main md..<3] = [first_main md..<j] @ j # [Suc j..<3]"
      using upt_add_eq_append [of "first_main md" j "3 - j"] upt_conv_Cons [of j 3] that by simp
    then show ?thesis by (simp add: walk_bound_def)
  qed
  have st: "unat (e_align (sect_entry_at m tab j)) dvd off j \<and> unat (?r j) \<le> off j
      \<and> unat (?r (Suc j)) = off j + sz j \<and> unat start \<le> unat (?r j)"
    if j: "first_main md \<le> j" "j < 3" for j
  proof -
    have p: "pow2 (e_align (sect_entry_at m tab j))" using wf n j by (simp add: sectab_wf_def entry_ok_def)
    have w: "unat start + walk_bound m tab [first_main md..<j] < 2 ^ 32" using nowrap bd [OF j] by linarith
    note nw = walk_no_wrap [OF wf _ j(1) w]
    have "unat (?r j) + unat (e_align (sect_entry_at m tab j)) + unat (e_size (sect_entry_at m tab j)) < 2 ^ 32"
      using nw(1) n j nowrap bd [OF j] by linarith
    note ws = walk_step [OF p this]
    show ?thesis using ws(1-3) nw(2) n j unfolding off_def sz_def o [OF j] ram_size_loop_Suc [OF j(1)] by simp
  qed
  show "unat (e_align (sect_entry_at m tab i)) dvd off i" "unat start \<le> off i" using st [OF i] by simp_all
  show nx: "off i + sz i \<le> off (i + 1)" if "i + 1 < 3" using st [OF i] st [of "i + 1"] i that by simp
  have "unat (?r (Suc j)) \<le> unat (?r 3)" if j: "first_main md \<le> j" "j < 3" for j
    using that
  proof (induction "3 - j" arbitrary: j)
    case (Suc k)
    show ?case
    proof (cases "Suc j = 3")
      case False
      then have j': "first_main md \<le> Suc j" "Suc j < 3" using Suc.prems by simp_all
      have "unat (?r (Suc j)) \<le> unat (?r (Suc (Suc j)))" using st [OF j'] by linarith
      also have "\<dots> \<le> unat (?r 3)" by (rule Suc.hyps(1)) (use Suc.hyps(2) j' in auto)
      finally show ?thesis .
    qed simp
  qed simp
  then show "off i + sz i \<le> unat (get_ram_size_sections m h tab md)"
    using st [OF i] i unfolding tot by metis
qed

section \<open>Properties\<close>

text \<open>The view of the sectioned example image.\<close>

definition tagged_view :: sect_view_t where
  "tagged_view = \<lparr>v_entries = 0x1058, v_pool = 0x1030, v_num = 4\<rparr>"

lemma tagged_offsets:
  "get_sectab_offset (read_header tagged_mem 0x1000) = 0x58"
  "get_code_offset_from_header (read_header tagged_mem 0x1000) = 184"
  by (simp_all add: tagged_header get_sectab_offset_def get_code_offset_from_header_def
      get_num_sections_raw_def is_sectioned_def get_symtab_end_offset_def get_header_size_def acc_defs Let_def)

lemma tagged_entry:
  "sect_entry_at tagged_mem tagged_view 0 = \<lparr>e_name_off = 0, e_va = 0, e_size = 8, e_align = 4, e_cls = 0, e_flags = 0x80000000\<rparr>"
  "sect_entry_at tagged_mem tagged_view 1 = \<lparr>e_name_off = 0, e_va = 8, e_size = 4, e_align = 4, e_cls = 1, e_flags = 0x80000000\<rparr>"
  "sect_entry_at tagged_mem tagged_view 2 = \<lparr>e_name_off = 0, e_va = 16, e_size = 8, e_align = 8, e_cls = 2, e_flags = 0x80000000\<rparr>"
  "sect_entry_at tagged_mem tagged_view 3 = \<lparr>e_name_off = 34, e_va = 24, e_size = 4, e_align = 16, e_cls = 1, e_flags = 0\<rparr>"
  by (simp_all add: sect_entry_at_def tagged_view_def decode_entry_def tagged_mem_def words_eval tagged_image_def)

lemma tagged_name: "memchr_nul tagged_mem 0x1052 6"
  by (simp add: memchr_nul_def tagged_mem_def cstr_n.simps mem_words_def tagged_image_def Let_def)

lemma tagged_decode:
  "decode_entry tagged_mem (0x1058 + of_nat 0 * 6 * 4) = sect_entry_at tagged_mem tagged_view 0"
  "decode_entry tagged_mem (0x1058 + of_nat 1 * 6 * 4) = sect_entry_at tagged_mem tagged_view 1"
  "decode_entry tagged_mem (0x1058 + of_nat 2 * 6 * 4) = sect_entry_at tagged_mem tagged_view 2"
  "decode_entry tagged_mem (0x1058 + of_nat 3 * 6 * 4) = sect_entry_at tagged_mem tagged_view 3"
  by (simp_all add: sect_entry_at_def tagged_view_def)

lemma upt_4: "[0..<4] = [0, 1, 2, 3]"
  by (simp add: upt_rec)

lemma tagged_scan: "sectab_scan tagged_mem (read_header tagged_mem 0x1000) 0x1058 0x1030 cn empty_entry [0, 1, 2, 3] = UDYNLINK_OK"
  unfolding sectab_scan.simps Let_def tagged_decode tagged_entry
  by (simp add: sect_entry_check_def acc_defs empty_entry_def tagged_header tagged_name word_less_nat_alt word_le_nat_alt)

lemma tagged_main: "main_sections_check (read_header tagged_mem 0x1000) (sect_entry_at tagged_mem tagged_view 0)
  (sect_entry_at tagged_mem tagged_view 1) (sect_entry_at tagged_mem tagged_view 2) = UDYNLINK_OK"
  unfolding tagged_entry by (simp add: main_sections_check_def tagged_header align_up_u32_def Let_def)

lemma tagged_sectab: "get_sectab tagged_mem 0x1000 cn = (UDYNLINK_OK, tagged_view)"
proof -
  have h: "h_flags (read_header tagged_mem 0x1000) = 9" "h_udynlink_version (read_header tagged_mem 0x1000) = 0x301" "h_symt_size (read_header tagged_mem 0x1000) = 40"
    by (simp_all add: tagged_header)
  have v: "\<lparr>v_entries = 0x1058, v_pool = 0x1030, v_num = 4\<rparr> = tagged_view" by (simp add: tagged_view_def)
  show ?thesis
    unfolding get_sectab_def Let_def tagged_pointer tagged_num tagged_offsets h
    by (simp add: upt_4 tagged_scan [simplified] tagged_main [simplified] v acc_defs)
qed

lemma tagged_sectioned: "is_sectioned (read_header tagged_mem 0x1000)"
  by (simp add: tagged_header is_sectioned_def acc_defs)

text \<open>C18: \<open>get_sectab\<close> accepts the section table of an image with its three main sections
  exactly when every entry is well formed, the entries are sorted and do not overlap, the main
  sections match the header and, when asked for, the names are terminated in the string pool.\<close>

theorem get_sectab_accepts_iff:
  assumes "is_sectioned (read_header m hp)"
    and "3 \<le> unat (get_num_sections_raw (read_header m hp))"
  shows "get_sectab m hp check_names = (UDYNLINK_OK, tab) \<longleftrightarrow> sectab_spec m hp check_names tab"
  by (rule get_sectab_iff [OF assms])

theorem get_sectab_accepts_iff_witness: "sectab_spec tagged_mem 0x1000 True tagged_view"
  using get_sectab_accepts_iff [OF tagged_sectioned, of True tagged_view] tagged_sectab tagged_num by simp

text \<open>C21: in a validated table the search of a link-time address finds a section exactly when
  the address lies in its span, so at most one section is found; a main section's span reaches
  to the next main section.\<close>

theorem sect_find_by_va_correct:
  assumes "get_sectab m hp check_names = (UDYNLINK_OK, tab)" and "3 \<le> v_num tab"
  shows "sect_find_by_va m tab va = Some i \<longleftrightarrow> i < v_num tab \<and> va_in m tab i va"
proof -
  have n: "3 \<le> unat (get_num_sections_raw (read_header m hp))" using get_sectab_num [OF assms(1)] assms(2) by simp
  have "is_sectioned (read_header m hp)"
    using n by (cases "is_sectioned (read_header m hp)") (simp_all add: get_num_sections_raw_def Let_def)
  from get_sectab_iff [OF this n] assms(1) have "sectab_wf m tab" by (auto simp: sectab_spec_def Let_def)
  then show ?thesis by (rule sect_find_by_va_iff)
qed

theorem sect_find_by_va_correct_witness:
  "sect_find_by_va tagged_mem tagged_view 10 = Some 1 \<and> sect_find_by_va tagged_mem tagged_view 26 = Some 3
   \<and> sect_find_by_va tagged_mem tagged_view 28 \<noteq> Some 3"
proof -
  have n: "v_num tagged_view = 4" by (simp add: tagged_view_def)
  note f = sect_find_by_va_correct [OF tagged_sectab, unfolded n, simplified]
  show ?thesis unfolding f va_in_def using tagged_entry n by (simp flip: numeral_2_eq_2)
qed

text \<open>C24: \<open>udynlink_get_image_size_bounded\<close> depends only on the \<open>avail\<close> bytes the caller
  vouches for, for a header whose sizes do not wrap (a symbol table below 2 GiB, a sum below
  4 GiB) and which claims no section or at least the three main ones. The claim fails for section
  counts 1 and 2, whose main entries lie past the table the size accounts for.\<close>

theorem image_size_bounded_memory_safe:
  assumes "\<And>x. x \<in> blk a avail \<Longrightarrow> m x = m' x"
    and "unat (h_symt_size (read_header m a)) < 2 ^ 31"
    and "unat (get_code_offset_from_header (read_header m a)) + unat (h_code_size (read_header m a))
        + unat (h_data_size (read_header m a)) < 2 ^ 32"
    and "get_num_sections_raw (read_header m a) \<noteq> 0 \<Longrightarrow> 3 \<le> unat (get_num_sections_raw (read_header m a))"
  shows "udynlink_get_image_size_bounded m a avail = udynlink_get_image_size_bounded m' a avail"
  by (rule image_size_bounded_reads) (use assms in \<open>simp_all add: header_words_ok_def\<close>)

lemma tagged_size_bounded:
  assumes "198 \<le> n"
  shows "udynlink_get_image_size_bounded tagged_mem 0x1000 n = 198"
proof -
  have b: "map (\<lambda>i. tagged_mem (0x1000 + i)) [0, 1, 2, 3] = [0x55, 0x44, 0x4C, 0x4D]"
    by (simp add: tagged_mem_def mem_words_def tagged_image_def Let_def)
  have sz: "udynlink_get_image_size tagged_mem 0x1000 = 194"
    unfolding udynlink_get_image_size_def Let_def b tagged_offsets by (simp add: tagged_header)
  have "\<not> n < 32" "\<not> 194 > n" using assms by (auto simp: word_less_nat_alt word_le_nat_alt)
  moreover have "[3..<v_num tagged_view] = [3]" by (simp add: tagged_view_def upt_rec)
  moreover have "bounded_size_loop tagged_mem tagged_view 194 [3] = 198"
    unfolding bounded_size_loop.simps tagged_entry by (simp add: acc_defs)
  ultimately show ?thesis
    unfolding udynlink_get_image_size_bounded_def Let_def sz tagged_sectab
    by (simp add: tagged_sectioned)
qed

theorem image_size_bounded_memory_safe_witness:
  "udynlink_get_image_size_bounded (\<lambda>a. if a \<in> blk 0x1000 200 then tagged_mem a else 0xAA) 0x1000 200 = 198"
proof -
  have "udynlink_get_image_size_bounded tagged_mem 0x1000 200 = 198"
    by (rule tagged_size_bounded) (simp add: word_le_nat_alt)
  then show ?thesis
    using image_size_bounded_memory_safe [of "0x1000" 200 tagged_mem
        "\<lambda>a. if a \<in> blk 0x1000 200 then tagged_mem a else 0xAA"] tagged_num tagged_offsets
    by (simp add: tagged_header)
qed

text \<open>The true size of the sectioned example image is 200 bytes: its code payload runs to the
  address of \<open>.data\<close>. The bounded size counts \<open>code_size\<close> instead and accepts a buffer that
  ends two bytes early.\<close>

lemma image_size_bounded_omits_gap:
  "udynlink_get_image_size_bounded tagged_mem 0x1000 198 = 198
   \<and> get_code_offset_from_header (read_header tagged_mem 0x1000)
     + get_code_payload_size tagged_mem (read_header tagged_mem 0x1000) tagged_view
     + h_data_size (read_header tagged_mem 0x1000) + e_size (sect_entry_at tagged_mem tagged_view 3) = 200"
  unfolding get_code_payload_size_def tagged_entry tagged_offsets
  by (simp add: tagged_size_bounded tagged_header) (simp add: tagged_view_def)

text \<open>A section count of 1 passes although the entries of \<open>.data\<close> and \<open>.bss\<close> are then read from
  the code that follows the table, and 48 bytes of code are declared to occupy no bytes.\<close>

definition short_view :: sect_view_t where
  "short_view = \<lparr>v_entries = 0x1030, v_pool = 0x1020, v_num = 1\<rparr>"

lemma short_entries:
  "sect_entry_at short_mem short_view 0 = \<lparr>e_name_off = 0, e_va = 0, e_size = 0, e_align = 4, e_cls = 0, e_flags = 0x80000000\<rparr>"
  "sect_entry_at short_mem short_view 1 = empty_entry" "sect_entry_at short_mem short_view 2 = empty_entry"
  by (simp_all add: sect_entry_at_def short_view_def decode_entry_def short_mem_def words_eval short_image_def
      empty_entry_def)

lemma short_table_accepted:
  "get_sectab short_mem 0x1000 True = (UDYNLINK_OK, short_view)
   \<and> get_code_offset_from_header (read_header short_mem 0x1000) = 0x48
   \<and> h_code_size (read_header short_mem 0x1000) = 48"
proof -
  have h: "h_flags (read_header short_mem 0x1000) = 3" "h_udynlink_version (read_header short_mem 0x1000) = 0x301"
    "h_symt_size (read_header short_mem 0x1000) = 16" "get_num_sections_raw (read_header short_mem 0x1000) = 1"
    "get_sectab_offset (read_header short_mem 0x1000) = 0x30" "get_sym_table_pointer short_mem 0x1000 = 0x1020"
    "get_code_offset_from_header (read_header short_mem 0x1000) = 0x48" "h_code_size (read_header short_mem 0x1000) = 48"
    by (simp_all add: short_header get_num_sections_raw_def is_sectioned_def get_sectab_offset_def
        get_code_offset_from_header_def get_symtab_end_offset_def get_header_size_def get_sym_table_pointer_def
        acc_defs Let_def)
  have d: "decode_entry short_mem (0x1030 + of_nat 0 * 6 * 4) = sect_entry_at short_mem short_view 0"
    by (simp add: sect_entry_at_def short_view_def)
  have s: "sectab_scan short_mem (read_header short_mem 0x1000) 0x1030 0x1020 True empty_entry [0] = UDYNLINK_OK"
    unfolding sectab_scan.simps Let_def d short_entries
    by (simp add: sect_entry_check_def acc_defs word_less_nat_alt)
  have mc: "main_sections_check (read_header short_mem 0x1000) (sect_entry_at short_mem short_view 0)
      (sect_entry_at short_mem short_view 1) (sect_entry_at short_mem short_view 2) = UDYNLINK_OK"
    unfolding short_entries
    by (simp add: main_sections_check_def short_header align_up_u32_def empty_entry_def Let_def)
  have vw: "\<lparr>v_entries = 0x1030, v_pool = 0x1020, v_num = 1\<rparr> = short_view" by (simp add: short_view_def)
  show ?thesis
    unfolding get_sectab_def Let_def h
    using s mc by (simp add: vw [simplified] acc_defs)
qed

end
