(* ===== verification/Symtab.thy ===== *)
theory Symtab
  imports Images
begin

text \<open>
  The symbol table: an entry count, pairs of words (name offset with the symbol's type and
  location in its top five bits, value), and the string pool the name offsets point into.
  Entry lookup (\<open>get_sym_at_raw\<close>), the clamped entry count and the scan that decides at
  load time whether the named entries can be searched by bisection.
\<close>

section \<open>Symbol descriptors\<close>

text \<open>A \<open>const char *\<close>: the address of bytes in memory, or a string literal of the loader.\<close>

datatype cname = In_memory addr | Literal "u8 list"

fun name_bytes :: "mem \<Rightarrow> cname \<Rightarrow> u8 list" where
  "name_bytes m (In_memory a) = cstr m a"
| "name_bytes m (Literal bs) = bs"

text \<open>The bytes of \<open>"(N/A)"\<close>.\<close>

definition NA_name :: "u8 list" where
  "NA_name = [0x28, 0x4E, 0x2F, 0x41, 0x29]"

record udynlink_sym_t =
  s_name :: cname
  s_val :: u32
  s_type :: u8
  s_location :: u8

definition UDYNLINK_SYM_TYPE_INTERNAL :: u8 where
  [acc_defs]: "UDYNLINK_SYM_TYPE_INTERNAL = 0"

definition UDYNLINK_SYM_TYPE_EXPORTED :: u8 where
  [acc_defs]: "UDYNLINK_SYM_TYPE_EXPORTED = 1"

definition UDYNLINK_SYM_TYPE_EXTERN :: u8 where
  [acc_defs]: "UDYNLINK_SYM_TYPE_EXTERN = 2"

definition UDYNLINK_SYM_TYPE_MODULE_NAME :: u8 where
  [acc_defs]: "UDYNLINK_SYM_TYPE_MODULE_NAME = 3"

definition UDYNLINK_SYM_TYPE_WEAK :: u8 where
  [acc_defs]: "UDYNLINK_SYM_TYPE_WEAK = 4"

definition UDYNLINK_SYM_LOCATION_CODE :: u8 where
  [acc_defs]: "UDYNLINK_SYM_LOCATION_CODE = 0"

definition UDYNLINK_SYM_LOCATION_DATA :: u8 where
  [acc_defs]: "UDYNLINK_SYM_LOCATION_DATA = 1"

definition UDYNLINK_SYM_OFFSET_MASK :: u32 where
  [acc_defs]: "UDYNLINK_SYM_OFFSET_MASK = 0x07FFFFFF"

definition UDYNLINK_SYM_INFO_SHIFT :: nat where
  [acc_defs]: "UDYNLINK_SYM_INFO_SHIFT = 27"

definition UDYNLINK_SYM_INFO_CODE_MASK :: u32 where
  [acc_defs]: "UDYNLINK_SYM_INFO_CODE_MASK = 0x08"

definition UDYNLINK_SYM_INFO_TYPE_MASK :: u32 where
  [acc_defs]: "UDYNLINK_SYM_INFO_TYPE_MASK = 0x07"

text \<open>The type and location packed into a name-offset word.\<close>

definition sym_type_of :: "u32 \<Rightarrow> u8" where
  "sym_type_of name_off = ucast (drop_bit UDYNLINK_SYM_INFO_SHIFT name_off AND UDYNLINK_SYM_INFO_TYPE_MASK)"

definition sym_location_of :: "u32 \<Rightarrow> u8" where
  "sym_location_of name_off =
     (if drop_bit UDYNLINK_SYM_INFO_SHIFT name_off AND UDYNLINK_SYM_INFO_CODE_MASK \<noteq> 0
      then UDYNLINK_SYM_LOCATION_CODE else UDYNLINK_SYM_LOCATION_DATA)"

section \<open>Entry access\<close>

definition get_sym_at_raw :: "mem \<Rightarrow> addr \<Rightarrow> u32 \<Rightarrow> u32 \<Rightarrow> udynlink_sym_t option" where
  "get_sym_at_raw m p_symt index symt_size =
     (let symt_words = symt_size div 4
      in if symt_words < 1 then None
         else if index \<ge> rd32 m p_symt then None
         else if index * 2 + 2 \<ge> symt_words then None
         else
           let name_off = rd32 m (p_symt + 4 * (index * 2 + 1));
               val = rd32 m (p_symt + 4 * (index * 2 + 2));
               ty = sym_type_of name_off;
               loc = sym_location_of name_off
           in if index = 0 \<and> ty \<noteq> UDYNLINK_SYM_TYPE_MODULE_NAME then None
              else if ty \<noteq> UDYNLINK_SYM_TYPE_INTERNAL then
                (if name_off AND UDYNLINK_SYM_OFFSET_MASK \<ge> symt_size then None
                 else Some \<lparr>s_name = In_memory (p_symt + (name_off AND UDYNLINK_SYM_OFFSET_MASK)),
                            s_val = val, s_type = ty, s_location = loc\<rparr>)
              else Some \<lparr>s_name = Literal NA_name, s_val = val, s_type = ty, s_location = loc\<rparr>)"

definition get_sym_at :: "mem \<Rightarrow> addr \<Rightarrow> u32 \<Rightarrow> udynlink_sym_t option" where
  "get_sym_at m hp index =
     get_sym_at_raw m (get_sym_table_pointer m hp) index (h_symt_size (read_header m hp))"

definition bounded_sym_count :: "mem \<Rightarrow> addr \<Rightarrow> u32 \<Rightarrow> u32" where
  "bounded_sym_count m p_symt symt_size =
     (let symt_words = symt_size div 4
      in if symt_words < 1 then 0
         else let claimed = rd32 m p_symt;
                  max_valid = (if symt_words \<ge> 3 then (symt_words - 1) div 2 else 0)
              in if claimed < max_valid then claimed else max_valid)"

section \<open>Are the named entries sorted?\<close>

text \<open>The first loop of \<open>compute_num_named_syms_raw\<close>: the index of the last named entry, or
  \<open>None\<close> for the early \<open>return 0\<close> (a named entry after a local one).\<close>

function named_scan :: "mem \<Rightarrow> addr \<Rightarrow> nat \<Rightarrow> nat \<Rightarrow> nat \<Rightarrow> bool \<Rightarrow> u16 \<Rightarrow> u16 option" where
  "named_scan m p_symt num_entries symt_words i found_local last_named =
     (if i < num_entries then
        if i * 2 + 1 \<ge> symt_words then Some last_named
        else if sym_type_of (rd32 m (p_symt + 4 * (of_nat i * 2 + 1))) = UDYNLINK_SYM_TYPE_INTERNAL
        then named_scan m p_symt num_entries symt_words (i + 1) True last_named
        else if found_local then None
        else named_scan m p_symt num_entries symt_words (i + 1) found_local (of_nat i)
      else Some last_named)"
  by pat_completeness auto
termination
  by (relation "measure (\<lambda>(m, p, n, w, i, f, l). n - i)") auto

declare named_scan.simps [simp del]

text \<open>The comparison of entries \<open>i - 1\<close> and \<open>i\<close> in the second loop: true when it goes on.\<close>

definition names_in_order :: "mem \<Rightarrow> addr \<Rightarrow> u32 \<Rightarrow> nat \<Rightarrow> bool" where
  "names_in_order m p_symt symt_size i =
     (let prev_off = rd32 m (p_symt + 4 * (of_nat (i - 1) * 2 + 1)) AND UDYNLINK_SYM_OFFSET_MASK;
          cur_off = rd32 m (p_symt + 4 * (of_nat i * 2 + 1)) AND UDYNLINK_SYM_OFFSET_MASK
      in if prev_off \<ge> symt_size \<or> cur_off \<ge> symt_size then False
         else let prev_remaining = symt_size - prev_off;
                  cur_remaining = symt_size - cur_off;
                  cmp_bound = (if prev_remaining < cur_remaining then prev_remaining else cur_remaining)
              in \<not> strncmp m (p_symt + prev_off) (p_symt + cur_off) cmp_bound > 0)"

definition compute_num_named_syms_raw :: "mem \<Rightarrow> addr \<Rightarrow> u32 \<Rightarrow> u16" where
  "compute_num_named_syms_raw m p_symt symt_size =
     (let symt_words = symt_size div 4
      in if symt_words < 1 then 0
         else case named_scan m p_symt (unat (rd32 m p_symt)) (unat symt_words) 1 False 0 of
                None \<Rightarrow> 0
              | Some last_named \<Rightarrow>
                  if list_all (names_in_order m p_symt symt_size) [2..<Suc (unat last_named)]
                  then last_named else 0)"

definition compute_num_named_syms :: "mem \<Rightarrow> addr \<Rightarrow> u16" where
  "compute_num_named_syms m hp =
     compute_num_named_syms_raw m (get_sym_table_pointer m hp) (h_symt_size (read_header m hp))"

section \<open>Module names\<close>

definition udynlink_image_get_module_name :: "mem \<Rightarrow> addr \<Rightarrow> cname option" where
  "udynlink_image_get_module_name m p_symtab =
     (if p_symtab = NULL then None
      else map_option s_name (get_sym_at_raw m p_symtab 0 0xFFFFFFFF))"

definition udynlink_get_module_name :: "mem \<Rightarrow> udynlink_module_t \<Rightarrow> cname option" where
  "udynlink_get_module_name m pm = map_option s_name (get_sym_at m (p_header pm) 0)"

definition udynlink_get_module_name_from_image :: "mem \<Rightarrow> addr \<Rightarrow> cname option" where
  "udynlink_get_module_name_from_image m base_addr = map_option s_name (get_sym_at m base_addr 0)"

section \<open>Bounds of the table accessors\<close>

text \<open>Entry \<open>i\<close> of a symbol table occupies the words \<open>2 i + 1\<close> and \<open>2 i + 2\<close>. Below
  \<open>2 ^ 31 - 1\<close> the index arithmetic does not wrap and the guard is exact.\<close>

lemma entry_guard:
  fixes i sz :: u32
  assumes "unat i < 2 ^ 31 - 1"
  shows "i * 2 + 2 \<ge> sz div 4 \<longleftrightarrow> unat sz < 8 * unat i + 12"
proof -
  have "unat (i * 2 + 2) = 2 * unat i + 2" using assms by (simp add: unat_word_ariths)
  moreover have "unat (sz div 4) = unat sz div 4" by (simp add: unat_div)
  ultimately show ?thesis by (simp add: word_le_nat_alt) linarith
qed

lemma entry_word_in_table:
  assumes "unat i < 2 ^ 31 - 1" and "8 * unat i + 12 \<le> unat sz" and "k = 1 \<or> k = 2"
  shows "blk (p + 4 * (i * 2 + k)) 4 \<subseteq> blk p sz"
proof -
  have "unat sz < 2 ^ 32" using unsigned_less [of sz] by simp
  then have "unat (4 * (i * 2 + k)) = 8 * unat i + 4 * unat k"
    using assms by (auto simp: unat_word_ariths)
  then show ?thesis using assms by (intro sub_blk) auto
qed

lemma get_sym_at_raw_SomeD:
  assumes "get_sym_at_raw m p i sz = Some s"
  shows "unat i < unat (rd32 m p)" and "unat i < 2 ^ 31 - 1 \<Longrightarrow> 8 * unat i + 12 \<le> unat sz"
    and "s_val s = rd32 m (p + 4 * (i * 2 + 2))"
    and "s_type s = sym_type_of (rd32 m (p + 4 * (i * 2 + 1)))"
    and "s_location s = sym_location_of (rd32 m (p + 4 * (i * 2 + 1)))"
    and "s_name s = (if s_type s = UDYNLINK_SYM_TYPE_INTERNAL then Literal NA_name
      else In_memory (p + (rd32 m (p + 4 * (i * 2 + 1)) AND UDYNLINK_SYM_OFFSET_MASK)))"
    and "s_type s \<noteq> UDYNLINK_SYM_TYPE_INTERNAL
      \<Longrightarrow> rd32 m (p + 4 * (i * 2 + 1)) AND UDYNLINK_SYM_OFFSET_MASK < sz"
proof -
  note d = assms [unfolded get_sym_at_raw_def Let_def]
  show "unat i < unat (rd32 m p)" using d by (auto simp: word_le_nat_alt not_le split: if_splits)
  show "8 * unat i + 12 \<le> unat sz" if "unat i < 2 ^ 31 - 1"
    using d entry_guard [OF that, of sz] by (auto split: if_splits)
  show "s_val s = rd32 m (p + 4 * (i * 2 + 2))"
    "s_type s = sym_type_of (rd32 m (p + 4 * (i * 2 + 1)))"
    "s_location s = sym_location_of (rd32 m (p + 4 * (i * 2 + 1)))"
    "s_name s = (if s_type s = UDYNLINK_SYM_TYPE_INTERNAL then Literal NA_name
      else In_memory (p + (rd32 m (p + 4 * (i * 2 + 1)) AND UDYNLINK_SYM_OFFSET_MASK)))"
    "s_type s \<noteq> UDYNLINK_SYM_TYPE_INTERNAL
      \<Longrightarrow> rd32 m (p + 4 * (i * 2 + 1)) AND UDYNLINK_SYM_OFFSET_MASK < sz"
    using d by (auto split: if_splits)
qed

lemma get_sym_at_raw_cong:
  assumes eq: "\<And>x. x \<in> blk p sz \<Longrightarrow> m x = m' x" and i: "unat i < 2 ^ 31 - 1"
  shows "get_sym_at_raw m p i sz = get_sym_at_raw m' p i sz"
proof (cases "sz div 4 < 1")
  case True
  then show ?thesis by (simp add: get_sym_at_raw_def)
next
  case False
  then have "4 \<le> unat sz" using div_less [of "unat sz" 4] by (simp add: word_less_nat_alt unat_div not_less)
  then have c: "rd32 m p = rd32 m' p"
    by (intro rd32_cong eq subsetD [OF sub_blk_start [of 4 sz]]) (simp add: word_le_nat_alt)
  show ?thesis
  proof (cases "8 * unat i + 12 \<le> unat sz")
    case True
    have w: "rd32 m (p + 4 * (i * 2 + k)) = rd32 m' (p + 4 * (i * 2 + k))" if "k = 1 \<or> k = 2" for k
      using entry_word_in_table [OF i True that] eq by (intro rd32_cong) blast
    show ?thesis by (simp only: get_sym_at_raw_def c w refl simp_thms)
  next
    case False
    then have "i * 2 + 2 \<ge> sz div 4" using entry_guard [OF i, of sz] by simp
    then show ?thesis by (simp add: get_sym_at_raw_def c Let_def)
  qed
qed

section \<open>The clamped entry count\<close>

lemma bounded_sym_count_unat:
  "unat (bounded_sym_count m p sz) = min (unat (rd32 m p)) ((unat sz div 4 - 1) div 2)"
proof -
  have d: "unat (sz div 4) = unat sz div 4" by (simp add: unat_div)
  have m: "unat ((sz div 4 - 1) div 2) = (unat sz div 4 - 1) div 2" if "sz div 4 \<ge> 3"
  proof -
    have "(1::u32) \<le> sz div 4" using that by (simp add: word_le_nat_alt d)
    then have "unat (sz div 4 - 1) = unat sz div 4 - 1" by (simp add: unat_sub d)
    then show ?thesis by (simp add: unat_div)
  qed
  consider "sz div 4 < 1" | "1 \<le> sz div 4" "sz div 4 < 3" | "3 \<le> sz div 4" by (meson not_le)
  then show ?thesis
  proof cases
    case 1
    then have "unat sz div 4 < 1" by (simp add: word_less_nat_alt d)
    then show ?thesis using 1 by (simp add: bounded_sym_count_def)
  next
    case 2
    then have "unat sz div 4 < 3" "1 \<le> unat sz div 4" by (simp_all add: word_less_nat_alt word_le_nat_alt d)
    then have "(unat sz div 4 - 1) div 2 = 0" by auto
    then show ?thesis using 2 by (auto simp: bounded_sym_count_def Let_def not_le)
  next
    case 3
    then have "3 \<le> unat sz div 4" by (simp add: word_le_nat_alt d)
    then show ?thesis using 3 m by (auto simp: bounded_sym_count_def Let_def word_less_nat_alt d min_def)
  qed
qed

lemma bounded_sym_count_exact:
  assumes "unat i < 2 ^ 31 - 1"
  shows "unat i < unat (bounded_sym_count m p sz) \<longleftrightarrow>
    unat i < unat (rd32 m p) \<and> 8 * unat i + 12 \<le> unat sz"
  unfolding bounded_sym_count_unat by auto

section \<open>Names\<close>

lemma cstr_n_take:
  assumes "n \<le> k" shows "cstr_n m a n = take n (cstr_n m a k)"
  using assms
proof (induction n arbitrary: a k)
  case 0
  then show ?case by (simp add: cstr_n.simps)
next
  case (Suc n)
  then obtain k' where k: "k = Suc k'" by (cases k) auto
  show ?case using Suc.IH [of k' "a + 1"] Suc.prems
    by (simp add: cstr_n.simps [of m a "Suc n"] cstr_n.simps [of m a "Suc k'"] k)
qed

lemma cstr_n_cstr:
  assumes "n < 2 ^ 32" shows "cstr_n m a n = take n (cstr m a)"
  unfolding cstr_def by (rule cstr_n_take) (use assms in simp)

text \<open>Evaluation tries a short prefix first.\<close>

lemma cstr_code [code]:
  "cstr m a = (let s = cstr_n m a 64 in if length s < 64 then s else cstr_n m a 4294967296)"
proof -
  have t: "cstr_n m a 64 = take 64 (cstr m a)" by (rule cstr_n_cstr) simp
  show ?thesis
    unfolding t Let_def by (auto simp: min_def cstr_def split: if_splits)
qed

text \<open>Truncating both strings at a length one of them does not reach keeps the comparison.\<close>

lemma strcmp_take:
  assumes "length xs < n \<or> length ys < n"
  shows "strcmp (take n xs) (take n ys) = strcmp xs ys"
  using assms
proof (induction xs ys arbitrary: n rule: strcmp.induct)
  case (4 x xs y ys)
  then show ?case by (cases n) auto
qed (auto simp: take_Cons split: nat.splits)

definition name_off_at :: "mem \<Rightarrow> addr \<Rightarrow> nat \<Rightarrow> u32" where
  [acc_defs]: "name_off_at m p i = rd32 m (p + 4 * (of_nat i * 2 + 1)) AND UDYNLINK_SYM_OFFSET_MASK"

definition name_at :: "mem \<Rightarrow> addr \<Rightarrow> nat \<Rightarrow> u8 list" where
  "name_at m p i = cstr m (p + name_off_at m p i)"

text \<open>The name of entry \<open>i\<close> starts inside the table and is terminated inside it.\<close>

definition name_closed :: "mem \<Rightarrow> addr \<Rightarrow> u32 \<Rightarrow> nat \<Rightarrow> bool" where
  "name_closed m p sz i \<longleftrightarrow> name_off_at m p i < sz
     \<and> memchr_nul m (p + name_off_at m p i) (sz - name_off_at m p i)"

lemma name_closed_length:
  assumes "name_closed m p sz i"
  shows "length (name_at m p i) < unat (sz - name_off_at m p i)"
proof -
  let ?r = "unat (sz - name_off_at m p i)"
  have r: "?r < 2 ^ 32" using unsigned_less [of "sz - name_off_at m p i"] by simp
  have "length (take ?r (name_at m p i)) < ?r"
    using assms cstr_n_cstr [OF r] by (simp add: name_closed_def memchr_nul_def name_at_def)
  then show ?thesis by (simp add: min_def split: if_splits)
qed

lemma names_in_order_iff:
  assumes "name_closed m p sz (i - 1)" and "name_closed m p sz i"
  shows "names_in_order m p sz i \<longleftrightarrow> strcmp (name_at m p (i - 1)) (name_at m p i) \<le> 0"
proof -
  let ?a = "name_off_at m p (i - 1)" and ?b = "name_off_at m p i"
  let ?n = "if sz - ?a < sz - ?b then sz - ?a else sz - ?b"
  have n: "unat ?n < 2 ^ 32" using unsigned_less [of ?n] by simp
  have "length (name_at m p (i - 1)) < unat ?n \<or> length (name_at m p i) < unat ?n"
    using name_closed_length [OF assms(1)] name_closed_length [OF assms(2)] by auto
  then have "strncmp m (p + ?a) (p + ?b) ?n = strcmp (name_at m p (i - 1)) (name_at m p i)"
    unfolding strncmp_def cstr_n_cstr [OF n] name_at_def by (rule strcmp_take)
  moreover have "?a < sz" "?b < sz" using assms by (auto simp: name_closed_def)
  ultimately show ?thesis
    unfolding names_in_order_def name_off_at_def [symmetric] Let_def by (simp only: not_le not_less) auto
qed

section \<open>The named prefix\<close>

abbreviation entry_type :: "mem \<Rightarrow> addr \<Rightarrow> nat \<Rightarrow> u8" where
  "entry_type m p i \<equiv> sym_type_of (rd32 m (p + 4 * (of_nat i * 2 + 1)))"

lemma named_scan_local:
  assumes "named_scan m p num w i True l = Some n"
  shows "n = l \<and> (\<forall>j. i \<le> j \<and> j < num \<and> j * 2 + 1 < w \<longrightarrow> entry_type m p j = UDYNLINK_SYM_TYPE_INTERNAL)"
  using assms
proof (induction m p num w i True l rule: named_scan.induct)
  case (1 m p num w i l)
  show ?case
  proof (cases "i < num \<and> \<not> i * 2 + 1 \<ge> w")
    case True
    then have ty: "entry_type m p i = UDYNLINK_SYM_TYPE_INTERNAL"
      and r: "named_scan m p num w (i + 1) True l = Some n"
      using "1.prems" by (auto simp: named_scan.simps [of m p num w i] split: if_splits)
    have "n = l \<and> (\<forall>j. i + 1 \<le> j \<and> j < num \<and> j * 2 + 1 < w \<longrightarrow> entry_type m p j = UDYNLINK_SYM_TYPE_INTERNAL)"
      by (rule "1.hyps"(1)) (use True ty r in auto)
    then show ?thesis using ty by (metis Suc_eq_plus1 not_less_eq_eq le_antisym)
  next
    case False
    then show ?thesis using "1.prems" by (auto simp: named_scan.simps [of m p num w i] split: if_splits)
  qed
qed

text \<open>A scan that succeeds splits the entries from \<open>i\<close> on into a named run up to \<open>k\<close> and
  local entries from \<open>k\<close> on; the result is the last index of the run, truncated to 16 bits.\<close>

lemma named_scan_split:
  assumes "named_scan m p num w i False l = Some n"
  shows "\<exists>k \<ge> i. n = (if k = i then l else of_nat (k - 1))
     \<and> (\<forall>j. i \<le> j \<and> j < k \<longrightarrow> entry_type m p j \<noteq> UDYNLINK_SYM_TYPE_INTERNAL \<and> j < num \<and> j * 2 + 1 < w)
     \<and> (\<forall>j. k \<le> j \<and> j < num \<and> j * 2 + 1 < w \<longrightarrow> entry_type m p j = UDYNLINK_SYM_TYPE_INTERNAL)"
  using assms
proof (induction m p num w i False l rule: named_scan.induct)
  case (1 m p num w i l)
  let ?ty = "entry_type m p i"
  consider (stop) "\<not> (i < num \<and> i * 2 + 1 < w)"
    | (loc) "i < num" "i * 2 + 1 < w" "?ty = UDYNLINK_SYM_TYPE_INTERNAL"
    | (nam) "i < num" "i * 2 + 1 < w" "?ty \<noteq> UDYNLINK_SYM_TYPE_INTERNAL" by blast
  then show ?case
  proof cases
    case stop
    then show ?thesis using "1.prems"
      by (intro exI [of _ i]) (auto simp: named_scan.simps [of m p num w i] split: if_splits)
  next
    case loc
    then have "named_scan m p num w (i + 1) True l = Some n"
      using "1.prems" by (simp add: named_scan.simps [of m p num w i])
    note r = named_scan_local [OF this]
    then have "\<forall>j. i \<le> j \<and> j < num \<and> j * 2 + 1 < w \<longrightarrow> entry_type m p j = UDYNLINK_SYM_TYPE_INTERNAL"
      using loc(3) by (metis Suc_eq_plus1 not_less_eq_eq le_antisym)
    then show ?thesis using r by (intro exI [of _ i]) auto
  next
    case nam
    then have "named_scan m p num w (i + 1) False (of_nat i) = Some n"
      using "1.prems" by (simp add: named_scan.simps [of m p num w i])
    with "1.hyps"(2) nam obtain k where k: "k \<ge> i + 1" "n = (if k = i + 1 then of_nat i else of_nat (k - 1))"
      "\<forall>j. i + 1 \<le> j \<and> j < k \<longrightarrow> entry_type m p j \<noteq> UDYNLINK_SYM_TYPE_INTERNAL \<and> j < num \<and> j * 2 + 1 < w"
      "\<forall>j. k \<le> j \<and> j < num \<and> j * 2 + 1 < w \<longrightarrow> entry_type m p j = UDYNLINK_SYM_TYPE_INTERNAL"
      by auto
    have "\<forall>j. i \<le> j \<and> j < k \<longrightarrow> entry_type m p j \<noteq> UDYNLINK_SYM_TYPE_INTERNAL \<and> j < num \<and> j * 2 + 1 < w"
    proof (intro allI impI, goal_cases)
      case (1 j)
      then consider "j = i" | "i + 1 \<le> j" "j < k" by linarith
      then show ?case by cases (use nam k(3) in blast)+
    qed
    then show ?thesis using k(1,2,4) by (intro exI [of _ k]) auto
  qed
qed

lemma num_named_split:
  assumes "compute_num_named_syms_raw m p sz = n" and "0 < n"
    and "unat (rd32 m p) \<le> 65536"
  shows "\<forall>i. 1 \<le> i \<and> i \<le> unat n \<longrightarrow> entry_type m p i \<noteq> UDYNLINK_SYM_TYPE_INTERNAL
           \<and> i < unat (rd32 m p) \<and> 8 * i + 8 \<le> unat sz"
    and "\<forall>i. unat n < i \<and> i < unat (rd32 m p) \<and> 8 * i + 8 \<le> unat sz
           \<longrightarrow> entry_type m p i = UDYNLINK_SYM_TYPE_INTERNAL"
    and "\<forall>i. 2 \<le> i \<and> i \<le> unat n \<longrightarrow> names_in_order m p sz i"
proof -
  let ?w = "unat (sz div 4)"
  have w: "i * 2 + 1 < ?w \<longleftrightarrow> 8 * i + 8 \<le> unat sz" for i by (simp add: unat_div) linarith
  have d: "case named_scan m p (unat (rd32 m p)) ?w 1 False 0 of None \<Rightarrow> n = 0
      | Some l \<Rightarrow> n = (if list_all (names_in_order m p sz) [2..<Suc (unat l)] then l else 0)"
    using assms(1,2) by (auto simp: compute_num_named_syms_raw_def Let_def split: option.splits if_splits)
  with assms(2) obtain l where sc: "named_scan m p (unat (rd32 m p)) ?w 1 False 0 = Some l"
    and l: "n = (if list_all (names_in_order m p sz) [2..<Suc (unat l)] then l else 0)"
    by (auto split: option.splits)
  with assms(2) have nl: "n = l" and ord: "list_all (names_in_order m p sz) [2..<Suc (unat n)]"
    by (auto split: if_splits)
  obtain k where k: "k \<ge> 1" "n = (if k = 1 then 0 else of_nat (k - 1))"
    "\<And>j. 1 \<le> j \<Longrightarrow> j < k \<Longrightarrow> entry_type m p j \<noteq> UDYNLINK_SYM_TYPE_INTERNAL \<and> j < unat (rd32 m p) \<and> j * 2 + 1 < ?w"
    "\<And>j. k \<le> j \<Longrightarrow> j < unat (rd32 m p) \<Longrightarrow> j * 2 + 1 < ?w \<Longrightarrow> entry_type m p j = UDYNLINK_SYM_TYPE_INTERNAL"
    using named_scan_split [OF sc] nl by auto
  have k1: "k > 1" using k(1,2) assms(2) by (cases "k = 1") auto
  then have "k - 1 < unat (rd32 m p)" using k(3) [of "k - 1"] by simp
  then have "k - 1 < 65536" using assms(3) by linarith
  then have "unat (of_nat (k - 1) :: u16) = k - 1" by (subst unat_of_nat) simp
  then have un: "unat n = k - 1" using k(2) k1 by (simp only: if_False less_irrefl simp_thms split: if_split) auto
  show "\<forall>i. 1 \<le> i \<and> i \<le> unat n \<longrightarrow> entry_type m p i \<noteq> UDYNLINK_SYM_TYPE_INTERNAL
           \<and> i < unat (rd32 m p) \<and> 8 * i + 8 \<le> unat sz"
    using k(3) un k1 unfolding w by auto
  show "\<forall>i. unat n < i \<and> i < unat (rd32 m p) \<and> 8 * i + 8 \<le> unat sz
           \<longrightarrow> entry_type m p i = UDYNLINK_SYM_TYPE_INTERNAL"
    using k(4) un k1 unfolding w by auto
  show "\<forall>i. 2 \<le> i \<and> i \<le> unat n \<longrightarrow> names_in_order m p sz i"
    using ord by (auto simp: list_all_iff)
qed

lemma sorted_from_steps:
  fixes f :: "nat \<Rightarrow> u8 list"
  assumes "\<And>i. 2 \<le> i \<Longrightarrow> i \<le> n \<Longrightarrow> strcmp (f (i - 1)) (f i) \<le> 0"
    and "1 \<le> i" and "i \<le> j" and "j \<le> n"
  shows "strcmp (f i) (f j) \<le> 0"
  using assms(3,4)
proof (induction j rule: dec_induct)
  case base
  then show ?case by simp
next
  case (step j)
  then have "strcmp (f i) (f j) \<le> 0" by simp
  moreover have "strcmp (f j) (f (Suc j)) \<le> 0" using assms(1) [of "Suc j"] assms(2) step by simp
  ultimately show ?case by (rule strcmp_le_trans)
qed

lemma named_prefix_sorted:
  assumes "compute_num_named_syms_raw m p sz = n" and "0 < n"
    and "unat (rd32 m p) \<le> 65536"
    and "\<And>i. 1 \<le> i \<Longrightarrow> i \<le> unat n \<Longrightarrow> name_closed m p sz i"
    and "1 \<le> i" and "i \<le> j" and "j \<le> unat n"
  shows "strcmp (name_at m p i) (name_at m p j) \<le> 0"
proof (rule sorted_from_steps [OF _ assms(5-7)])
  fix k assume k: "2 \<le> k" "k \<le> unat n"
  then have "name_closed m p sz (k - 1)" "name_closed m p sz k" using assms(4) by simp_all
  then show "strcmp (name_at m p (k - 1)) (name_at m p k) \<le> 0"
    using num_named_split(3) [OF assms(1-3)] names_in_order_iff k by blast
qed

section \<open>Properties\<close>

text \<open>The table of the untagged example image.\<close>

lemma plain_words:
  "rd32 plain_mem 0x1040 = 4"
  "rd32 plain_mem 0x1044 = 0x18000024" "rd32 plain_mem 0x1048 = 0"
  "rd32 plain_mem 0x104C = 0x48000026" "rd32 plain_mem 0x1050 = 4"
  "rd32 plain_mem 0x1054 = 0x08000028" "rd32 plain_mem 0x1058 = 4"
  "rd32 plain_mem 0x105C = 0x1000002A" "rd32 plain_mem 0x1060 = 0"
  by (simp_all add: plain_mem_def words_eval plain_image_def)

lemma plain_name_offs:
  "name_off_at plain_mem 0x1040 1 = 38" "name_off_at plain_mem 0x1040 2 = 40"
  "name_off_at plain_mem 0x1040 3 = 42"
  by (simp_all add: acc_defs plain_words)

lemma plain_types:
  "entry_type plain_mem 0x1040 1 = 1" "entry_type plain_mem 0x1040 2 = 1" "entry_type plain_mem 0x1040 3 = 2"
  by (simp_all add: sym_type_of_def acc_defs plain_words)

lemma plain_bytes: "map plain_mem [0x1064, 0x1065, 0x1066, 0x1067, 0x1068, 0x1069, 0x106A, 0x106B]
   = [0x6D, 0, 0x66, 0, 0x67, 0, 0x78, 0]"
  by (simp add: plain_mem_def mem_words_def plain_image_def Let_def)

lemma plain_cstr:
  "0 < n \<Longrightarrow> cstr_n plain_mem 0x1066 (Suc n) = [0x66]" "0 < n \<Longrightarrow> cstr_n plain_mem 0x1068 (Suc n) = [0x67]"
  "0 < n \<Longrightarrow> cstr_n plain_mem 0x106A (Suc n) = [0x78]"
  using plain_bytes by (simp_all add: cstr_n.simps [of plain_mem])

lemma plain_names:
  "name_at plain_mem 0x1040 1 = [0x66]" "name_at plain_mem 0x1040 2 = [0x67]"
  "name_at plain_mem 0x1040 3 = [0x78]"
  using plain_cstr [of 4294967295] unfolding name_at_def plain_name_offs cstr_def by simp_all

lemma plain_closed: "1 \<le> i \<Longrightarrow> i \<le> 3 \<Longrightarrow> name_closed plain_mem 0x1040 44 i"
proof -
  assume "1 \<le> i" "i \<le> 3"
  then have "i = 1 \<or> i = 2 \<or> i = 3" by linarith
  then show ?thesis
    using plain_cstr [of 5] plain_cstr [of 3] plain_cstr [of 1] plain_name_offs
    unfolding name_closed_def memchr_nul_def by (auto simp flip: numeral_2_eq_2)
qed

lemma plain_named: "compute_num_named_syms_raw plain_mem 0x1040 44 = 3"
proof -
  have t: "named_scan plain_mem 0x1040 4 11 1 False 0 = Some 3"
    using plain_types
    by (simp add: named_scan.simps [of plain_mem "0x1040" 4 11] acc_defs)
  have "names_in_order plain_mem 0x1040 44 2" "names_in_order plain_mem 0x1040 44 3"
    using names_in_order_iff [of plain_mem "0x1040" 44 2] names_in_order_iff [of plain_mem "0x1040" 44 3]
      plain_closed plain_names by simp_all
  then have "list_all (names_in_order plain_mem 0x1040 44) [2..<Suc (unat (3 :: u16))]"
    by (simp add: upt_rec)
  then show ?thesis using t by (simp add: compute_num_named_syms_raw_def plain_words)
qed

text \<open>C22: looking up entry \<open>i\<close> of a symbol table, for an index below \<open>2 ^ 31 - 1\<close> (at which the
  guard of the code wraps, see \<open>get_sym_at_raw_index_wraps\<close>), reads only the \<open>symt_size\<close> bytes of
  the table, succeeds only for an entry that lies inside them and is counted by
  \<open>bounded_sym_count\<close>, and returns a name that starts inside them.\<close>

theorem get_sym_at_raw_memory_safe:
  assumes i: "unat i < 2 ^ 31 - 1"
  shows "(\<forall>m'. (\<forall>x \<in> blk p symt_size. m x = m' x)
        \<longrightarrow> get_sym_at_raw m p i symt_size = get_sym_at_raw m' p i symt_size)
    \<and> (\<forall>s. get_sym_at_raw m p i symt_size = Some s \<longrightarrow>
        unat i < unat (bounded_sym_count m p symt_size)
        \<and> blk (p + 4 * (i * 2 + 1)) 4 \<subseteq> blk p symt_size \<and> blk (p + 4 * (i * 2 + 2)) 4 \<subseteq> blk p symt_size
        \<and> (\<forall>a. s_name s = In_memory a \<longrightarrow> a \<in> blk p symt_size))"
proof (intro conjI allI impI)
  show "get_sym_at_raw m p i symt_size = get_sym_at_raw m' p i symt_size"
    if "\<forall>x \<in> blk p symt_size. m x = m' x" for m'
    by (rule get_sym_at_raw_cong [OF _ i]) (use that in blast)
next
  fix s assume s: "get_sym_at_raw m p i symt_size = Some s"
  note d = get_sym_at_raw_SomeD [OF s]
  have b: "8 * unat i + 12 \<le> unat symt_size" by (rule d(2) [OF i])
  show "unat i < unat (bounded_sym_count m p symt_size)"
    using d(1) b bounded_sym_count_exact [OF i] by blast
  show "blk (p + 4 * (i * 2 + 1)) 4 \<subseteq> blk p symt_size" "blk (p + 4 * (i * 2 + 2)) 4 \<subseteq> blk p symt_size"
    by (rule entry_word_in_table [OF i b], simp)+
  show "a \<in> blk p symt_size" if "s_name s = In_memory a" for a
    using d(6,7) that by (auto split: if_splits)
qed

theorem get_sym_at_raw_memory_safe_witness:
  "\<exists>s. get_sym_at_raw plain_mem 0x1040 2 44 = Some s \<and> s_val s = 4
     \<and> get_sym_at_raw (\<lambda>a. if a \<in> blk 0x1040 44 then plain_mem a else 0xFF) 0x1040 2 44 = Some s
     \<and> (\<forall>a. s_name s = In_memory a \<longrightarrow> a \<in> blk 0x1040 44)"
proof -
  let ?s = "\<lparr>s_name = In_memory 0x1068, s_val = 4, s_type = 1, s_location = 1\<rparr>"
  have "get_sym_at_raw plain_mem 0x1040 2 44 = Some ?s"
    by (simp add: get_sym_at_raw_def plain_words sym_type_of_def sym_location_of_def acc_defs Let_def)
  then obtain s where s: "get_sym_at_raw plain_mem 0x1040 2 44 = Some s" "s_val s = 4" by simp
  note g = get_sym_at_raw_memory_safe [of 2 "0x1040" 44 plain_mem]
  have "get_sym_at_raw plain_mem 0x1040 2 44
      = get_sym_at_raw (\<lambda>a. if a \<in> blk 0x1040 44 then plain_mem a else 0xFF) 0x1040 2 44"
    using g by simp
  moreover have "\<forall>a. s_name s = In_memory a \<longrightarrow> a \<in> blk 0x1040 44" using g s(1) by simp
  ultimately show ?thesis using s by metis
qed

text \<open>C23: when the load-time scan reports \<open>n\<close> named entries, the entries 1 to \<open>n\<close> are exactly
  the non-local ones and their names are in \<open>strcmp\<close> order, given terminated names.\<close>

theorem named_symbols_sorted:
  assumes "compute_num_named_syms_raw m p symt_size = n" and "0 < n"
    and "unat (rd32 m p) \<le> 65536" and "8 * unat (rd32 m p) + 4 \<le> unat symt_size"
    and "\<And>i. 1 \<le> i \<Longrightarrow> i \<le> unat n \<Longrightarrow> name_closed m p symt_size i"
  shows "(\<forall>i. 1 \<le> i \<and> i < unat (rd32 m p) \<longrightarrow>
        (entry_type m p i \<noteq> UDYNLINK_SYM_TYPE_INTERNAL \<longleftrightarrow> i \<le> unat n))
    \<and> (\<forall>i j. 1 \<le> i \<and> i \<le> j \<and> j \<le> unat n \<longrightarrow> strcmp (name_at m p i) (name_at m p j) \<le> 0)"
proof (intro conjI allI impI)
  note sp = num_named_split [OF assms(1-3)]
  show "entry_type m p i \<noteq> UDYNLINK_SYM_TYPE_INTERNAL \<longleftrightarrow> i \<le> unat n"
    if "1 \<le> i \<and> i < unat (rd32 m p)" for i
    using sp(1,2) that assms(4) by (cases "i \<le> unat n") auto
  show "strcmp (name_at m p i) (name_at m p j) \<le> 0" if "1 \<le> i \<and> i \<le> j \<and> j \<le> unat n" for i j
    using named_prefix_sorted [OF assms(1-3,5)] that by blast
qed

theorem named_symbols_sorted_witness:
  "strcmp (name_at plain_mem 0x1040 1) (name_at plain_mem 0x1040 3) \<le> 0"
  using named_symbols_sorted [OF plain_named] plain_closed by (simp add: plain_words)

text \<open>The guard of \<open>get_sym_at_raw\<close> wraps for the index \<open>0x7FFFFFFF\<close>: with a large claimed count
  the lookup reads the words before the table.\<close>

lemma get_sym_at_raw_index_wraps:
  "get_sym_at_raw (mem_words 0x1000 [0, 0xFFFFFFFF, 0, 0, 0]) 0x1004 0x7FFFFFFF 16 =
     Some \<lparr>s_name = Literal NA_name, s_val = 0xFFFFFFFF, s_type = 0, s_location = 1\<rparr>"
  by (simp add: get_sym_at_raw_def words_eval sym_type_of_def sym_location_of_def acc_defs Let_def)

end
