(* ===== verification/World.thy ===== *)
theory World
  imports Symtab
begin

text \<open>
  The loader's environment (\<open>udynlink/udynlink_externals.h\<close>): memory, the state of the host
  firmware behind the callbacks, and a log of the allocator calls the loader has made. The
  callbacks are code of the host application, so they are a parameter: the allocator reads
  the world and changes the host's own state, and the symbol resolver may do anything the
  loader's callers may do (a resolver that loads a missing dependency runs the loader again),
  so it maps worlds to worlds. The weak defaults the repository ships are defined here.
\<close>

datatype ext_call =
    Ext_malloc u32 addr u32 u32 addr  \<comment> \<open>size, section, align, flags, and the block returned\<close>
  | Ext_free addr addr u32 u32        \<comment> \<open>block, section, align, flags\<close>

record 'h world =
  w_mem :: mem
  w_host :: 'h
  w_calls :: "ext_call list"  \<comment> \<open>latest first\<close>

record 'h externals =
  x_malloc :: "'h world \<Rightarrow> u32 \<Rightarrow> addr \<Rightarrow> u32 \<Rightarrow> u32 \<Rightarrow> addr \<times> 'h"
  x_free :: "'h world \<Rightarrow> addr \<Rightarrow> addr \<Rightarrow> u32 \<Rightarrow> u32 \<Rightarrow> 'h"
  x_resolve :: "udynlink_module_t \<Rightarrow> cname \<Rightarrow> 'h world \<Rightarrow> u32 \<times> 'h world"

definition udynlink_external_malloc ::
  "'h externals \<Rightarrow> u32 \<Rightarrow> addr \<Rightarrow> u32 \<Rightarrow> u32 \<Rightarrow> 'h world \<Rightarrow> addr \<times> 'h world" where
  "udynlink_external_malloc x sz section align flags w =
     (let (p, h) = x_malloc x w sz section align flags
      in (p, w\<lparr>w_host := h, w_calls := Ext_malloc sz section align flags p # w_calls w\<rparr>))"

definition udynlink_external_free ::
  "'h externals \<Rightarrow> addr \<Rightarrow> addr \<Rightarrow> u32 \<Rightarrow> u32 \<Rightarrow> 'h world \<Rightarrow> 'h world" where
  "udynlink_external_free x p section align flags w =
     w\<lparr>w_host := x_free x w p section align flags,
       w_calls := Ext_free p section align flags # w_calls w\<rparr>"

lemma external_malloc_mem [simp]:
  "w_mem (snd (udynlink_external_malloc x sz s a f w)) = w_mem w"
  by (simp add: udynlink_external_malloc_def split: prod.splits)

lemma external_free_mem [simp]:
  "w_mem (udynlink_external_free x p s a f w) = w_mem w"
  by (simp add: udynlink_external_free_def)

text \<open>The weak default resolver knows no symbol.\<close>

definition default_resolve_symbol :: "udynlink_module_t \<Rightarrow> cname \<Rightarrow> 'h world \<Rightarrow> u32 \<times> 'h world" where
  "default_resolve_symbol p_mod name w = (0, w)"

definition udynlink_external_is_pointer_in_ram :: "addr \<Rightarrow> bool" where
  "udynlink_external_is_pointer_in_ram p = False"

text \<open>The sentinel a resolver returns to defer a symbol, and the loader's single-tier
  resolution: the host callback's answer, passed through.\<close>

definition UDYNLINK_SYM_DEFERRED :: u32 where
  [acc_defs]: "UDYNLINK_SYM_DEFERRED = 1"

definition resolve_symbol ::
  "'h externals \<Rightarrow> udynlink_module_t \<Rightarrow> cname \<Rightarrow> 'h world \<Rightarrow> u32 \<times> 'h world" where
  "resolve_symbol x p_mod name w =
     (let (sym_addr, w') = x_resolve x p_mod name w
      in if sym_addr = UDYNLINK_SYM_DEFERRED then (UDYNLINK_SYM_DEFERRED, w') else (sym_addr, w'))"

lemma resolve_symbol_eq: "resolve_symbol x pm name w = x_resolve x pm name w"
  by (cases "x_resolve x pm name w") (simp add: resolve_symbol_def)

section \<open>A concrete host\<close>

text \<open>A host whose allocator hands out consecutive blocks, each aligned to 16 bytes, never
  reuses one, and resolves every name to one address: the environment the properties are
  instantiated in. The host state is the next free address.\<close>

definition bump_host :: "u32 externals" where
  "bump_host = \<lparr>x_malloc = (\<lambda>w sz section align flags. (w_host w, (w_host w + sz + 15) AND NOT 15)),
     x_free = (\<lambda>w p section align flags. w_host w),
     x_resolve = (\<lambda>p_mod name w. (0x777, w))\<rparr>"

text \<open>The same host without memory left.\<close>

definition full_host :: "u32 externals" where
  "full_host = bump_host\<lparr>x_malloc := (\<lambda>w sz section align flags. (NULL, w_host w))\<rparr>"

definition start_world :: "mem \<Rightarrow> u32 world" where
  "start_world m = \<lparr>w_mem = m, w_host = 0x20000, w_calls = []\<rparr>"

definition empty_module :: udynlink_module_t where
  "empty_module = \<lparr>p_header = NULL, p_ram = NULL, info = 0, reserved = 0, reserved2 = 0,
     num_named_syms = 0, user_ctx = NULL\<rparr>"

end
