(* ===== verification/Layout.thy ===== *)
theory Layout
  imports Sectab World
begin

text \<open>
  Where a loaded module lives: the code and data pointers of an untagged module, the runtime
  bases of the sections of a sectioned one (main sections by the layout walk, tagged ones
  from the base array that follows the linker offset table), the word a relocation writes,
  the relocation of a symbol value, and the queries of the section-placement interface.
\<close>

section \<open>Code and data pointers\<close>

definition get_code_pointer :: "mem \<Rightarrow> udynlink_module_t \<Rightarrow> addr" where
  "get_code_pointer m pm =
     (let h = read_header m (p_header pm)
      in if is_sectioned h then
           (let (_, tab) = get_sectab m (p_header pm) False
            in if LOAD_GET_MODE pm = LOAD_MODE_XIP
               then p_header pm + get_code_offset_from_header h
               else p_ram pm + get_main_section_offset m h tab (LOAD_GET_MODE pm) 0)
         else if LOAD_GET_MODE pm = LOAD_MODE_COPY_TEXT_DATA
         then p_ram pm + ucast (h_num_lot h) * 4
         else p_header pm + get_code_offset_from_header h)"

definition get_data_pointer :: "mem \<Rightarrow> udynlink_module_t \<Rightarrow> addr" where
  "get_data_pointer m pm =
     (let h = read_header m (p_header pm)
      in if is_sectioned h then
           (let (_, tab) = get_sectab m (p_header pm) False
            in p_ram pm + get_main_section_offset m h tab (LOAD_GET_MODE pm) 1)
         else case LOAD_GET_MODE pm of
             LOAD_MODE_XIP \<Rightarrow> p_ram pm + ucast (h_num_lot h) * 4
           | LOAD_MODE_COPY_TEXT_DATA \<Rightarrow> p_ram pm + ucast (h_num_lot h) * 4 + h_code_size h
           | LOAD_MODE_COPY_ALL \<Rightarrow> p_header pm + get_code_offset_from_header h + h_code_size h
           | LOAD_MODE_RESERVED \<Rightarrow> NULL)"

definition udynlink_get_text_pointer :: "mem \<Rightarrow> udynlink_module_t \<Rightarrow> addr" where
  "udynlink_get_text_pointer m pm = get_code_pointer m pm"

definition get_relocs_pointer :: "mem \<Rightarrow> udynlink_module_t \<Rightarrow> addr" where
  "get_relocs_pointer m pm =
     p_header pm + 4 * (get_header_size (read_header m (p_header pm)) div 4)"

section \<open>Section bases\<close>

definition get_section_base_idx :: "mem \<Rightarrow> udynlink_module_t \<Rightarrow> sect_view_t \<Rightarrow> nat \<Rightarrow> addr" where
  "get_section_base_idx m pm tab idx =
     (let h = read_header m (p_header pm)
      in if idx < 3 then
           (if idx = 0 \<and> LOAD_GET_MODE pm = LOAD_MODE_XIP
            then p_header pm + get_code_offset_from_header h
            else p_ram pm + get_main_section_offset m h tab (LOAD_GET_MODE pm) idx)
         else if p_ram pm = NULL then 0
         else rd32 m (p_ram pm + ucast (h_num_lot h) * 4 + of_nat (idx - 3) * 4))"

definition set_section_base_idx :: "mem \<Rightarrow> udynlink_module_t \<Rightarrow> nat \<Rightarrow> addr \<Rightarrow> mem" where
  "set_section_base_idx m pm ordinal base =
     wr32 m (p_ram pm + ucast (h_num_lot (read_header m (p_header pm))) * 4 + of_nat ordinal * 4) base"

fun free_nonmain_loop ::
  "'h externals \<Rightarrow> udynlink_module_t \<Rightarrow> sect_view_t \<Rightarrow> nat list \<Rightarrow> 'h world \<Rightarrow> 'h world" where
  "free_nonmain_loop x pm tab [] w = w"
| "free_nonmain_loop x pm tab (k # ks) w =
     (let e = sect_entry_at (w_mem w) tab k
      in if e_size e = 0 then free_nonmain_loop x pm tab ks w
         else let base = get_section_base_idx (w_mem w) pm tab k
         in if base = 0 then w
            else free_nonmain_loop x pm tab ks
                   (udynlink_external_free x base (sect_name tab e) (e_align e) (sect_host_flags e) w))"

definition free_nonmain_sections ::
  "'h externals \<Rightarrow> udynlink_module_t \<Rightarrow> sect_view_t \<Rightarrow> 'h world \<Rightarrow> 'h world" where
  "free_nonmain_sections x pm tab w =
     (if p_ram pm = NULL \<or> v_num tab \<le> 3 then w
      else free_nonmain_loop x pm tab [3..<v_num tab] w)"

text \<open>The runtime address of a link-time address: \<open>None\<close> is \<open>*p_found == 0\<close>.\<close>

definition resolve_runtime_va :: "mem \<Rightarrow> udynlink_module_t \<Rightarrow> sect_view_t \<Rightarrow> u32 \<Rightarrow> addr option" where
  "resolve_runtime_va m pm tab va =
     (case sect_find_by_va m tab va of
        None \<Rightarrow> None
      | Some idx \<Rightarrow> Some (get_section_base_idx m pm tab idx + (va - e_va (sect_entry_at m tab idx))))"

section \<open>Relocation targets and symbol values\<close>

text \<open>The word a relocation writes, \<open>NULL\<close> when the offset is out of range.\<close>

definition get_reloc_target :: "mem \<Rightarrow> udynlink_module_t \<Rightarrow> sect_view_t \<Rightarrow> u32 \<Rightarrow> addr" where
  "get_reloc_target m pm tab lot_offset =
     (let h = read_header m (p_header pm)
      in if lot_offset < ucast (h_num_lot h) then
           (if p_ram pm = NULL then NULL else p_ram pm + 4 * lot_offset)
         else
           let word_idx = lot_offset - ucast (h_num_lot h);
               va = h_code_size h + 4 * word_idx
           in if v_num tab = 0 then
                (if word_idx \<ge> h_data_size h div 4 then NULL
                 else get_data_pointer m pm + 4 * word_idx)
              else case sect_find_by_va m tab va of
                  None \<Rightarrow> NULL
                | Some idx \<Rightarrow>
                    let e = sect_entry_at m tab idx
                    in if e_cls e \<noteq> UDYNLINK_SEC_CLASS_CODE \<and> e_cls e \<noteq> UDYNLINK_SEC_CLASS_DATA
                       then NULL
                       else get_section_base_idx m pm tab idx + (va - e_va e))"

definition offset_sym :: "mem \<Rightarrow> udynlink_module_t \<Rightarrow> udynlink_sym_t \<Rightarrow> udynlink_sym_t" where
  "offset_sym m pm s =
     (if s_type s = UDYNLINK_SYM_TYPE_INTERNAL \<or> s_type s = UDYNLINK_SYM_TYPE_EXPORTED
         \<or> s_type s = UDYNLINK_SYM_TYPE_WEAK then
        (if is_sectioned (read_header m (p_header pm)) then
           (let (err, tab) = get_sectab m (p_header pm) False
            in if err = UDYNLINK_OK
               then s\<lparr>s_val := (case resolve_runtime_va m pm tab (s_val s) of
                                    None \<Rightarrow> 0 | Some a \<Rightarrow> a)\<rparr>
               else s\<lparr>s_val := 0\<rparr>)
         else if s_location s = UDYNLINK_SYM_LOCATION_CODE
         then s\<lparr>s_val := s_val s + get_code_pointer m pm\<rparr>
         else s\<lparr>s_val := s_val s + get_data_pointer m pm\<rparr>)
      else s)"

section \<open>Section-placement queries\<close>

record udynlink_section_info_t =
  si_name :: addr
  si_size :: u32
  si_align :: u32
  si_flags :: u32
  si_sec_class :: u8

definition udynlink_get_section_count :: "mem \<Rightarrow> addr \<Rightarrow> nat" where
  "udynlink_get_section_count m hp =
     (if hp = NULL then 0
      else if \<not> is_sectioned (read_header m hp) then 3
      else let (err, tab) = get_sectab m hp False
           in if err \<noteq> UDYNLINK_OK then 0 else v_num tab)"

text \<open>\<open>out == NULL\<close> is rejected before anything is read; the model has the descriptor as its
  result, so only the other argument is checked.\<close>

definition udynlink_get_section_info ::
  "mem \<Rightarrow> addr \<Rightarrow> nat \<Rightarrow> udynlink_error_t + udynlink_section_info_t" where
  "udynlink_get_section_info m hp idx =
     (if hp = NULL then Inl ERR_INVALID_MODULE
      else let h = read_header m hp; (err, tab) = get_sectab m hp False
      in if err \<noteq> UDYNLINK_OK then Inl ERR_LOAD_BAD_SECTION_TABLE
      else if idx \<ge> (if v_num tab > 0 then v_num tab else 3) then Inl ERR_INVALID_MODULE
      else if v_num tab = 0 then
        Inr \<lparr>si_name = NULL,
             si_size = (if idx = 0 then h_code_size h else if idx = 1 then h_data_size h else h_bss_size h),
             si_align = 4, si_flags = 0, si_sec_class = of_nat idx\<rparr>
      else
        let e = sect_entry_at m tab idx
        in if e_name_off e \<noteq> 0 then
             (if e_name_off e \<ge> h_symt_size h \<or>
                 \<not> memchr_nul m (v_pool tab + e_name_off e) (h_symt_size h - e_name_off e)
              then Inl ERR_LOAD_BAD_SECTION_TABLE
              else Inr \<lparr>si_name = v_pool tab + e_name_off e, si_size = e_size e, si_align = e_align e,
                        si_flags = sect_host_flags e, si_sec_class = ucast (e_cls e)\<rparr>)
           else Inr \<lparr>si_name = NULL, si_size = e_size e, si_align = e_align e,
                     si_flags = sect_host_flags e, si_sec_class = ucast (e_cls e)\<rparr>)"

definition udynlink_get_section_base :: "mem \<Rightarrow> udynlink_module_t option \<Rightarrow> nat \<Rightarrow> addr" where
  "udynlink_get_section_base m p_mod idx =
     (case p_mod of None \<Rightarrow> NULL | Some pm \<Rightarrow>
        if p_header pm = NULL then NULL
        else let (err, tab) = get_sectab m (p_header pm) False
        in if err \<noteq> UDYNLINK_OK then NULL
        else if idx \<ge> (if v_num tab > 0 then v_num tab else 3) then NULL
        else if v_num tab = 0 then
          (if idx = 0 then get_code_pointer m pm
           else if idx = 1 then get_data_pointer m pm
           else get_data_pointer m pm + h_data_size (read_header m (p_header pm)))
        else get_section_base_idx m pm tab idx)"

section \<open>Placement of the main sections\<close>

lemma sectab_ok_wf:
  assumes "get_sectab m hp cn = (UDYNLINK_OK, tab)" and "3 \<le> v_num tab"
  shows "sectab_wf m tab" and "is_sectioned (read_header m hp)" and "mains_match (read_header m hp) m tab"
proof -
  have n: "3 \<le> unat (get_num_sections_raw (read_header m hp))" using get_sectab_num [OF assms(1)] assms(2) by simp
  then show s: "is_sectioned (read_header m hp)"
    by (cases "is_sectioned (read_header m hp)") (simp_all add: get_num_sections_raw_def Let_def)
  from get_sectab_iff [OF s n] assms(1) show "sectab_wf m tab" "mains_match (read_header m hp) m tab"
    by (auto simp: sectab_spec_def Let_def)
qed

lemma ram_size_sectioned:
  assumes "get_sectab m (p_header pm) False = (UDYNLINK_OK, tab)" and "3 \<le> v_num tab"
  shows "udynlink_get_ram_size m pm =
    get_ram_size_sections m (read_header m (p_header pm)) tab (LOAD_GET_MODE pm)"
  using assms sectab_ok_wf(2) [OF assms]
  by (simp add: udynlink_get_ram_size_def get_ram_size_for_header_def Let_def)

lemma unat_lot_bytes: "unat (ucast n * 4 :: u32) = 4 * unat n" for n :: u16
proof -
  have r: "unat n < 65536" using unsigned_less [of n] by simp
  then have "unat (ucast n :: u32) = unat n" by (simp add: unsigned_ucast_eq take_bit_nat_eq_self)
  then show ?thesis using r by (simp add: unat_word_ariths)
qed

lemma lot_before_main:
  assumes "unat (get_code_offset_from_header h) < 2 ^ 31" and "v_num tab \<le> 63"
  shows "unat (get_main_sections_start h tab md) = 4 * unat (h_num_lot h) + 4 * (v_num tab - 3)
    + (if md = LOAD_MODE_COPY_ALL then unat (get_code_offset_from_header h) else 0)"
proof -
  have r: "unat (h_num_lot h) < 65536" using unsigned_less [of "h_num_lot h"] by simp
  have nb: "unat (get_nonmain_bases_size tab) = 4 * (v_num tab - 3)"
  proof (cases "v_num tab > 3")
    case True
    have "(of_nat (v_num tab - 3) * 4 :: u32) = of_nat (4 * (v_num tab - 3))" by simp
    then show ?thesis using True assms(2) by (simp only: get_nonmain_bases_size_def if_True) (subst unat_of_nat_small, simp_all)
  qed (simp add: get_nonmain_bases_size_def)
  have "unat (ucast (h_num_lot h) * 4 + get_nonmain_bases_size tab) = 4 * unat (h_num_lot h) + 4 * (v_num tab - 3)"
    by (subst unat_plus_no_wrap) (use nb r assms(2) in \<open>simp_all add: unat_lot_bytes\<close>)
  then show ?thesis
    unfolding get_main_sections_start_def Let_def using r assms
    by (auto intro!: trans [OF unat_plus_no_wrap])
qed

text \<open>C19: the layout walk gives a loaded sectioned module main sections that are aligned as the
  table asks, lie inside the module's RAM block, and overlap neither each other nor the linker
  offset table, when the sizes and alignments add up to less than the address space.\<close>

theorem main_sections_placed:
  fixes m pm tab i j
  defines "h \<equiv> read_header m (p_header pm)" and "md \<equiv> LOAD_GET_MODE pm"
    and "base \<equiv> get_section_base_idx m pm tab" and "sz \<equiv> \<lambda>k. e_size (sect_entry_at m tab k)"
  assumes tab: "get_sectab m (p_header pm) False = (UDYNLINK_OK, tab)" "3 \<le> v_num tab"
    and fit: "unat (get_main_sections_start h tab md) + walk_bound m tab [first_main md..<3] < 2 ^ 32"
    and meta: "unat (get_code_offset_from_header h) < 2 ^ 31"
    and ram: "unat (get_main_align m tab) dvd unat (p_ram pm)"
      "unat (p_ram pm) + unat (udynlink_get_ram_size m pm) \<le> 2 ^ 32"
    and ij: "first_main md \<le> i" "i < j" "j < 3"
  shows "unat (e_align (sect_entry_at m tab i)) dvd unat (base i)
    \<and> unat (e_align (sect_entry_at m tab j)) dvd unat (base j)
    \<and> blk (base i) (sz i) \<subseteq> blk (p_ram pm) (udynlink_get_ram_size m pm)
    \<and> blk (base j) (sz j) \<subseteq> blk (p_ram pm) (udynlink_get_ram_size m pm)
    \<and> blk (base i) (sz i) \<inter> blk (base j) (sz j) = {}
    \<and> blk (p_ram pm) (ucast (h_num_lot h) * 4) \<inter> blk (base i) (sz i) = {}"
proof -
  let ?off = "get_main_section_offset m h tab md"
  note wf = sectab_ok_wf(1) [OF tab]
  note rs = ram_size_sectioned [OF tab, folded h_def md_def]
  have b: "base k = p_ram pm + ?off k" if "first_main md \<le> k" "k < 3" for k
    using that by (auto simp: base_def get_section_base_idx_def h_def md_def first_main_def Let_def split: if_splits)
  have lay: "unat (e_align (sect_entry_at m tab k)) dvd unat (?off k)"
    "unat (get_main_sections_start h tab md) \<le> unat (?off k)"
    "unat (?off k) + unat (sz k) \<le> unat (udynlink_get_ram_size m pm)"
    if "first_main md \<le> k" "k < 3" for k
    using main_layout(1,2,4) [OF wf tab(2) fit that] unfolding sz_def rs by simp_all
  have al: "unat (e_align (sect_entry_at m tab k)) dvd unat (base k)" if k: "first_main md \<le> k" "k < 3" for k
  proof -
    have p: "0 < unat (sz k) \<or> unat (sz k) = 0" by linarith
    have "unat (p_ram pm) + unat (?off k) \<le> 2 ^ 32" using ram(2) lay(3) [OF k] by linarith
    then consider "unat (p_ram pm) + unat (?off k) < 2 ^ 32" | "unat (p_ram pm) + unat (?off k) = 2 ^ 32" by linarith
    then show ?thesis
    proof cases
      case 1
      then show ?thesis
        using lay(1) [OF k] ram(1) main_align_dvd [OF wf tab(2) k(2)] dvd_trans
        unfolding b [OF k] unat_plus_no_wrap [OF 1] by (intro dvd_add) blast+
    next
      case 2
      then have "unat (p_ram pm + ?off k) = 0" by (simp add: unat_word_ariths)
      then show ?thesis unfolding b [OF k] by simp
    qed
  qed
  have sub: "blk (base k) (sz k) \<subseteq> blk (p_ram pm) (udynlink_get_ram_size m pm)"
    if "first_main md \<le> k" "k < 3" for k
    unfolding b [OF that] by (rule sub_blk [OF lay(3) [OF that]])
  have i3: "i < 3" and j: "first_main md \<le> j" using ij by simp_all
  have lt: "unat (udynlink_get_ram_size m pm) < 2 ^ 32" using unsigned_less [of "udynlink_get_ram_size m pm"] by simp
  have step: "unat (?off k) + unat (sz k) \<le> unat (?off (k + 1))" if "first_main md \<le> k" "k + 1 < 3" for k
    using main_layout(3) [OF wf tab(2) fit that(1)] that(2) unfolding sz_def by simp
  have ord: "unat (?off i) + unat (sz i) \<le> unat (?off j)"
  proof (cases "j = i + 1")
    case False
    then have "j = i + 2" using ij by linarith
    then show ?thesis using step [of i] step [of "i + 1"] ij by simp
  qed (use step [of i] ij in simp)
  have "blk (base i) (sz i) \<inter> blk (base j) (sz j) = {}"
    unfolding b [OF ij(1) i3] b [OF j ij(3)]
    by (rule disjoint_sub_blks [OF ord]) (use lay(3) [OF j ij(3)] lt in linarith)
  moreover have "blk (p_ram pm + 0) (ucast (h_num_lot h) * 4) \<inter> blk (p_ram pm + ?off i) (sz i) = {}"
  proof (rule disjoint_sub_blks)
    have "4 * unat (h_num_lot h) \<le> unat (get_main_sections_start h tab md)"
      using lot_before_main [OF meta, of tab md] get_sectab_num [OF tab(1)] num_sections_le by simp
    then show "unat (0::u32) + unat (ucast (h_num_lot h) * 4 :: u32) \<le> unat (?off i)"
      using lay(2) [OF ij(1) i3] by (simp add: unat_lot_bytes)
    show "unat (?off i) + unat (sz i) < 2 ^ 32" using lay(3) [OF ij(1) i3] lt by linarith
  qed
  ultimately show ?thesis using al [OF ij(1) i3] al [OF j ij(3)] sub [OF ij(1) i3] sub [OF j ij(3)]
    unfolding b [OF ij(1) i3] by (intro conjI) auto
qed

theorem main_sections_placed_witness:
  "let pm = LOAD_SET_MODE LOAD_MODE_XIP (empty_module\<lparr>p_header := 0x1000, p_ram := 0x20000\<rparr>)
   in blk (get_section_base_idx tagged_mem pm tagged_view 1) 4
      \<inter> blk (get_section_base_idx tagged_mem pm tagged_view 2) 8 = {}"
proof -
  define pm where "pm = LOAD_SET_MODE LOAD_MODE_XIP (empty_module\<lparr>p_header := 0x1000, p_ram := 0x20000\<rparr>)"
  have pm: "p_header pm = 0x1000" "p_ram pm = 0x20000" "LOAD_GET_MODE pm = LOAD_MODE_XIP"
    by (simp_all add: pm_def LOAD_SET_MODE_def LOAD_GET_MODE_def empty_module_def acc_defs)
  have n: "v_num tagged_view = 4" by (simp add: tagged_view_def)
  have st: "get_main_sections_start (read_header tagged_mem 0x1000) tagged_view LOAD_MODE_XIP = 12"
    by (simp add: get_main_sections_start_def tagged_header get_nonmain_bases_size_def n)
  have u: "[1..<3] = [1, 2]" "[0..<3] = [0, 1, 2::nat]" by (simp_all add: upt_rec)
  have wb: "walk_bound tagged_mem tagged_view [1..<3] = 24"
    unfolding walk_bound_def u by (simp add: tagged_entry [simplified])
  have al: "get_main_align tagged_mem tagged_view = 8"
    unfolding get_main_align_def n u main_align_loop.simps Let_def tagged_entry
    by (simp add: word_less_nat_alt)
  have rs: "udynlink_get_ram_size tagged_mem pm = 24"
    unfolding ram_size_sectioned [of tagged_mem pm tagged_view, unfolded pm n, OF tagged_sectab, simplified]
    by (simp add: get_ram_size_sections_def first_main_def u [simplified] tagged_entry [simplified] tagged_header
        get_nonmain_bases_size_def n Let_def)
  show ?thesis
    using main_sections_placed [of tagged_mem pm tagged_view 1 2, unfolded pm n rs al]
      tagged_sectab st wb tagged_offsets
    by (simp add: pm_def [symmetric] first_main_def tagged_entry [simplified])
qed

end
