(* ===== verification/Reloc.thy ===== *)
theory Reloc
  imports Layout
begin

text \<open>
  The relocation walks over a module's relocation table: \<open>udynlink_load_apply_relocations\<close>
  at load time, \<open>rebase_module_pointers\<close> after a move of an untagged module, and the
  post-load walks that re-resolve extern slots or patch one symbol. Each is a loop over
  \<open>num_rels\<close> pairs \<open>(lot_offset, symt_offset)\<close>; the header is read again in every round,
  as the code does.
\<close>

section \<open>Load-time relocation\<close>

text \<open>State of the loop: the result so far and the world.\<close>

type_synonym 'h reloc_state = "udynlink_error_t \<times> 'h world"

definition set_word :: "addr \<Rightarrow> u32 \<Rightarrow> 'h world \<Rightarrow> 'h world" where
  [acc_defs]: "set_word p v w = w\<lparr>w_mem := wr32 (w_mem w) p v\<rparr>"

definition reloc_lot_offset :: "mem \<Rightarrow> addr \<Rightarrow> nat \<Rightarrow> u32" where
  [acc_defs]: "reloc_lot_offset m p_relocations i = rd32 m (p_relocations + 4 * (of_nat i * 2))"

definition reloc_symt_offset :: "mem \<Rightarrow> addr \<Rightarrow> nat \<Rightarrow> u32" where
  [acc_defs]: "reloc_symt_offset m p_relocations i = rd32 m (p_relocations + 4 * (of_nat i * 2 + 1))"

text \<open>Bits 31 and 30 of the symbol word mark the two base-additive forms.\<close>

definition is_abs32 :: "u32 \<Rightarrow> bool" where
  [acc_defs]: "is_abs32 symt_offset \<longleftrightarrow> symt_offset AND push_bit 31 1 \<noteq> 0"

definition is_code_base :: "u32 \<Rightarrow> bool" where
  [acc_defs]: "is_code_base symt_offset \<longleftrightarrow> symt_offset AND push_bit 30 1 \<noteq> 0"

text \<open>The in-place forms. A sectioned image holds a link-time address in the word.\<close>

definition reloc_in_place ::
  "udynlink_module_t \<Rightarrow> sect_view_t \<Rightarrow> bool \<Rightarrow> u32 \<Rightarrow> u32 \<Rightarrow> 'h world \<Rightarrow> 'h reloc_state" where
  "reloc_in_place pm tab sectioned lot_offset symt_offset w =
     (let m = w_mem w; p = get_reloc_target m pm tab lot_offset
      in if p = NULL then (ERR_LOAD_BAD_RELOCATION_TABLE, w)
         else if sectioned then
           (case resolve_runtime_va m pm tab (rd32 m p) of
              None \<Rightarrow> (ERR_LOAD_BAD_RELOCATION_TABLE, w)
            | Some target \<Rightarrow> (UDYNLINK_OK, set_word p target w))
         else if is_abs32 symt_offset then
           (UDYNLINK_OK,
            set_word p (rd32 m p + (get_data_pointer m pm - (symt_offset AND 0x7FFFFFFF))) w)
         else (UDYNLINK_OK, set_word p (get_code_pointer m pm + rd32 m p) w))"

text \<open>The module's own address of a symbol it defines.\<close>

definition own_address ::
  "mem \<Rightarrow> udynlink_module_t \<Rightarrow> sect_view_t \<Rightarrow> bool \<Rightarrow> udynlink_sym_t \<Rightarrow> u32 option" where
  "own_address m pm tab sectioned s =
     (if sectioned then resolve_runtime_va m pm tab (s_val s)
      else Some (s_val (offset_sym m pm s)))"

definition reloc_symbol ::
  "'h externals \<Rightarrow> udynlink_module_t \<Rightarrow> sect_view_t \<Rightarrow> bool \<Rightarrow> udynlink_sym_t \<Rightarrow> addr
   \<Rightarrow> 'h world \<Rightarrow> 'h reloc_state" where
  "reloc_symbol x pm tab sectioned s p w =
     (if s_type s = UDYNLINK_SYM_TYPE_INTERNAL \<or> s_type s = UDYNLINK_SYM_TYPE_EXPORTED then
        (case own_address (w_mem w) pm tab sectioned s of
           None \<Rightarrow> (ERR_LOAD_BAD_RELOCATION_TABLE, w)
         | Some target \<Rightarrow> (UDYNLINK_OK, set_word p target w))
      else if s_type s = UDYNLINK_SYM_TYPE_WEAK then
        (case own_address (w_mem w) pm tab sectioned s of
           None \<Rightarrow> (ERR_LOAD_BAD_RELOCATION_TABLE, w)
         | Some target \<Rightarrow>
             let (sym_addr, w') = resolve_symbol x pm (s_name s) (set_word p target w)
             in if sym_addr = UDYNLINK_SYM_DEFERRED then (UDYNLINK_OK, w')
                else if sym_addr > 0 then (UDYNLINK_OK, set_word p sym_addr w')
                else (UDYNLINK_OK, w'))
      else if s_type s = UDYNLINK_SYM_TYPE_EXTERN then
        (let (sym_addr, w') = resolve_symbol x pm (s_name s) w
         in if sym_addr = UDYNLINK_SYM_DEFERRED then (UDYNLINK_OK, set_word p 0 w')
            else if sym_addr > 0 then (UDYNLINK_OK, set_word p sym_addr w')
            else (ERR_LOAD_UNKNOWN_SYMBOL, w'))
      else if s_type s = UDYNLINK_SYM_TYPE_MODULE_NAME then (ERR_LOAD_BAD_RELOCATION_TABLE, w)
      else (UDYNLINK_OK, w))"

definition reloc_step ::
  "'h externals \<Rightarrow> udynlink_module_t \<Rightarrow> addr \<Rightarrow> addr \<Rightarrow> addr \<Rightarrow> sect_view_t \<Rightarrow> bool
   \<Rightarrow> nat \<Rightarrow> 'h reloc_state \<Rightarrow> 'h reloc_state" where
  "reloc_step x pm hp p_relocations p_symtab tab sectioned i st =
     (let w = snd st; m = w_mem w; h = read_header m hp;
          lot_offset = reloc_lot_offset m p_relocations i;
          symt_offset = reloc_symt_offset m p_relocations i
      in if is_abs32 symt_offset \<or> is_code_base symt_offset then
           (if lot_offset < ucast (h_num_lot h) then (ERR_LOAD_BAD_RELOCATION_TABLE, w)
            else reloc_in_place pm tab sectioned lot_offset symt_offset w)
         else case get_sym_at_raw m p_symtab symt_offset (h_symt_size h) of
             None \<Rightarrow> (ERR_LOAD_BAD_RELOCATION_TABLE, w)
           | Some s \<Rightarrow>
               let p = get_reloc_target m pm tab lot_offset
               in if p = NULL then (ERR_LOAD_BAD_RELOCATION_TABLE, w)
                  else reloc_symbol x pm tab sectioned s p w)"

definition udynlink_load_apply_relocations ::
  "'h externals \<Rightarrow> udynlink_module_t \<Rightarrow> addr \<Rightarrow> addr \<Rightarrow> addr \<Rightarrow> 'h world \<Rightarrow> 'h reloc_state" where
  "udynlink_load_apply_relocations x pm hp p_relocations p_symtab w =
     (let (err, tab) = get_sectab (w_mem w) hp False;
          sectioned = (err = UDYNLINK_OK \<and> v_num tab > 0)
      in if err \<noteq> UDYNLINK_OK \<and> is_sectioned (read_header (w_mem w) hp)
         then (ERR_LOAD_BAD_SECTION_TABLE, w)
         else for_u16 (\<lambda>st. h_num_rels (read_header (w_mem (snd st)) hp))
                (\<lambda>st. fst st \<noteq> UDYNLINK_OK)
                (reloc_step x pm hp p_relocations p_symtab tab sectioned) 0 (UDYNLINK_OK, w))"

section \<open>Rebasing an untagged module after a move\<close>

definition add_word :: "mem \<Rightarrow> addr \<Rightarrow> u32 \<Rightarrow> mem" where
  [acc_defs]: "add_word m p d = wr32 m p (rd32 m p + d)"

definition rebase_step ::
  "udynlink_module_t \<Rightarrow> addr \<Rightarrow> addr \<Rightarrow> addr \<Rightarrow> u32 \<Rightarrow> u32 \<Rightarrow> u32 \<Rightarrow> addr \<Rightarrow> addr
   \<Rightarrow> nat \<Rightarrow> mem \<Rightarrow> mem" where
  "rebase_step pm p_rels p_lot p_data num_lot code_delta data_delta old_code old_data i m =
     (let hp = p_header pm;
          lot_offset = reloc_lot_offset m p_rels i;
          symt_offset = reloc_symt_offset m p_rels i
      in if is_abs32 symt_offset then add_word m (p_data + 4 * (lot_offset - num_lot)) data_delta
         else if is_code_base symt_offset
         then add_word m (p_data + 4 * (lot_offset - num_lot)) code_delta
         else case get_sym_at_raw m (get_sym_table_pointer m hp) symt_offset
                     (h_symt_size (read_header m hp)) of
             None \<Rightarrow> m
           | Some s \<Rightarrow>
               let p_rel = (if lot_offset < num_lot then p_lot + 4 * lot_offset
                            else p_data + 4 * (lot_offset - num_lot));
                   is_code = (s_location s = UDYNLINK_SYM_LOCATION_CODE);
                   delta = (if is_code then code_delta else data_delta)
               in if s_type s = UDYNLINK_SYM_TYPE_INTERNAL \<or> s_type s = UDYNLINK_SYM_TYPE_EXPORTED
                  then add_word m p_rel delta
                  else if s_type s = UDYNLINK_SYM_TYPE_WEAK then
                    (if rd32 m p_rel = (if is_code then old_code else old_data) + s_val s
                     then add_word m p_rel delta else m)
                  else m)"

definition rebase_module_pointers ::
  "udynlink_module_t \<Rightarrow> u32 \<Rightarrow> u32 \<Rightarrow> addr \<Rightarrow> addr \<Rightarrow> mem \<Rightarrow> mem" where
  "rebase_module_pointers pm code_delta data_delta old_code old_data m =
     (let hp = p_header pm
      in for_u16 (\<lambda>m. h_num_rels (read_header m hp)) (\<lambda>_. False)
           (rebase_step pm (get_relocs_pointer m pm) (p_ram pm) (get_data_pointer m pm)
              (ucast (h_num_lot (read_header m hp))) code_delta data_delta old_code old_data) 0 m)"

section \<open>Post-load walks over the relocation table\<close>

definition extern_step ::
  "'h externals \<Rightarrow> udynlink_module_t \<Rightarrow> addr \<Rightarrow> sect_view_t \<Rightarrow> bool \<Rightarrow> nat \<Rightarrow> 'h world \<Rightarrow> 'h world" where
  "extern_step x pm p_rels tab incremental i w =
     (let m = w_mem w; hp = p_header pm;
          lot_offset = reloc_lot_offset m p_rels i;
          symt_offset = reloc_symt_offset m p_rels i
      in if is_abs32 symt_offset then w
         else if is_code_base symt_offset then w
         else case get_sym_at m hp symt_offset of
             None \<Rightarrow> w
           | Some s \<Rightarrow>
               if s_type s \<noteq> UDYNLINK_SYM_TYPE_EXTERN then w
               else let p = get_reloc_target m pm tab lot_offset
               in if p = NULL then w
                  else if incremental \<and> rd32 m p \<noteq> 0 then w
                  else let (sym_addr, w') = resolve_symbol x pm (s_name s) w
                  in if sym_addr = UDYNLINK_SYM_DEFERRED then set_word p 0 w'
                     else if sym_addr > 0 then set_word p sym_addr w'
                     else set_word p 0 w')"

definition apply_extern_relocations_impl ::
  "'h externals \<Rightarrow> udynlink_module_t \<Rightarrow> bool \<Rightarrow> 'h world \<Rightarrow> 'h world" where
  "apply_extern_relocations_impl x pm incremental w =
     (let hp = p_header pm; (_, tab) = get_sectab (w_mem w) hp False
      in for_u16 (\<lambda>w. h_num_rels (read_header (w_mem w) hp)) (\<lambda>_. False)
           (extern_step x pm (get_relocs_pointer (w_mem w) pm) tab incremental) 0 w)"

definition udynlink_link_incremental ::
  "'h externals \<Rightarrow> udynlink_module_t option \<Rightarrow> 'h world \<Rightarrow> udynlink_error_t \<times> 'h world" where
  "udynlink_link_incremental x p_mod w =
     (case p_mod of None \<Rightarrow> (ERR_INVALID_MODULE, w)
      | Some pm \<Rightarrow> if p_header pm = NULL then (ERR_INVALID_MODULE, w)
                  else (UDYNLINK_OK, apply_extern_relocations_impl x pm True w))"

definition udynlink_relink_all ::
  "'h externals \<Rightarrow> udynlink_module_t option \<Rightarrow> 'h world \<Rightarrow> udynlink_error_t \<times> 'h world" where
  "udynlink_relink_all x p_mod w =
     (case p_mod of None \<Rightarrow> (ERR_INVALID_MODULE, w)
      | Some pm \<Rightarrow> if p_header pm = NULL then (ERR_INVALID_MODULE, w)
                  else (UDYNLINK_OK, apply_extern_relocations_impl x pm False w))"

text \<open>\<open>udynlink_link_symbol\<close>: state of the loop is (found, memory). The symbol name is the
  content of the caller's C string; \<open>None\<close> is a null pointer.\<close>

definition link_step ::
  "udynlink_module_t \<Rightarrow> addr \<Rightarrow> sect_view_t \<Rightarrow> u8 list \<Rightarrow> u32 \<Rightarrow> nat \<Rightarrow> bool \<times> mem \<Rightarrow> bool \<times> mem" where
  "link_step pm p_rels tab sym_name sym_addr i st =
     (let m = snd st;
          lot_offset = reloc_lot_offset m p_rels i;
          symt_offset = reloc_symt_offset m p_rels i
      in if is_abs32 symt_offset then st
         else if is_code_base symt_offset then st
         else case get_sym_at m (p_header pm) symt_offset of
             None \<Rightarrow> st
           | Some s \<Rightarrow>
               if s_name s = In_memory NULL \<or> strcmp (name_bytes m (s_name s)) sym_name \<noteq> 0 then st
               else let p = get_reloc_target m pm tab lot_offset
               in if p = NULL then st else (True, wr32 m p sym_addr))"

definition udynlink_link_symbol ::
  "udynlink_module_t option \<Rightarrow> u8 list option \<Rightarrow> u32 \<Rightarrow> mem \<Rightarrow> udynlink_error_t \<times> mem" where
  "udynlink_link_symbol p_mod sym_name sym_addr m =
     (case (p_mod, sym_name) of
        (Some pm, Some nm) \<Rightarrow>
          if p_header pm = NULL then (ERR_INVALID_MODULE, m)
          else
            let (_, tab) = get_sectab m (p_header pm) False;
                (found, m') = for_u16 (\<lambda>st. h_num_rels (read_header (snd st) (p_header pm))) (\<lambda>_. False)
                  (link_step pm (get_relocs_pointer m pm) tab nm sym_addr) 0 (False, m)
            in (if found then UDYNLINK_OK else ERR_LOAD_UNKNOWN_SYMBOL, m')
      | _ \<Rightarrow> (ERR_INVALID_MODULE, m))"

end
