(* ===== verification/Load.thy ===== *)
theory Load
  imports Reloc
begin

text \<open>
  Loading and unloading: the image descriptor, \<open>udynlink_load_module_image\<close> cut into the
  phases of the C function (checks, RAM provisioning, copying, tagged sections, relocation,
  the shared error exit), \<open>udynlink_load_module\<close> and \<open>udynlink_unload_module\<close>.
\<close>

section \<open>Image descriptors\<close>

record udynlink_module_image_t =
  i_header :: addr
  i_relocations :: addr
  i_symtab :: addr
  i_code :: addr
  i_data :: addr

definition udynlink_image_from_memory :: "mem \<Rightarrow> addr \<Rightarrow> udynlink_module_image_t" where
  "udynlink_image_from_memory m base_addr =
     (let h = read_header m base_addr;
          relocs = base_addr + 4 * (get_header_size h div 4);
          code = base_addr + get_code_offset_from_header h;
          (err, tab) = get_sectab m base_addr False
      in \<lparr>i_header = base_addr, i_relocations = relocs,
          i_symtab = relocs + 4 * (ucast (h_num_rels h) * 2), i_code = code,
          i_data = (if is_sectioned h \<and> err = UDYNLINK_OK
                    then code + get_code_payload_size m h tab else code + h_code_size h)\<rparr>)"

definition udynlink_image_from_module :: "mem \<Rightarrow> udynlink_module_t \<Rightarrow> udynlink_module_image_t" where
  "udynlink_image_from_module m pm = udynlink_image_from_memory m (p_header pm)"

definition udynlink_image_get_symbol_count :: "mem \<Rightarrow> udynlink_module_image_t option \<Rightarrow> u32" where
  "udynlink_image_get_symbol_count m img =
     (case img of None \<Rightarrow> 0 | Some im \<Rightarrow>
        if i_header im = NULL \<or> i_symtab im = NULL then 0
        else bounded_sym_count m (i_symtab im) (h_symt_size (read_header m (i_header im))))"

definition udynlink_image_get_symbol ::
  "mem \<Rightarrow> udynlink_module_image_t option \<Rightarrow> u32 \<Rightarrow> udynlink_sym_t option" where
  "udynlink_image_get_symbol m img index =
     (case img of None \<Rightarrow> None | Some im \<Rightarrow>
        if i_header im = NULL \<or> i_symtab im = NULL then None
        else get_sym_at_raw m (i_symtab im) index (h_symt_size (read_header m (i_header im))))"

section \<open>Phase 1: checks before anything is allocated\<close>

text \<open>Result, section view, main-block alignment and RAM size.\<close>

definition load_checks ::
  "mem \<Rightarrow> addr \<Rightarrow> udynlink_load_mode_t \<Rightarrow> udynlink_error_t \<times> sect_view_t \<times> u32 \<times> u32" where
  "load_checks m hp md =
     (let h = read_header m hp;
          tab0 = \<lparr>v_entries = NULL, v_pool = NULL, v_num = 0\<rparr>;
          res = udynlink_validate_header h
      in if res \<noteq> UDYNLINK_OK then (res, tab0, 4, 0)
      else let (res, tab) = get_sectab m hp True
      in if res \<noteq> UDYNLINK_OK then (res, tab, 4, 0)
      else
        let main_align = (if v_num tab > 0 then get_main_align m tab else 4);
            extent = (ucast (get_code_offset_from_header h) :: u64) + ucast (h_code_size h)
                     + ucast (h_data_size h);
            image_extent = (if v_num tab > 0 then extent + sum_section_sizes m tab 3 3 else extent)
        in if image_extent > ucast UDYNLINK_MAX_IMAGE_SIZE
           then (if v_num tab > 0 then ERR_LOAD_BAD_SECTION_TABLE else ERR_LOAD_BAD_RELOCATION_TABLE,
                 tab, main_align, 0)
        else
        let ram_size = (if v_num tab > 0 then get_ram_size_sections m h tab md
                        else get_ram_size_for_header m hp md)
        in if ram_size > UDYNLINK_MAX_RAM_SIZE
           then (ERR_LOAD_BAD_RELOCATION_TABLE, tab, main_align, ram_size)
        else if v_num tab > 0 \<and>
             (ucast ram_size :: u64) + sum_section_sizes m tab 3 0xFF > ucast UDYNLINK_MAX_RAM_SIZE
           then (ERR_LOAD_BAD_SECTION_TABLE, tab, main_align, ram_size)
        else (UDYNLINK_OK, tab, main_align, ram_size))"

section \<open>Phase 2: the main RAM block\<close>

definition load_provision_ram ::
  "'h externals \<Rightarrow> addr \<Rightarrow> sect_view_t \<Rightarrow> u32 \<Rightarrow> u32 \<Rightarrow> addr \<Rightarrow> u32 \<Rightarrow> udynlink_module_t
   \<Rightarrow> 'h world \<Rightarrow> udynlink_error_t \<times> udynlink_module_t \<times> 'h world" where
  "load_provision_ram x hp tab main_align ram_size load_addr load_size pm w =
     (if ram_size > 0 then
        let (res, ram_addr, pm1, w1) =
          (if load_addr = NULL then
             (let pm1 = LOAD_CLR_FOREIGN_RAM pm;
                  (p, w1) = udynlink_external_malloc x ram_size NULL main_align 0 w
              in (if p = NULL then ERR_LOAD_OUT_OF_MEMORY else UDYNLINK_OK, p, pm1, w1))
           else
             (if load_size < ram_size then ERR_LOAD_RAM_LEN_LOW else UDYNLINK_OK,
              load_addr, LOAD_SET_FOREIGN_RAM pm, w))
        in if res \<noteq> UDYNLINK_OK then (res, pm1, w1)
           else if ram_addr AND (main_align - 1) \<noteq> 0 then
             (ERR_LOAD_RAM_UNALIGNED, pm1,
              if load_addr = NULL then udynlink_external_free x ram_addr NULL main_align 0 w1 else w1)
           else
             (UDYNLINK_OK, pm1\<lparr>p_ram := ram_addr\<rparr>,
              if v_num tab > 0 then
                w1\<lparr>w_mem := memset (w_mem w1)
                    (ram_addr + ucast (h_num_lot (read_header (w_mem w1) hp)) * 4)
                    0 (get_nonmain_bases_size tab)\<rparr>
              else w1)
      else (UDYNLINK_OK, pm\<lparr>p_ram := NULL\<rparr>, w))"

section \<open>Phase 3: copying the image\<close>

definition load_p_temp8 :: "mem \<Rightarrow> addr \<Rightarrow> sect_view_t \<Rightarrow> udynlink_module_t \<Rightarrow> addr" where
  [acc_defs]: "load_p_temp8 m hp tab pm =
     p_ram pm + ucast (h_num_lot (read_header m hp)) * 4 + get_nonmain_bases_size tab"

definition copy_main_sectioned ::
  "udynlink_module_image_t \<Rightarrow> addr \<Rightarrow> sect_view_t \<Rightarrow> udynlink_load_mode_t \<Rightarrow> udynlink_module_t
   \<Rightarrow> mem \<Rightarrow> udynlink_module_t \<times> mem" where
  "copy_main_sectioned img hp tab md pm m =
     (let h = read_header m hp;
          p_temp8 = load_p_temp8 m hp tab pm;
          main_off = (\<lambda>m idx. get_main_section_offset m (read_header m hp) tab md idx);
          copy_data = (\<lambda>m. let me = sect_entry_at m tab 1
                       in if e_size me > 0 then memcpy m (p_ram pm + main_off m 1) (i_data img) (e_size me)
                          else m)
      in if md = LOAD_MODE_COPY_ALL then
           let m1 = memcpy m p_temp8 (i_header img) (get_code_offset_from_header h);
               m2 = memcpy m1 (p_ram pm + main_off m1 0) (i_code img)
                      (get_code_payload_size m1 (read_header m1 hp) tab)
           in (pm\<lparr>p_header := p_temp8\<rparr>, copy_data m2)
         else if md = LOAD_MODE_COPY_TEXT_DATA then
           let code_payload = get_code_payload_size m h tab;
               m1 = (if code_payload > 0
                     then memcpy m (p_ram pm + main_off m 0) (i_code img) code_payload else m)
           in (pm, copy_data m1)
         else (pm, copy_data m))"

text \<open>The tagged sections: state of the loop is (result, payload offset, world).\<close>

fun load_tagged_loop ::
  "'h externals \<Rightarrow> udynlink_module_image_t \<Rightarrow> sect_view_t \<Rightarrow> udynlink_module_t \<Rightarrow> nat list
   \<Rightarrow> u32 \<Rightarrow> 'h world \<Rightarrow> udynlink_error_t \<times> 'h world" where
  "load_tagged_loop x img tab pm [] payload_off w = (UDYNLINK_OK, w)"
| "load_tagged_loop x img tab pm (k # ks) payload_off w =
     (let e = sect_entry_at (w_mem w) tab k
      in if e_size e = 0 then load_tagged_loop x img tab pm ks payload_off w
      else
        let (sec, w1) = udynlink_external_malloc x (e_size e) (sect_name tab e) (e_align e)
                          (sect_host_flags e) w
        in if sec = NULL then (ERR_LOAD_SECTION_UNRESOLVED, w1)
        else
          let w2 = w1\<lparr>w_mem := set_section_base_idx (w_mem w1) pm (k - 3) sec\<rparr>
          in if sec AND (e_align e - 1) \<noteq> 0 then (ERR_LOAD_SECTION_UNALIGNED, w2)
          else if e_cls e = UDYNLINK_SEC_CLASS_BSS
          then load_tagged_loop x img tab pm ks payload_off
                 (w2\<lparr>w_mem := memset (w_mem w2) sec 0 (e_size e)\<rparr>)
          else load_tagged_loop x img tab pm ks (payload_off + e_size e)
                 (w2\<lparr>w_mem := memcpy (w_mem w2) sec (i_code img + payload_off) (e_size e)\<rparr>))"

definition load_sectioned ::
  "'h externals \<Rightarrow> udynlink_module_image_t \<Rightarrow> addr \<Rightarrow> sect_view_t \<Rightarrow> udynlink_load_mode_t
   \<Rightarrow> udynlink_module_t \<Rightarrow> 'h world \<Rightarrow> udynlink_error_t \<times> udynlink_module_t \<times> 'h world" where
  "load_sectioned x img hp tab md pm w =
     (let (pm1, m1) = copy_main_sectioned img hp tab md pm (w_mem w);
          h1 = read_header m1 hp;
          payload_off = get_code_payload_size m1 h1 tab + h_data_size h1;
          (res, w2) = load_tagged_loop x img tab pm1 [3..<v_num tab] payload_off (w\<lparr>w_mem := m1\<rparr>)
      in if res \<noteq> UDYNLINK_OK then (res, pm1, w2)
         else
           let m2 = w_mem w2; me = sect_entry_at m2 tab 2
           in (UDYNLINK_OK, pm1,
               if e_size me > 0 then
                 w2\<lparr>w_mem := memset m2
                     (p_ram pm1 + get_main_section_offset m2 (read_header m2 hp) tab md 2) 0 (e_size me)\<rparr>
               else w2))"

definition copy_untagged ::
  "udynlink_module_image_t \<Rightarrow> addr \<Rightarrow> sect_view_t \<Rightarrow> udynlink_load_mode_t \<Rightarrow> udynlink_module_t
   \<Rightarrow> mem \<Rightarrow> udynlink_module_t \<times> mem" where
  "copy_untagged img hp tab md pm m =
     (let h = read_header m hp;
          p_temp8 = load_p_temp8 m hp tab pm;
          code_offset = get_code_offset_from_header h
      in if md = LOAD_MODE_COPY_ALL then
           let hs = get_header_size h;
               rs = ucast (h_num_rels h) * 2 * 4;
               m1 = memcpy m p_temp8 (i_header img) hs;
               m2 = memcpy m1 (p_temp8 + hs) (i_relocations img) rs;
               m3 = memcpy m2 (p_temp8 + hs + rs) (i_symtab img) (h_symt_size h);
               pad = code_offset - (hs + rs + h_symt_size h);
               m4 = (if pad > 0 \<and> pad < 4
                     then memset m3 (p_temp8 + hs + rs + h_symt_size h) 0 pad else m3);
               m5 = memcpy m4 (p_temp8 + code_offset) (i_code img) (h_code_size h);
               m6 = memcpy m5 (p_temp8 + code_offset + h_code_size h) (i_data img) (h_data_size h)
           in (pm\<lparr>p_header := p_temp8\<rparr>, m6)
         else if md = LOAD_MODE_COPY_TEXT_DATA then
           let cd_size = h_code_size h + h_data_size h
           in (pm, if cd_size > 0 then memcpy m p_temp8 (i_code img) cd_size else m)
         else (pm, if h_data_size h > 0 then memcpy m p_temp8 (i_data img) (h_data_size h) else m))"

definition load_untagged ::
  "udynlink_module_image_t \<Rightarrow> addr \<Rightarrow> sect_view_t \<Rightarrow> udynlink_load_mode_t \<Rightarrow> udynlink_module_t
   \<Rightarrow> mem \<Rightarrow> udynlink_module_t \<times> mem" where
  "load_untagged img hp tab md pm m =
     (let (pm1, m1) = copy_untagged img hp tab md pm m;
          h = read_header m1 hp
      in (pm1, if h_bss_size h > 0
               then memset m1 (get_data_pointer m1 pm1 + h_data_size h) 0 (h_bss_size h) else m1))"

section \<open>The whole load\<close>

text \<open>The shared exit: a failed load frees what was recorded and clears the handle.\<close>

definition load_exit ::
  "'h externals \<Rightarrow> sect_view_t \<Rightarrow> u32 \<Rightarrow> udynlink_error_t \<times> udynlink_module_t \<times> 'h world
   \<Rightarrow> udynlink_error_t \<times> udynlink_module_t \<times> 'h world" where
  "load_exit x tab main_align st =
     (case st of (res, pm, w) \<Rightarrow>
        if res \<noteq> UDYNLINK_OK then
          let w1 = free_nonmain_sections x pm tab w;
              w2 = (if p_ram pm \<noteq> NULL \<and> \<not> LOAD_IS_FOREIGN_RAM pm
                    then udynlink_external_free x (p_ram pm) NULL main_align 0 w1 else w1)
          in (res, mark_module_free pm, w2)
        else (res, pm, w))"

text \<open>The phases after a successful provisioning.\<close>

definition load_fill ::
  "'h externals \<Rightarrow> udynlink_module_image_t \<Rightarrow> addr \<Rightarrow> sect_view_t \<Rightarrow> udynlink_load_mode_t
   \<Rightarrow> udynlink_module_t \<Rightarrow> 'h world \<Rightarrow> udynlink_error_t \<times> udynlink_module_t \<times> 'h world" where
  "load_fill x img hp tab md pm w =
     (let (res, pm1, w1) =
        (if v_num tab > 0 then load_sectioned x img hp tab md pm w
         else let (pm1, m1) = load_untagged img hp tab md pm (w_mem w)
              in (UDYNLINK_OK, pm1, w\<lparr>w_mem := m1\<rparr>))
      in if res \<noteq> UDYNLINK_OK then (res, pm1, w1)
         else
           let (res2, w2) = udynlink_load_apply_relocations x pm1 hp (i_relocations img)
                              (i_symtab img) w1
           in if res2 \<noteq> UDYNLINK_OK then (res2, pm1, w2)
              else (UDYNLINK_OK,
                    pm1\<lparr>num_named_syms := compute_num_named_syms (w_mem w2) (p_header pm1)\<rparr>, w2))"

definition udynlink_load_module_image ::
  "'h externals \<Rightarrow> udynlink_module_t option \<Rightarrow> udynlink_module_image_t \<Rightarrow> addr \<Rightarrow> u32
   \<Rightarrow> udynlink_load_mode_t \<Rightarrow> 'h world \<Rightarrow> udynlink_error_t \<times> udynlink_module_t option \<times> 'h world" where
  "udynlink_load_module_image x p_mod img load_addr load_size md w =
     (case p_mod of None \<Rightarrow> (ERR_INVALID_MODULE, None, w)
      | Some pm0 \<Rightarrow>
          let hp = i_header img;
              pm = LOAD_SET_MODE md (pm0\<lparr>p_header := hp\<rparr>);
              (res, tab, main_align, ram_size) = load_checks (w_mem w) hp md;
              body = (if res \<noteq> UDYNLINK_OK then (res, pm, w)
                else
                  let (res1, pm1, w1) = load_provision_ram x hp tab main_align ram_size
                                          load_addr load_size pm w
                  in if res1 \<noteq> UDYNLINK_OK then (res1, pm1, w1)
                     else load_fill x img hp tab md pm1 w1);
              (res2, pm2, w2) = load_exit x tab main_align body
          in (res2, Some pm2, w2))"

definition udynlink_load_module ::
  "'h externals \<Rightarrow> udynlink_module_t option \<Rightarrow> addr \<Rightarrow> addr \<Rightarrow> u32 \<Rightarrow> udynlink_load_mode_t
   \<Rightarrow> 'h world \<Rightarrow> udynlink_error_t \<times> udynlink_module_t option \<times> 'h world" where
  "udynlink_load_module x p_mod base_addr load_addr load_size md w =
     udynlink_load_module_image x p_mod (udynlink_image_from_memory (w_mem w) base_addr)
       load_addr load_size md w"

section \<open>Unloading\<close>

definition udynlink_unload_module ::
  "'h externals \<Rightarrow> udynlink_module_t option \<Rightarrow> 'h world
   \<Rightarrow> udynlink_error_t \<times> udynlink_module_t option \<times> 'h world" where
  "udynlink_unload_module x p_mod w =
     (case p_mod of None \<Rightarrow> (ERR_INVALID_MODULE, None, w)
      | Some pm \<Rightarrow>
          if p_header pm = NULL then (ERR_INVALID_MODULE, Some pm, w)
          else
            let (err, tab) = get_sectab (w_mem w) (p_header pm) False;
                main_align = (if err = UDYNLINK_OK \<and> v_num tab > 0 then get_main_align (w_mem w) tab else 4);
                w1 = (if err = UDYNLINK_OK then free_nonmain_sections x pm tab w else w);
                w2 = (if p_ram pm \<noteq> NULL \<and> \<not> LOAD_IS_FOREIGN_RAM pm
                      then udynlink_external_free x (p_ram pm) NULL main_align 0 w1 else w1)
            in (UDYNLINK_OK, Some (mark_module_free pm), w2))"

end
