(* ===== verification/Relocate.thy ===== *)
theory Relocate
  imports Load
begin

text \<open>
  Moving a loaded module: \<open>relocate_main_block\<close> on an untagged module (copy the block, then
  add the move's delta to every module-internal pointer) and on a sectioned one (re-derive
  each relocated word from the section bases before and after the move), behind
  \<open>udynlink_relocate_module\<close> and \<open>udynlink_relocate_module_sections\<close>.
\<close>

section \<open>Section bases around a move\<close>

record udynlink_section_move_t =
  mv_idx :: nat
  mv_new_base :: addr

record sect_rebase_t =
  r_mod :: udynlink_module_t
  r_tab :: sect_view_t
  r_old_p_ram :: addr
  r_moves :: "udynlink_section_move_t list"

definition sect_base_old :: "mem \<Rightarrow> sect_rebase_t \<Rightarrow> nat \<Rightarrow> addr" where
  "sect_base_old m ctx idx =
     (let pm = r_mod ctx; h = read_header m (p_header pm)
      in if idx < 3 then
           (if idx = 0 \<and> LOAD_GET_MODE pm = LOAD_MODE_XIP
            then p_header pm + get_code_offset_from_header h
            else (if r_old_p_ram ctx \<noteq> NULL then r_old_p_ram ctx else p_ram pm)
                 + get_main_section_offset m h (r_tab ctx) (LOAD_GET_MODE pm) idx)
         else get_section_base_idx m pm (r_tab ctx) idx)"

fun find_move :: "udynlink_section_move_t list \<Rightarrow> nat \<Rightarrow> addr option" where
  "find_move [] idx = None"
| "find_move (mv # mvs) idx = (if mv_idx mv = idx then Some (mv_new_base mv) else find_move mvs idx)"

definition sect_base_new :: "mem \<Rightarrow> sect_rebase_t \<Rightarrow> nat \<Rightarrow> addr" where
  "sect_base_new m ctx idx =
     (case find_move (r_moves ctx) idx of
        Some base \<Rightarrow> base
      | None \<Rightarrow> get_section_base_idx m (r_mod ctx) (r_tab ctx) idx)"

fun find_by_runtime_loop :: "mem \<Rightarrow> sect_rebase_t \<Rightarrow> addr \<Rightarrow> nat list \<Rightarrow> nat option" where
  "find_by_runtime_loop m ctx a [] = None"
| "find_by_runtime_loop m ctx a (i # is) =
     (let e = sect_entry_at m (r_tab ctx) i; base = sect_base_old m ctx i
      in if a \<ge> base \<and> a - base < e_size e then Some i
         else find_by_runtime_loop m ctx a is)"

definition sect_find_by_runtime :: "mem \<Rightarrow> sect_rebase_t \<Rightarrow> addr \<Rightarrow> nat option" where
  "sect_find_by_runtime m ctx a = find_by_runtime_loop m ctx a [0..<v_num (r_tab ctx)]"

section \<open>The sectioned rebase walk\<close>

text \<open>The post-move address of the word a data relocation patches: \<open>None\<close> is \<open>continue\<close>.\<close>

definition rebase_data_slot :: "mem \<Rightarrow> sect_rebase_t \<Rightarrow> u32 \<Rightarrow> addr option" where
  "rebase_data_slot m ctx lot_offset =
     (let h = read_header m (p_header (r_mod ctx));
          va = h_code_size h + 4 * (lot_offset - ucast (h_num_lot h))
      in case sect_find_by_va m (r_tab ctx) va of
           None \<Rightarrow> None
         | Some ti \<Rightarrow>
             let te = sect_entry_at m (r_tab ctx) ti
             in if e_cls te = UDYNLINK_SEC_CLASS_BSS then None
                else Some (sect_base_new m ctx ti + (va - e_va te)))"

definition rebase_sections_step :: "sect_rebase_t \<Rightarrow> addr \<Rightarrow> nat \<Rightarrow> mem \<Rightarrow> mem" where
  "rebase_sections_step ctx p_rels i m =
     (let pm = r_mod ctx; tab = r_tab ctx; h = read_header m (p_header pm);
          num_lot = ucast (h_num_lot h);
          lot_offset = reloc_lot_offset m p_rels i;
          symt_offset = reloc_symt_offset m p_rels i
      in if is_abs32 symt_offset \<or> is_code_base symt_offset then
           (if lot_offset < num_lot then m
            else case rebase_data_slot m ctx lot_offset of
                None \<Rightarrow> m
              | Some p \<Rightarrow>
                  (case sect_find_by_runtime m ctx (rd32 m p) of
                     None \<Rightarrow> m
                   | Some si \<Rightarrow> add_word m p (sect_base_new m ctx si - sect_base_old m ctx si)))
         else case get_sym_at_raw m (get_sym_table_pointer m (p_header pm)) symt_offset (h_symt_size h) of
             None \<Rightarrow> m
           | Some s \<Rightarrow>
               (case (if lot_offset < num_lot then Some (p_ram pm + 4 * lot_offset)
                      else rebase_data_slot m ctx lot_offset) of
                  None \<Rightarrow> m
                | Some p_slot \<Rightarrow>
                    if s_type s = UDYNLINK_SYM_TYPE_INTERNAL \<or> s_type s = UDYNLINK_SYM_TYPE_EXPORTED then
                      (case sect_find_by_va m tab (s_val s) of
                         None \<Rightarrow> m
                       | Some si \<Rightarrow> wr32 m p_slot
                           (sect_base_new m ctx si + (s_val s - e_va (sect_entry_at m tab si))))
                    else if s_type s = UDYNLINK_SYM_TYPE_WEAK then
                      (case sect_find_by_va m tab (s_val s) of
                         None \<Rightarrow> m
                       | Some si \<Rightarrow>
                           let off = s_val s - e_va (sect_entry_at m tab si)
                           in if rd32 m p_slot = sect_base_old m ctx si + off
                              then wr32 m p_slot (sect_base_new m ctx si + off) else m)
                    else m))"

definition rebase_sections_pointers :: "sect_rebase_t \<Rightarrow> mem \<Rightarrow> mem" where
  "rebase_sections_pointers ctx m =
     for_u16 (\<lambda>m. h_num_rels (read_header m (p_header (r_mod ctx)))) (\<lambda>_. False)
       (rebase_sections_step ctx (get_relocs_pointer m (r_mod ctx))) 0 m"

section \<open>Moving the block\<close>

definition relocate_untagged ::
  "'h externals \<Rightarrow> udynlink_module_t \<Rightarrow> addr \<Rightarrow> u32 \<Rightarrow> u32 \<Rightarrow> 'h world
   \<Rightarrow> udynlink_error_t \<times> udynlink_module_t \<times> 'h world" where
  "relocate_untagged x pm new_ram new_size ram_size w =
     (let md = LOAD_GET_MODE pm; old_foreign = LOAD_IS_FOREIGN_RAM pm
      in if ram_size = 0 then (UDYNLINK_OK, pm, w)
      else
        let (res, dest, pm1, w1) =
          (if new_ram = NULL then
             (let (dest, w1) = udynlink_external_malloc x ram_size NULL 4 0 w
              in (if dest = NULL then ERR_LOAD_OUT_OF_MEMORY else UDYNLINK_OK, dest,
                  LOAD_CLR_FOREIGN_RAM pm, w1))
           else (if new_size < ram_size then ERR_LOAD_RAM_LEN_LOW else UDYNLINK_OK, new_ram,
                 LOAD_SET_FOREIGN_RAM pm, w))
        in if res \<noteq> UDYNLINK_OK then (res, pm1, w1)
        else
          let m1 = w_mem w1; old_p_ram = p_ram pm1;
              old_code = get_code_pointer m1 pm1; old_data = get_data_pointer m1 pm1
          in if dest = old_p_ram then
               (UDYNLINK_OK, pm1,
                if \<not> old_foreign then udynlink_external_free x old_p_ram NULL 4 0 w1 else w1)
          else
            let data_delta = dest - old_p_ram;
                code_delta = (if md = LOAD_MODE_XIP then 0 else data_delta);
                m2 = memcpy m1 dest old_p_ram ram_size;
                pm2 = pm1\<lparr>p_ram := dest\<rparr>;
                pm3 = (if md = LOAD_MODE_COPY_ALL
                       then pm2\<lparr>p_header := dest + ucast (h_num_lot (read_header m2 (p_header pm2))) * 4\<rparr>
                       else pm2);
                w2 = w1\<lparr>w_mem := rebase_module_pointers pm3 code_delta data_delta old_code old_data m2\<rparr>
            in (UDYNLINK_OK, pm3,
                if \<not> old_foreign then udynlink_external_free x old_p_ram NULL 4 0 w2 else w2))"

fun publish_moves :: "udynlink_module_t \<Rightarrow> udynlink_section_move_t list \<Rightarrow> mem \<Rightarrow> mem" where
  "publish_moves pm [] m = m"
| "publish_moves pm (mv # mvs) m =
     publish_moves pm mvs (set_section_base_idx m pm (mv_idx mv - 3) (mv_new_base mv))"

text \<open>The destination block of a sectioned move: every check precedes the change of the
  ownership flag.\<close>

definition relocate_provision ::
  "'h externals \<Rightarrow> udynlink_module_t \<Rightarrow> addr \<Rightarrow> u32 \<Rightarrow> u32 \<Rightarrow> u32 \<Rightarrow> 'h world
   \<Rightarrow> udynlink_error_t \<times> addr \<times> udynlink_module_t \<times> 'h world" where
  "relocate_provision x pm new_ram new_size ram_size main_align w =
     (if ram_size > 0 then
        (if new_ram = NULL then
           (let (dest, w1) = udynlink_external_malloc x ram_size NULL main_align 0 w
            in if dest = NULL then (ERR_LOAD_OUT_OF_MEMORY, NULL, pm, w1)
               else (UDYNLINK_OK, dest, LOAD_CLR_FOREIGN_RAM pm, w1))
         else if new_size < ram_size then (ERR_LOAD_RAM_LEN_LOW, NULL, pm, w)
         else if new_ram AND (main_align - 1) \<noteq> 0 then (ERR_LOAD_RAM_UNALIGNED, NULL, pm, w)
         else (UDYNLINK_OK, new_ram, LOAD_SET_FOREIGN_RAM pm, w))
      else (UDYNLINK_OK, NULL, pm, w))"

definition relocate_sectioned ::
  "'h externals \<Rightarrow> udynlink_module_t \<Rightarrow> addr \<Rightarrow> u32 \<Rightarrow> u32 \<Rightarrow> udynlink_section_move_t list
   \<Rightarrow> 'h world \<Rightarrow> udynlink_error_t \<times> udynlink_module_t \<times> 'h world" where
  "relocate_sectioned x pm new_ram new_size ram_size moves w =
     (let (err, tab) = get_sectab (w_mem w) (p_header pm) False
      in if err \<noteq> UDYNLINK_OK \<or> v_num tab = 0 then (ERR_LOAD_BAD_SECTION_TABLE, pm, w)
      else
        let main_align = get_main_align (w_mem w) tab; old_foreign = LOAD_IS_FOREIGN_RAM pm
        in if ram_size = 0 \<and> moves = [] then (UDYNLINK_OK, pm, w)
        else if ram_size > 0 \<and> new_ram = p_ram pm then (UDYNLINK_OK, pm, w)
        else
          let (res, dest, pm1, w1) =
            relocate_provision x pm new_ram new_size ram_size main_align w
          in if res \<noteq> UDYNLINK_OK then (res, pm1, w1)
          else
            let old_p_ram = p_ram pm1;
                m2 = (if ram_size > 0 then memcpy (w_mem w1) dest old_p_ram ram_size else w_mem w1);
                pm2 = (if ram_size > 0 then pm1\<lparr>p_ram := dest\<rparr> else pm1);
                pm3 = (if ram_size > 0 \<and> LOAD_GET_MODE pm = LOAD_MODE_COPY_ALL
                       then pm2\<lparr>p_header := dest + ucast (h_num_lot (read_header m2 (p_header pm2))) * 4
                                            + get_nonmain_bases_size tab\<rparr>
                       else pm2);
                ctx = \<lparr>r_mod = pm3, r_tab = tab, r_old_p_ram = old_p_ram, r_moves = moves\<rparr>;
                m3 = publish_moves pm3 moves (rebase_sections_pointers ctx m2);
                w2 = w1\<lparr>w_mem := m3\<rparr>
            in (UDYNLINK_OK, pm3,
                if \<not> old_foreign \<and> ram_size > 0
                then udynlink_external_free x old_p_ram NULL main_align 0 w2 else w2))"

definition relocate_main_block ::
  "'h externals \<Rightarrow> udynlink_module_t \<Rightarrow> addr \<Rightarrow> u32 \<Rightarrow> udynlink_section_move_t list
   \<Rightarrow> 'h world \<Rightarrow> udynlink_error_t \<times> udynlink_module_t \<times> 'h world" where
  "relocate_main_block x pm new_ram new_size moves w =
     (let ram_size = udynlink_get_ram_size (w_mem w) pm
      in if \<not> is_sectioned (read_header (w_mem w) (p_header pm))
         then relocate_untagged x pm new_ram new_size ram_size w
         else relocate_sectioned x pm new_ram new_size ram_size moves w)"

definition udynlink_relocate_module ::
  "'h externals \<Rightarrow> udynlink_module_t option \<Rightarrow> addr \<Rightarrow> u32 \<Rightarrow> 'h world
   \<Rightarrow> udynlink_error_t \<times> udynlink_module_t option \<times> 'h world" where
  "udynlink_relocate_module x p_mod new_ram new_size w =
     (case p_mod of None \<Rightarrow> (ERR_INVALID_MODULE, None, w)
      | Some pm \<Rightarrow>
          if p_header pm = NULL then (ERR_INVALID_MODULE, Some pm, w)
          else let (res, pm', w') = relocate_main_block x pm new_ram new_size [] w
               in (res, Some pm', w'))"

text \<open>The validation of a move list against the section table; \<open>seen\<close> holds the moves
  before the current one.\<close>

fun check_moves :: "mem \<Rightarrow> sect_view_t \<Rightarrow> udynlink_section_move_t list
    \<Rightarrow> udynlink_section_move_t list \<Rightarrow> udynlink_error_t" where
  "check_moves m tab seen [] = UDYNLINK_OK"
| "check_moves m tab seen (mv # mvs) =
     (if mv_idx mv < 3 \<or> mv_idx mv \<ge> v_num tab then ERR_INVALID_MODULE
      else if list_ex (\<lambda>mj. mv_idx mj = mv_idx mv) seen then ERR_INVALID_MODULE
      else if mv_new_base mv = NULL then ERR_LOAD_SECTION_UNRESOLVED
      else if mv_new_base mv AND (e_align (sect_entry_at m tab (mv_idx mv)) - 1) \<noteq> 0
        then ERR_LOAD_SECTION_UNALIGNED
      else check_moves m tab (seen @ [mv]) mvs)"

text \<open>\<open>moves\<close> is the array of the caller: \<open>None\<close> for a null pointer with a positive count.\<close>

definition udynlink_relocate_module_sections ::
  "'h externals \<Rightarrow> udynlink_module_t option \<Rightarrow> addr \<Rightarrow> u32 \<Rightarrow> udynlink_section_move_t list option
   \<Rightarrow> 'h world \<Rightarrow> udynlink_error_t \<times> udynlink_module_t option \<times> 'h world" where
  "udynlink_relocate_module_sections x p_mod new_ram new_size moves w =
     (case p_mod of None \<Rightarrow> (ERR_INVALID_MODULE, None, w)
      | Some pm \<Rightarrow>
          if p_header pm = NULL then (ERR_INVALID_MODULE, Some pm, w)
          else
            let run = (\<lambda>mvs. let (res, pm', w') = relocate_main_block x pm new_ram new_size mvs w
                             in (res, Some pm', w'))
            in case moves of
                None \<Rightarrow> (ERR_INVALID_MODULE, Some pm, w)
              | Some [] \<Rightarrow> run []
              | Some mvs \<Rightarrow>
                  if \<not> is_sectioned (read_header (w_mem w) (p_header pm))
                  then (ERR_INVALID_MODULE, Some pm, w)
                  else let (err, tab) = get_sectab (w_mem w) (p_header pm) False
                  in if err \<noteq> UDYNLINK_OK \<or> v_num tab = 0
                     then (ERR_LOAD_BAD_SECTION_TABLE, Some pm, w)
                  else let res = check_moves (w_mem w) tab [] mvs
                  in if res \<noteq> UDYNLINK_OK then (res, Some pm, w) else run mvs)"

end
