(* ===== verification/RelocSpec.thy ===== *)
theory RelocSpec
  imports Reloc
begin

text \<open>
  What the relocation walks of an untagged module do to memory: each entry has an effect
  computed from the memory before the walk, and the walks of \<open>udynlink_load_apply_relocations\<close>
  and \<open>rebase_module_pointers\<close> apply exactly these effects, one word per entry.
\<close>

section \<open>Walks over disjoint words\<close>

text \<open>A walk over a relocation table computes, for entry \<open>i\<close>, an effect from the memory at its
  start: an error, nothing, or a word to write. When the words of different entries are
  disjoint and no entry reads another's word, the memory after \<open>k\<close> rounds is the initial one
  with the first \<open>k\<close> effects applied.\<close>

fun written :: "(nat \<Rightarrow> 'e + (addr \<times> u32) option) \<Rightarrow> nat \<Rightarrow> mem \<Rightarrow> mem" where
  "written e 0 m = m"
| "written e (Suc k) m =
     (case e k of Inr (Some (p, v)) \<Rightarrow> wr32 (written e k m) p v | _ \<Rightarrow> written e k m)"

lemma written_frame:
  assumes "\<And>j p v. j < k \<Longrightarrow> e j = Inr (Some (p, v)) \<Longrightarrow> a \<notin> blk p 4"
  shows "written e k m a = m a"
  using assms
proof (induction k)
  case (Suc k)
  have "written e k m a = m a" by (rule Suc.IH) (rule Suc.prems [OF less_SucI])
  with Suc.prems [of k] show ?case by (auto simp: wr32_frame split: sum.splits option.splits)
qed simp

lemma written_slot:
  assumes "i < k" and "e i = Inr (Some (p, v))"
    and "\<And>j q u. j < k \<Longrightarrow> j \<noteq> i \<Longrightarrow> e j = Inr (Some (q, u)) \<Longrightarrow> blk p 4 \<inter> blk q 4 = {}"
  shows "rd32 (written e k m) p = v"
  using assms
proof (induction k)
  case (Suc k)
  show ?case
  proof (cases "i = k")
    case True
    with Suc.prems show ?thesis by (simp add: mem_simps)
  next
    case False
    then have "rd32 (written e k m) p = v"
      using Suc.prems(1,2) by (intro Suc.IH Suc.prems(3) [OF less_SucI]) auto
    with False Suc.prems(3) [of k] show ?thesis
      by (auto simp: rd32_wr32_disj split: sum.splits option.splits)
  qed
qed simp

text \<open>The loop rule for such walks. \<open>emb\<close> puts a memory into the loop's state, \<open>ferr\<close> an error
  with it.\<close>

lemma slot_loop:
  assumes stop: "\<And>m'. \<not> stop (emb m')" "\<And>i er m'. i < n \<Longrightarrow> e i = Inl er \<Longrightarrow> stop (ferr er m')"
    and bnd: "\<And>k. k \<le> n \<Longrightarrow> unat (bound (emb (written e k m))) = n"
    and step: "\<And>i. i < n \<Longrightarrow> body i (emb (written e i m)) =
      (case e i of Inl er \<Rightarrow> ferr er (written e i m) | Inr _ \<Rightarrow> emb (written e (Suc i) m))"
  shows "for_u16 bound stop body 0 (emb m) =
    (case find (\<lambda>i. \<exists>er. e i = Inl er) [0..<n] of
       None \<Rightarrow> emb (written e n m) | Some k \<Rightarrow> ferr (projl (e k)) (written e k m))"
proof -
  have "for_u16 bound stop body i (emb (written e i m)) =
    (case find (\<lambda>i. \<exists>er. e i = Inl er) [i..<n] of
       None \<Rightarrow> emb (written e n m) | Some k \<Rightarrow> ferr (projl (e k)) (written e k m))" if "i \<le> n" for i
    using that
  proof (induction "n - i" arbitrary: i)
    case 0
    then have "i = n" by simp
    then show ?case using bnd [of n] by (subst for_u16.simps) simp
  next
    case (Suc d)
    then have i: "i < n" "n - Suc i = d" by simp_all
    have un: "for_u16 bound stop body i (emb (written e i m)) =
        for_u16 bound stop body (Suc i) (body i (emb (written e i m)))"
      using i bnd [of i] stop(1) by (simp add: for_u16.simps [of bound stop body i])
    have l: "[i..<n] = i # [Suc i..<n]" using i by (simp add: upt_conv_Cons)
    show ?case
    proof (cases "e i")
      case (Inl er)
      have "for_u16 bound stop body (Suc i) (ferr er (written e i m)) = ferr er (written e i m)"
        by (simp add: for_u16.simps [of bound stop body "Suc i"] stop(2) [OF i(1) Inl])
      then show ?thesis unfolding un step [OF i(1)] l by (simp add: Inl)
    next
      case (Inr r)
      show ?thesis unfolding un step [OF i(1)] l using Suc.hyps(1) [of "Suc i"] i by (simp add: Inr)
    qed
  qed
  from this [of 0] show ?thesis by simp
qed

lemma find_upt_None: "find P [0..<n] = None \<longleftrightarrow> (\<forall>i < n. \<not> P i)"
  by (auto simp: find_None_iff)

lemma find_upt_Some: "find P [0..<n] = Some k \<longleftrightarrow> k < n \<and> P k \<and> (\<forall>j < k. \<not> P j)"
proof
  assume "find P [0..<n] = Some k"
  then show "k < n \<and> P k \<and> (\<forall>j < k. \<not> P j)" by (auto simp: find_Some_iff)
next
  assume "k < n \<and> P k \<and> (\<forall>j < k. \<not> P j)"
  then show "find P [0..<n] = Some k" by (auto simp: find_Some_iff intro!: exI [of _ k])
qed

lemma wr32_wr32_same: "wr32 (wr32 m p u) p v = wr32 m p v"
  by (rule ext) (simp add: wr32_def)


section \<open>Relocating an untagged module\<close>

text \<open>The addresses of an untagged module depend on memory only through its header.\<close>

lemma untagged_cong:
  assumes "read_header m' (p_header pm) = read_header m (p_header pm)"
    and "\<not> is_sectioned (read_header m (p_header pm))" and "v_num tab = 0"
  shows "get_code_pointer m' pm = get_code_pointer m pm"
    and "get_data_pointer m' pm = get_data_pointer m pm"
    and "get_reloc_target m' pm tab lo = get_reloc_target m pm tab lo"
    and "offset_sym m' pm s = offset_sym m pm s"
proof -
  show c: "get_code_pointer m' pm = get_code_pointer m pm"
    using assms by (simp add: get_code_pointer_def Let_def)
  show d: "get_data_pointer m' pm = get_data_pointer m pm"
    using assms by (simp add: get_data_pointer_def Let_def)
  show "get_reloc_target m' pm tab lo = get_reloc_target m pm tab lo"
    using assms d by (simp add: get_reloc_target_def Let_def)
  show "offset_sym m' pm s = offset_sym m pm s"
    using assms c d by (simp add: offset_sym_def Let_def)
qed

definition slot_target :: "mem \<Rightarrow> udynlink_module_t \<Rightarrow> sect_view_t \<Rightarrow> addr \<Rightarrow> nat \<Rightarrow> addr" where
  "slot_target m pm tab rels i = get_reloc_target m pm tab (reloc_lot_offset m rels i)"

text \<open>What entry \<open>i\<close> asks for, given the addresses \<open>f\<close> the host resolves names to: the
  specification the walk is compared with.\<close>

definition slot_effect ::
  "(cname \<Rightarrow> u32) \<Rightarrow> mem \<Rightarrow> udynlink_module_t \<Rightarrow> sect_view_t \<Rightarrow> addr \<Rightarrow> addr \<Rightarrow> addr \<Rightarrow> nat
   \<Rightarrow> udynlink_error_t + (addr \<times> u32) option" where
  "slot_effect f m pm tab hp rels p_symtab i =
     (let so = reloc_symt_offset m rels i; p = slot_target m pm tab rels i;
          lot = reloc_lot_offset m rels i < ucast (h_num_lot (read_header m hp))
      in if is_abs32 so then
           (if lot \<or> p = NULL then Inl ERR_LOAD_BAD_RELOCATION_TABLE
            else Inr (Some (p, rd32 m p + (get_data_pointer m pm - (so AND 0x7FFFFFFF)))))
         else if is_code_base so then
           (if lot \<or> p = NULL then Inl ERR_LOAD_BAD_RELOCATION_TABLE
            else Inr (Some (p, get_code_pointer m pm + rd32 m p)))
         else case get_sym_at_raw m p_symtab so (h_symt_size (read_header m hp)) of
             None \<Rightarrow> Inl ERR_LOAD_BAD_RELOCATION_TABLE
           | Some s \<Rightarrow>
               let own = s_val (offset_sym m pm s); host = f (s_name s)
               in if p = NULL \<or> s_type s = UDYNLINK_SYM_TYPE_MODULE_NAME then Inl ERR_LOAD_BAD_RELOCATION_TABLE
                  else if s_type s = UDYNLINK_SYM_TYPE_INTERNAL \<or> s_type s = UDYNLINK_SYM_TYPE_EXPORTED
                  then Inr (Some (p, own))
                  else if s_type s = UDYNLINK_SYM_TYPE_WEAK
                  then Inr (Some (p, if host = 0 \<or> host = UDYNLINK_SYM_DEFERRED then own else host))
                  else if s_type s = UDYNLINK_SYM_TYPE_EXTERN
                  then (if host = 0 then Inl ERR_LOAD_UNKNOWN_SYMBOL
                        else Inr (Some (p, if host = UDYNLINK_SYM_DEFERRED then 0 else host)))
                  else Inr None)"

lemma slot_effect_target:
  assumes "slot_effect f m pm tab hp rels p_symtab i = Inr (Some (p, v))"
  shows "p = slot_target m pm tab rels i \<and> p \<noteq> NULL"
  using assms by (auto simp: slot_effect_def Let_def split: if_splits option.splits)

lemma slot_effect_error: "slot_effect f m pm tab hp rels p_symtab i = Inl e \<Longrightarrow> e \<noteq> UDYNLINK_OK"
  by (auto simp: slot_effect_def Let_def split: if_splits option.splits)

text \<open>The bytes a walk of \<open>n\<close> entries may write, the bytes it reads apart from them, and when
  it is well behaved: an untagged module whose relocated words are disjoint from each other
  and from the metadata, and a host whose resolver is a function of the name that leaves the
  world alone.\<close>

definition slots :: "mem \<Rightarrow> udynlink_module_t \<Rightarrow> sect_view_t \<Rightarrow> addr \<Rightarrow> nat \<Rightarrow> addr set" where
  "slots m pm tab rels n =
     (\<Union>i\<in>{i. i < n \<and> slot_target m pm tab rels i \<noteq> NULL}. blk (slot_target m pm tab rels i) 4)"

definition walk_metadata :: "mem \<Rightarrow> udynlink_module_t \<Rightarrow> addr \<Rightarrow> addr \<Rightarrow> addr \<Rightarrow> addr set" where
  "walk_metadata m pm hp rels p_symtab =
     blk hp 32 \<union> blk (p_header pm) 32
     \<union> blk rels (8 * ucast (h_num_rels (read_header m hp))) \<union> blk p_symtab (h_symt_size (read_header m hp))"

definition agree_off :: "addr set \<Rightarrow> mem \<Rightarrow> mem \<Rightarrow> bool" where
  "agree_off S m m' \<longleftrightarrow> (\<forall>a. a \<notin> S \<longrightarrow> m' a = m a)"

definition slots_ok :: "mem \<Rightarrow> udynlink_module_t \<Rightarrow> sect_view_t \<Rightarrow> addr \<Rightarrow> addr \<Rightarrow> addr \<Rightarrow> bool" where
  "slots_ok m pm tab hp rels p_symtab \<longleftrightarrow>
     (let n = unat (h_num_rels (read_header m hp))
      in \<not> is_sectioned (read_header m (p_header pm)) \<and> v_num tab = 0
         \<and> slots m pm tab rels n \<inter> walk_metadata m pm hp rels p_symtab = {}
         \<and> (\<forall>i < n. \<forall>j < n. i \<noteq> j \<and> slot_target m pm tab rels i \<noteq> NULL \<and> slot_target m pm tab rels j \<noteq> NULL
             \<longrightarrow> blk (slot_target m pm tab rels i) 4 \<inter> blk (slot_target m pm tab rels j) 4 = {}))"

definition resolves_to :: "'h externals \<Rightarrow> (cname \<Rightarrow> u32) \<Rightarrow> udynlink_module_t \<Rightarrow> 'h world \<Rightarrow> bool" where
  "resolves_to x f pm w \<longleftrightarrow> (\<forall>nm m'. x_resolve x pm nm (w\<lparr>w_mem := m'\<rparr>) = (f nm, w\<lparr>w_mem := m'\<rparr>))"

lemma slot_subset:
  assumes "i < n" and "slot_target m pm tab rels i \<noteq> NULL"
  shows "blk (slot_target m pm tab rels i) 4 \<subseteq> slots m pm tab rels n"
  unfolding slots_def by (rule UN_upper) (use assms in simp)

lemma slots_ok_distinct:
  assumes "slots_ok m pm tab hp rels p_symtab"
    and "i < unat (h_num_rels (read_header m hp))" and "j < unat (h_num_rels (read_header m hp))" and "i \<noteq> j"
    and "slot_target m pm tab rels i \<noteq> NULL" and "slot_target m pm tab rels j \<noteq> NULL"
  shows "blk (slot_target m pm tab rels i) 4 \<inter> blk (slot_target m pm tab rels j) 4 = {}"
  using assms by (simp add: slots_ok_def Let_def)

text \<open>The metadata reads the same in every memory that differs from the initial one in the
  slots only.\<close>

lemma walk_cong:
  assumes eq: "\<And>a. a \<in> walk_metadata m pm hp rels p_symtab \<Longrightarrow> m' a = m a"
    and i: "i < unat (h_num_rels (read_header m hp))"
  shows "read_header m' hp = read_header m hp"
    and "read_header m' (p_header pm) = read_header m (p_header pm)"
    and "reloc_lot_offset m' rels i = reloc_lot_offset m rels i"
    and "reloc_symt_offset m' rels i = reloc_symt_offset m rels i"
    and "unat so < 2 ^ 31 - 1 \<Longrightarrow> get_sym_at_raw m' p_symtab so (h_symt_size (read_header m hp))
      = get_sym_at_raw m p_symtab so (h_symt_size (read_header m hp))"
proof -
  have eqs: "\<And>a. a \<in> blk hp 32 \<Longrightarrow> m' a = m a" "\<And>a. a \<in> blk (p_header pm) 32 \<Longrightarrow> m' a = m a"
    "\<And>a. a \<in> blk rels (8 * ucast (h_num_rels (read_header m hp))) \<Longrightarrow> m' a = m a"
    "\<And>a. a \<in> blk p_symtab (h_symt_size (read_header m hp)) \<Longrightarrow> m' a = m a"
    using eq unfolding walk_metadata_def by blast+
  show "read_header m' hp = read_header m hp" "read_header m' (p_header pm) = read_header m (p_header pm)"
    by (rule read_header_cong, erule eqs)+
  have w: "rd32 m' (rels + 4 * (of_nat i * 2 + d)) = rd32 m (rels + 4 * (of_nat i * 2 + d))" if d: "unat d \<le> 1" for d
  proof (rule rd32_cong, rule eqs(3), rule subsetD [OF sub_blk])
    have n: "unat (h_num_rels (read_header m hp)) < 65536" using unsigned_less [of "h_num_rels (read_header m hp)"] by simp
    have "unat (of_nat i * 2 + d :: u32) = 2 * i + unat d" using i n d by (simp add: unat_word_ariths)
    then have "unat (4 * (of_nat i * 2 + d :: u32)) = 8 * i + 4 * unat d" using i n d by (simp add: unat_word_ariths)
    moreover have "unat (8 * ucast (h_num_rels (read_header m hp)) :: u32) = 8 * unat (h_num_rels (read_header m hp))"
      using n by (simp add: unat_word_ariths unsigned_ucast_eq take_bit_nat_eq_self)
    ultimately show "unat (4 * (of_nat i * 2 + d :: u32)) + unat (4 :: u32)
        \<le> unat (8 * ucast (h_num_rels (read_header m hp)) :: u32)" using i d by simp
  qed
  show "reloc_lot_offset m' rels i = reloc_lot_offset m rels i"
    "reloc_symt_offset m' rels i = reloc_symt_offset m rels i"
    using w [of 0] w [of 1] by (simp_all add: acc_defs)
  show "get_sym_at_raw m' p_symtab so (h_symt_size (read_header m hp))
      = get_sym_at_raw m p_symtab so (h_symt_size (read_header m hp))" if "unat so < 2 ^ 31 - 1"
    by (rule get_sym_at_raw_cong [OF _ that]) (rule eqs(4))
qed

lemma walk_agree:
  assumes ok: "slots_ok m pm tab hp rels p_symtab"
    and ag: "agree_off (slots m pm tab rels (unat (h_num_rels (read_header m hp)))) m m'"
    and i: "i < unat (h_num_rels (read_header m hp))"
  shows "read_header m' hp = read_header m hp"
    and "read_header m' (p_header pm) = read_header m (p_header pm)"
    and "reloc_lot_offset m' rels i = reloc_lot_offset m rels i"
    and "reloc_symt_offset m' rels i = reloc_symt_offset m rels i"
    and "unat so < 2 ^ 31 - 1 \<Longrightarrow> get_sym_at_raw m' p_symtab so (h_symt_size (read_header m hp))
      = get_sym_at_raw m p_symtab so (h_symt_size (read_header m hp))"
proof -
  have eq: "m' a = m a" if "a \<in> walk_metadata m pm hp rels p_symtab" for a
    using ok ag that by (auto simp: slots_ok_def agree_off_def Let_def)
  note c = walk_cong [of m pm hp rels p_symtab m' i, OF eq i]
  show "read_header m' hp = read_header m hp" "read_header m' (p_header pm) = read_header m (p_header pm)"
    "reloc_lot_offset m' rels i = reloc_lot_offset m rels i" "reloc_symt_offset m' rels i = reloc_symt_offset m rels i"
    by (rule c; assumption)+
  show "get_sym_at_raw m' p_symtab so (h_symt_size (read_header m hp))
      = get_sym_at_raw m p_symtab so (h_symt_size (read_header m hp))" if "unat so < 2 ^ 31 - 1"
    by (rule c(5) [OF _ that])
qed

text \<open>An entry that is neither of the two base-additive forms has a small symbol index.\<close>

lemma not_base_form_index:
  assumes "\<not> is_abs32 so" and "\<not> is_code_base so"
  shows "unat so < 2 ^ 31 - 1"
proof -
  have nb: "\<not> bit so k" if "so AND push_bit k 1 = 0" "k < 32" for k
  proof
    assume "bit so k"
    then have "bit (so AND push_bit k 1) k" using that(2) by (simp add: bit_simps)
    then show False using that(1) by simp
  qed
  have b: "\<not> bit so 31" "\<not> bit so 30"
    using assms nb [of 31] nb [of 30] by (simp_all add: acc_defs)
  have "so = take_bit 30 so"
  proof (rule bit_word_eqI)
    fix n assume "n < LENGTH(32)"
    then have "n < 30 \<or> n = 30 \<or> n = 31" by auto
    then show "bit so n = bit (take_bit 30 so) n" using b by (auto simp: bit_simps)
  qed
  then have "unat so = take_bit 30 (unat so)" by (metis unsigned_take_bit_eq)
  moreover have "take_bit 30 (unat so) < 2 ^ 30" by (rule take_bit_nat_less_exp)
  ultimately show ?thesis by simp
qed


lemma reloc_step_effect:
  assumes ok: "slots_ok m pm tab hp rels p_symtab" and res: "resolves_to x f pm w"
    and ag: "agree_off (slots m pm tab rels (unat (h_num_rels (read_header m hp)))) m m'"
    and i: "i < unat (h_num_rels (read_header m hp))"
    and unread: "slot_target m pm tab rels i \<noteq> NULL \<Longrightarrow>
      rd32 m' (slot_target m pm tab rels i) = rd32 m (slot_target m pm tab rels i)"
  shows "reloc_step x pm hp rels p_symtab tab False i (UDYNLINK_OK, w\<lparr>w_mem := m'\<rparr>) =
    (case slot_effect f m pm tab hp rels p_symtab i of
       Inl e \<Rightarrow> (e, w\<lparr>w_mem := m'\<rparr>)
     | Inr None \<Rightarrow> (UDYNLINK_OK, w\<lparr>w_mem := m'\<rparr>)
     | Inr (Some (p, v)) \<Rightarrow> (UDYNLINK_OK, w\<lparr>w_mem := wr32 m' p v\<rparr>))"
proof -
  note meta = walk_agree [OF ok ag i]
  have u: "\<not> is_sectioned (read_header m (p_header pm))" "v_num tab = 0"
    using ok by (simp_all add: slots_ok_def Let_def)
  note cong = untagged_cong [OF meta(2) u]
  have tg: "get_reloc_target m' pm tab (reloc_lot_offset m rels i) = slot_target m pm tab rels i"
    by (simp add: cong slot_target_def)
  let ?so = "reloc_symt_offset m rels i"
  show ?thesis
  proof (cases "is_abs32 ?so \<or> is_code_base ?so")
    case True
    then show ?thesis using unread
      by (auto simp: reloc_step_def reloc_in_place_def slot_effect_def Let_def meta(1,3,4) tg cong(1,2,4) set_word_def)
  next
    case False
    then have so: "unat ?so < 2 ^ 31 - 1" by (intro not_base_form_index) auto
    show ?thesis
    proof (cases "get_sym_at_raw m p_symtab ?so (h_symt_size (read_header m hp))")
      case None
      then show ?thesis using False
        by (simp add: reloc_step_def slot_effect_def Let_def meta(1,3,4) meta(5) [OF so])
    next
      case (Some s)
      have st: "reloc_step x pm hp rels p_symtab tab False i (UDYNLINK_OK, w\<lparr>w_mem := m'\<rparr>) =
        (if slot_target m pm tab rels i = NULL then (ERR_LOAD_BAD_RELOCATION_TABLE, w\<lparr>w_mem := m'\<rparr>)
         else reloc_symbol x pm tab False s (slot_target m pm tab rels i) (w\<lparr>w_mem := m'\<rparr>))"
        using False Some by (simp add: reloc_step_def Let_def meta(1,3,4) meta(5) [OF so] tg)
      have own: "own_address m' pm tab False s = Some (s_val (offset_sym m pm s))"
        by (simp add: own_address_def cong)
      have rs: "resolve_symbol x pm nm (w\<lparr>w_mem := mm\<rparr>) = (f nm, w\<lparr>w_mem := mm\<rparr>)" for nm mm
        using res by (simp add: resolves_to_def resolve_symbol_eq)
      show ?thesis unfolding st using False Some
        by (auto simp: slot_effect_def Let_def reloc_symbol_def own rs wr32_wr32_same
            acc_defs word_gt_0)
    qed
  qed
qed

text \<open>A walk whose effects go to the words of their entries.\<close>

definition to_slots :: "(nat \<Rightarrow> 'e + (addr \<times> u32) option) \<Rightarrow> mem \<Rightarrow> udynlink_module_t \<Rightarrow> sect_view_t \<Rightarrow> addr \<Rightarrow> bool" where
  "to_slots e m pm tab rels \<longleftrightarrow>
     (\<forall>i p v. e i = Inr (Some (p, v)) \<longrightarrow> p = slot_target m pm tab rels i \<and> p \<noteq> NULL)"

lemma walk_frame:
  assumes t: "to_slots e m pm tab rels" and "k \<le> n"
  shows "agree_off (slots m pm tab rels n) m (written e k m)"
  unfolding agree_off_def
proof (intro allI impI)
  fix a assume a: "a \<notin> slots m pm tab rels n"
  show "written e k m a = m a"
  proof (rule written_frame)
    fix j p v assume j: "j < k" "e j = Inr (Some (p, v))"
    then have "p = slot_target m pm tab rels j" "p \<noteq> NULL" using t by (auto simp: to_slots_def)
    then have "blk p 4 \<subseteq> slots m pm tab rels n"
      using slot_subset [of j n m pm tab rels] j(1) assms(2) by auto
    then show "a \<notin> blk p 4" using a by blast
  qed
qed

lemma walk_slot_unwritten:
  assumes t: "to_slots e m pm tab rels" and ok: "slots_ok m pm tab hp rels p_symtab"
    and i: "i < unat (h_num_rels (read_header m hp))" and nn: "slot_target m pm tab rels i \<noteq> NULL"
  shows "rd32 (written e i m) (slot_target m pm tab rels i) = rd32 m (slot_target m pm tab rels i)"
proof (rule rd32_cong, rule written_frame)
  fix a j p v
  assume a: "a \<in> blk (slot_target m pm tab rels i) 4" and j: "j < i" and e: "e j = Inr (Some (p, v))"
  have p: "p = slot_target m pm tab rels j" "slot_target m pm tab rels j \<noteq> NULL" using t e by (auto simp: to_slots_def)
  have "blk (slot_target m pm tab rels i) 4 \<inter> blk (slot_target m pm tab rels j) 4 = {}"
    by (rule slots_ok_distinct [OF ok i _ _ nn p(2)]) (use i j in auto)
  then show "a \<notin> blk p 4" using a p by blast
qed

lemma walk_slot_written:
  assumes t: "to_slots e m pm tab rels" and ok: "slots_ok m pm tab hp rels p_symtab"
    and i: "i < unat (h_num_rels (read_header m hp))" and e: "e i = Inr (Some (p, v))"
  shows "rd32 (written e (unat (h_num_rels (read_header m hp))) m) p = v"
proof (rule written_slot [of i _ e, OF i e])
  fix j q u assume j: "j < unat (h_num_rels (read_header m hp))" "j \<noteq> i" "e j = Inr (Some (q, u))"
  have "p = slot_target m pm tab rels i \<and> p \<noteq> NULL" "q = slot_target m pm tab rels j \<and> q \<noteq> NULL"
    using t e j(3) by (auto simp: to_slots_def)
  then show "blk p 4 \<inter> blk q 4 = {}" using slots_ok_distinct [OF ok i j(1)] j(2) by metis
qed

lemma walk_slot_kept:
  assumes t: "to_slots e m pm tab rels" and ok: "slots_ok m pm tab hp rels p_symtab"
    and i: "i < unat (h_num_rels (read_header m hp))" and nn: "slot_target m pm tab rels i \<noteq> NULL"
    and e: "\<And>p v. e i \<noteq> Inr (Some (p, v))"
  shows "rd32 (written e (unat (h_num_rels (read_header m hp))) m) (slot_target m pm tab rels i)
    = rd32 m (slot_target m pm tab rels i)"
proof (rule rd32_cong, rule written_frame)
  fix a j p v
  assume a: "a \<in> blk (slot_target m pm tab rels i) 4" and j: "j < unat (h_num_rels (read_header m hp))" and ej: "e j = Inr (Some (p, v))"
  have p: "p = slot_target m pm tab rels j" "slot_target m pm tab rels j \<noteq> NULL" using t ej by (auto simp: to_slots_def)
  have "i \<noteq> j" using e ej by auto
  then have "blk (slot_target m pm tab rels i) 4 \<inter> blk (slot_target m pm tab rels j) 4 = {}"
    by (rule slots_ok_distinct [OF ok i j _ nn p(2)])
  then show "a \<notin> blk p 4" using a p by blast
qed

text \<open>The loop over the table: round \<open>i\<close> only has to be followed on memories that differ from the
  initial one in the slots, and hold the initial word in the slot of entry \<open>i\<close>.\<close>

lemma walk_loop:
  fixes m pm tab hp rels
  defines "n \<equiv> unat (h_num_rels (read_header m hp))"
  assumes t: "to_slots e m pm tab rels" and ok: "slots_ok m pm tab hp rels p_symtab"
    and bnd: "\<And>m'. bound (emb m') = h_num_rels (read_header m' hp)"
    and stop: "\<And>m'. \<not> stop (emb m')" "\<And>i er m'. i < n \<Longrightarrow> e i = Inl er \<Longrightarrow> stop (ferr er m')"
    and step: "\<And>i m'. i < n \<Longrightarrow> agree_off (slots m pm tab rels n) m m' \<Longrightarrow>
      (slot_target m pm tab rels i \<noteq> NULL \<Longrightarrow> rd32 m' (slot_target m pm tab rels i) = rd32 m (slot_target m pm tab rels i)) \<Longrightarrow>
      body i (emb m') = (case e i of Inl er \<Rightarrow> ferr er m' | Inr None \<Rightarrow> emb m' | Inr (Some (p, v)) \<Rightarrow> emb (wr32 m' p v))"
  shows "for_u16 bound stop body 0 (emb m) =
    (case find (\<lambda>i. \<exists>er. e i = Inl er) [0..<n] of
       None \<Rightarrow> emb (written e n m) | Some k \<Rightarrow> ferr (projl (e k)) (written e k m))"
proof (rule slot_loop)
  note ag = walk_frame [OF t]
  show "\<not> stop (emb m')" for m' by (rule stop(1))
  show "stop (ferr er m')" if "i < n" "e i = Inl er" for i er m' by (rule stop(2) [OF that])
  show "unat (bound (emb (written e k m))) = n" if "k \<le> n" for k
    using walk_agree(1) [OF ok ag, of k 0] that by (cases n) (simp_all add: bnd n_def)
  show "body i (emb (written e i m)) = (case e i of Inl er \<Rightarrow> ferr er (written e i m) | Inr _ \<Rightarrow> emb (written e (Suc i) m))"
    if i: "i < n" for i
    using step [OF i ag walk_slot_unwritten [OF t ok i [unfolded n_def]]] i
    by (auto split: sum.splits option.splits)
qed

lemma slot_effect_to_slots: "to_slots (slot_effect f m pm tab hp rels p_symtab) m pm tab rels"
  using slot_effect_target unfolding to_slots_def by blast

text \<open>The whole walk: it ends with the first failing entry's error, or applies every effect.\<close>

lemma walk_effects:
  assumes ok: "slots_ok (w_mem w) pm tab hp rels p_symtab" and res: "resolves_to x f pm w"
  defines "e \<equiv> slot_effect f (w_mem w) pm tab hp rels p_symtab"
    and "n \<equiv> unat (h_num_rels (read_header (w_mem w) hp))"
  shows "for_u16 (\<lambda>st. h_num_rels (read_header (w_mem (snd st)) hp)) (\<lambda>st. fst st \<noteq> UDYNLINK_OK)
      (reloc_step x pm hp rels p_symtab tab False) 0 (UDYNLINK_OK, w) =
    (case find (\<lambda>i. \<exists>er. e i = Inl er) [0..<n] of
       None \<Rightarrow> (UDYNLINK_OK, w\<lparr>w_mem := written e n (w_mem w)\<rparr>)
     | Some k \<Rightarrow> (projl (e k), w\<lparr>w_mem := written e k (w_mem w)\<rparr>))"
proof -
  have "for_u16 (\<lambda>st. h_num_rels (read_header (w_mem (snd st)) hp)) (\<lambda>st. fst st \<noteq> UDYNLINK_OK)
      (reloc_step x pm hp rels p_symtab tab False) 0 ((\<lambda>m. (UDYNLINK_OK, w\<lparr>w_mem := m\<rparr>)) (w_mem w)) =
    (case find (\<lambda>i. \<exists>er. e i = Inl er) [0..<n] of
       None \<Rightarrow> (\<lambda>m. (UDYNLINK_OK, w\<lparr>w_mem := m\<rparr>)) (written e n (w_mem w))
     | Some k \<Rightarrow> (\<lambda>er m. (er, w\<lparr>w_mem := m\<rparr>)) (projl (e k)) (written e k (w_mem w)))"
    unfolding n_def
  proof (rule walk_loop [OF slot_effect_to_slots [of f "w_mem w" pm tab hp rels p_symtab, folded e_def] ok])
    show "fst (er, w\<lparr>w_mem := m'\<rparr>) \<noteq> UDYNLINK_OK" if "e i = Inl er" for i er m'
      using slot_effect_error that by (simp add: e_def)
  qed (use reloc_step_effect [OF ok res] in \<open>simp_all add: e_def\<close>)
  then show ?thesis by simp
qed

lemma untagged_relocation:
  assumes sec: "\<not> is_sectioned (read_header (w_mem w) hp)" and tab: "get_sectab (w_mem w) hp False = (err, tab)"
    and ok: "slots_ok (w_mem w) pm tab hp rels p_symtab" and res: "resolves_to x f pm w"
    and r: "udynlink_load_apply_relocations x pm hp rels p_symtab w = (result, w')"
  shows "let m = w_mem w; n = unat (h_num_rels (read_header m hp));
           eff = slot_effect f m pm tab hp rels p_symtab
    in (\<forall>a. a \<notin> slots m pm tab rels n \<longrightarrow> w_mem w' a = m a) \<and> w_calls w' = w_calls w
       \<and> (case find (\<lambda>i. \<exists>er. eff i = Inl er) [0..<n] of
            None \<Rightarrow> result = UDYNLINK_OK
              \<and> (\<forall>i < n. \<forall>p v. eff i = Inr (Some (p, v)) \<longrightarrow> rd32 (w_mem w') p = v)
          | Some k \<Rightarrow> eff k = Inl result \<and> result \<noteq> UDYNLINK_OK)"
proof -
  define e where "e = slot_effect f (w_mem w) pm tab hp rels p_symtab"
  define n where "n = unat (h_num_rels (read_header (w_mem w) hp))"
  have "v_num tab = 0" using ok by (simp add: slots_ok_def Let_def)
  then have eq: "(result, w') = (case find (\<lambda>i. \<exists>er. e i = Inl er) [0..<n] of
       None \<Rightarrow> (UDYNLINK_OK, w\<lparr>w_mem := written e n (w_mem w)\<rparr>)
     | Some k \<Rightarrow> (projl (e k), w\<lparr>w_mem := written e k (w_mem w)\<rparr>))"
    using r walk_effects [OF ok res] sec unfolding e_def n_def
    by (simp add: udynlink_load_apply_relocations_def tab)
  note t = slot_effect_to_slots [of f "w_mem w" pm tab hp rels p_symtab, folded e_def]
  have fr: "written e k (w_mem w) a = w_mem w a" if "k \<le> n" "a \<notin> slots (w_mem w) pm tab rels n" for k a
    using walk_frame [OF t that(1)] that(2) by (simp add: agree_off_def)
  have hit: "rd32 (written e n (w_mem w)) p = v" if "i < n" "e i = Inr (Some (p, v))" for i p v
    using walk_slot_written [OF t ok] that unfolding n_def by blast
  show ?thesis
  proof (cases "find (\<lambda>i. \<exists>er. e i = Inl er) [0..<n]")
    case None
    then show ?thesis using eq fr hit by (simp add: Let_def e_def [symmetric] n_def [symmetric])
  next
    case (Some k)
    then obtain er where k: "k < n" "e k = Inl er" by (auto simp: find_upt_Some)
    then have "er \<noteq> UDYNLINK_OK" by (auto simp: e_def dest: slot_effect_error)
    then show ?thesis using eq fr k Some by (simp add: Let_def e_def [symmetric] n_def [symmetric])
  qed
qed

text \<open>C3: relocating an untagged module at load time. When the relocated words are disjoint from
  each other and from the metadata and the host resolves by name, the result is that of the
  first entry in error, if any; otherwise every entry's word holds exactly what the entry asks
  for (own address, host override, in-place sum), and no other byte has changed.\<close>

theorem untagged_relocation_correct:
  assumes sec: "\<not> is_sectioned (read_header (w_mem w) hp)" and tab: "get_sectab (w_mem w) hp False = (err, tab)"
    and ok: "slots_ok (w_mem w) pm tab hp rels p_symtab" and res: "resolves_to x f pm w"
    and r: "udynlink_load_apply_relocations x pm hp rels p_symtab w = (result, w')"
  shows "let m = w_mem w; n = unat (h_num_rels (read_header m hp));
           eff = slot_effect f m pm tab hp rels p_symtab
    in (\<forall>a. a \<notin> slots m pm tab rels n \<longrightarrow> w_mem w' a = m a) \<and> w_calls w' = w_calls w
       \<and> (case find (\<lambda>i. \<exists>er. eff i = Inl er) [0..<n] of
            None \<Rightarrow> result = UDYNLINK_OK
              \<and> (\<forall>i < n. \<forall>p v. eff i = Inr (Some (p, v)) \<longrightarrow> rd32 (w_mem w') p = v)
          | Some k \<Rightarrow> eff k = Inl result \<and> result \<noteq> UDYNLINK_OK)"
  by (rule untagged_relocation [OF assms])

text \<open>The example image loaded for execution in place, with its RAM block right behind it.\<close>

definition placed_with :: "u32 list \<Rightarrow> mem" where
  "placed_with ws = mem_words 0x1000 (plain_image @ ws)"

abbreviation placed_mem :: mem where
  "placed_mem \<equiv> placed_with [0, 0, 0x0000000C, 0x00000002]"

definition placed_module :: udynlink_module_t where
  "placed_module = LOAD_SET_MODE LOAD_MODE_XIP (empty_module\<lparr>p_header := 0x1000, p_ram := 0x107C\<rparr>)"

definition untagged_view :: sect_view_t where
  "untagged_view = \<lparr>v_entries = NULL, v_pool = 0x1040, v_num = 0\<rparr>"

lemma placed_header: "read_header (placed_with ws) 0x1000 = read_header plain_mem 0x1000"
  unfolding plain_header by (simp add: read_header_def placed_with_def words_eval plain_image_def)

lemma placed_module:
  "p_header placed_module = 0x1000" "p_ram placed_module = 0x107C" "LOAD_GET_MODE placed_module = LOAD_MODE_XIP"
  by (simp_all add: placed_module_def LOAD_SET_MODE_def LOAD_GET_MODE_def empty_module_def acc_defs)

lemma placed_untagged: "\<not> is_sectioned (read_header (placed_with ws) 0x1000)"
  by (simp add: placed_header plain_header is_sectioned_def acc_defs)

lemma placed_sectab: "get_sectab (placed_with ws) 0x1000 False = (UDYNLINK_OK, untagged_view)"
  by (simp add: get_sectab_def placed_header plain_header untagged_view_def get_sym_table_pointer_def
      get_header_size_def acc_defs Let_def)

lemma placed_pointers:
  "get_data_pointer (placed_with ws) placed_module = 0x1084" "get_code_pointer (placed_with ws) placed_module = 0x106C"
  using placed_untagged
  by (simp_all add: get_data_pointer_def get_code_pointer_def placed_module placed_header plain_header Let_def
      get_code_offset_from_header_def get_symtab_end_offset_def get_num_sections_raw_def get_header_size_def
      is_sectioned_def acc_defs)

lemma placed_rels:
  "reloc_lot_offset (placed_with ws) 0x1020 0 = 0" "reloc_lot_offset (placed_with ws) 0x1020 (Suc 0) = 1"
  "reloc_lot_offset (placed_with ws) 0x1020 2 = 2" "reloc_lot_offset (placed_with ws) 0x1020 3 = 3"
  "reloc_symt_offset (placed_with ws) 0x1020 0 = 1" "reloc_symt_offset (placed_with ws) 0x1020 (Suc 0) = 3"
  "reloc_symt_offset (placed_with ws) 0x1020 2 = 0x80000008" "reloc_symt_offset (placed_with ws) 0x1020 3 = 0x40000000"
  by (simp_all add: reloc_lot_offset_def reloc_symt_offset_def placed_with_def words_eval plain_image_def)

lemma placed_targets:
  "slot_target (placed_with ws) placed_module untagged_view 0x1020 0 = 0x107C"
  "slot_target (placed_with ws) placed_module untagged_view 0x1020 (Suc 0) = 0x1080"
  "slot_target (placed_with ws) placed_module untagged_view 0x1020 2 = 0x1084"
  "slot_target (placed_with ws) placed_module untagged_view 0x1020 3 = 0x1088"
  by (simp_all add: slot_target_def get_reloc_target_def placed_rels placed_module placed_header plain_header
      placed_pointers untagged_view_def Let_def word_less_nat_alt word_le_nat_alt)

lemma less_4: "i < 4 \<longleftrightarrow> i = 0 \<or> i = Suc 0 \<or> i = 2 \<or> i = (3::nat)"
  by auto

lemma placed_words:
  "rd32 (placed_with ws) 0x1040 = 4" "rd32 (placed_with ws) 0x104C = 0x48000026" "rd32 (placed_with ws) 0x1050 = 4"
  "rd32 (placed_with ws) 0x105C = 0x1000002A" "rd32 (placed_with ws) 0x1060 = 0"
  "ws = a # b # c # d # us \<Longrightarrow> rd32 (placed_with ws) 0x1084 = c" "ws = a # b # c # d # us \<Longrightarrow> rd32 (placed_with ws) 0x1088 = d"
  by (simp_all add: placed_with_def words_eval plain_image_def)

lemma placed_slots_ok: "slots_ok (placed_with ws) placed_module untagged_view 0x1000 0x1020 0x1040"
proof -
  have n: "unat (h_num_rels (read_header (placed_with ws) 0x1000)) = 4" "h_symt_size (read_header (placed_with ws) 0x1000) = 44"
    "h_num_rels (read_header (placed_with ws) 0x1000) = 4"
    by (simp_all add: placed_header plain_header)
  have sub: "blk (0x107C + 0) 4 \<subseteq> blk 0x107C 16" "blk (0x107C + 4) 4 \<subseteq> blk 0x107C 16"
    "blk (0x107C + 8) 4 \<subseteq> blk 0x107C 16" "blk (0x107C + 12) 4 \<subseteq> blk 0x107C 16"
    by (rule sub_blk, simp)+
  have "slots (placed_with ws) placed_module untagged_view 0x1020 4 \<subseteq> blk 0x107C 16"
    unfolding slots_def using sub by (auto simp: less_4 placed_targets simp del: mem_blk)
  moreover have "blk 0x1000 32 \<inter> blk 0x107C 16 = {}" "blk 0x1020 32 \<inter> blk 0x107C 16 = {}" "blk 0x1040 44 \<inter> blk 0x107C 16 = {}"
    using disjoint_sub_blks [of 0 32 "0x7C" 16 "0x1000"] disjoint_sub_blks [of 0 32 "0x5C" 16 "0x1020"]
      disjoint_sub_blks [of 0 44 "0x3C" 16 "0x1040"] by simp_all
  ultimately have sep: "slots (placed_with ws) placed_module untagged_view 0x1020 4
      \<inter> walk_metadata (placed_with ws) placed_module 0x1000 0x1020 0x1040 = {}"
    unfolding walk_metadata_def by (simp add: n placed_module) blast
  have "blk (0x107C + 4 * of_nat i) 4 \<inter> blk (0x107C + 4 * of_nat j) 4 = {}" if "i < j" "j < 4" for i j
    by (rule disjoint_sub_blks) (use that in \<open>simp_all add: unat_word_ariths\<close>)
  note lt = this
  have "blk (0x107C + 4 * of_nat i) 4 \<inter> blk (0x107C + 4 * of_nat j) 4 = {}" if "i \<noteq> j" "i < 4" "j < 4" for i j
    using that lt [of i j] lt [of j i] by (metis Int_commute nat_neq_iff)
  moreover have "slot_target (placed_with ws) placed_module untagged_view 0x1020 i = 0x107C + 4 * of_nat i" if "i < 4" for i
    using that by (auto simp: less_4 placed_targets)
  ultimately show ?thesis
    unfolding slots_ok_def Let_def n placed_module using sep placed_untagged
    by (simp add: untagged_view_def)
qed


lemmas sym_kinds = UDYNLINK_SYM_TYPE_INTERNAL_def UDYNLINK_SYM_TYPE_EXPORTED_def UDYNLINK_SYM_TYPE_EXTERN_def
  UDYNLINK_SYM_TYPE_MODULE_NAME_def UDYNLINK_SYM_TYPE_WEAK_def UDYNLINK_SYM_LOCATION_CODE_def
  UDYNLINK_SYM_LOCATION_DATA_def UDYNLINK_SYM_DEFERRED_def

theorem untagged_relocation_correct_witness:
  "\<exists>w'. udynlink_load_apply_relocations bump_host placed_module 0x1000 0x1020 0x1040 (start_world placed_mem)
      = (UDYNLINK_OK, w')
    \<and> map (rd32 (w_mem w')) [0x107C, 0x1080, 0x1084, 0x1088] = [0x1070, 0x777, 0x1088, 0x106E]"
proof -
  let ?w = "start_world placed_mem"
  obtain result w' where r: "udynlink_load_apply_relocations bump_host placed_module 0x1000 0x1020 0x1040 ?w = (result, w')"
    by (cases "udynlink_load_apply_relocations bump_host placed_module 0x1000 0x1020 0x1040 ?w") auto
  define e where "e = slot_effect (\<lambda>_. 0x777) placed_mem placed_module untagged_view 0x1000 0x1020 0x1040"
  have m: "w_mem ?w = placed_mem" by (simp add: start_world_def)
  have sym: "get_sym_at_raw placed_mem 0x1040 1 44 = Some \<lparr>s_name = In_memory 0x1066, s_val = 4, s_type = 1, s_location = 0\<rparr>"
    "get_sym_at_raw placed_mem 0x1040 3 44 = Some \<lparr>s_name = In_memory 0x106A, s_val = 0, s_type = 2, s_location = 1\<rparr>"
    by (simp_all add: get_sym_at_raw_def placed_words sym_type_of_def sym_location_of_def acc_defs Let_def
        word_le_nat_alt word_less_nat_alt)
  have e: "e 0 = Inr (Some (0x107C, 0x1070))" "e (Suc 0) = Inr (Some (0x1080, 0x777))"
    "e 2 = Inr (Some (0x1084, 0x1088))" "e 3 = Inr (Some (0x1088, 0x106E))"
    using placed_untagged
    by (simp_all add: e_def slot_effect_def placed_rels placed_targets placed_pointers placed_words placed_header
        plain_header sym offset_sym_def placed_module is_abs32_def is_code_base_def sym_kinds Let_def word_less_nat_alt)
  have n: "unat (h_num_rels (read_header placed_mem 0x1000)) = 4" by (simp add: placed_header plain_header)
  have "find (\<lambda>i. \<exists>er. e i = Inl er) [0..<4] = None" by (auto simp: find_upt_None less_4 e)
  moreover have "resolves_to bump_host (\<lambda>_. 0x777) placed_module ?w"
    by (simp add: resolves_to_def bump_host_def)
  ultimately have "result = UDYNLINK_OK \<and> (\<forall>i < 4. \<forall>p v. e i = Inr (Some (p, v)) \<longrightarrow> rd32 (w_mem w') p = v)"
    using untagged_relocation_correct [of ?w "0x1000" UDYNLINK_OK untagged_view placed_module "0x1020" "0x1040"
        bump_host "\<lambda>_. 0x777" result w'] r placed_untagged placed_sectab placed_slots_ok
    unfolding m Let_def n e_def [symmetric] by simp
  then show ?thesis using r e by (auto simp: less_4)
qed

section \<open>Rebasing an untagged module\<close>

text \<open>By how much entry \<open>i\<close> moves its word: the data or code delta for a pointer into the module,
  nothing for extern words and for weak words the host has overridden.\<close>

definition rebase_shift ::
  "mem \<Rightarrow> udynlink_module_t \<Rightarrow> sect_view_t \<Rightarrow> u32 \<Rightarrow> u32 \<Rightarrow> addr \<Rightarrow> addr \<Rightarrow> nat \<Rightarrow> u32" where
  "rebase_shift m pm tab code_delta data_delta old_code old_data i =
     (let rels = get_relocs_pointer m pm; so = reloc_symt_offset m rels i
      in if is_abs32 so then data_delta
         else if is_code_base so then code_delta
         else case get_sym_at m (p_header pm) so of
             None \<Rightarrow> 0
           | Some s \<Rightarrow>
               let code = (s_location s = UDYNLINK_SYM_LOCATION_CODE);
                   delta = (if code then code_delta else data_delta);
                   default = (if code then old_code else old_data) + s_val s
               in if s_type s = UDYNLINK_SYM_TYPE_INTERNAL \<or> s_type s = UDYNLINK_SYM_TYPE_EXPORTED then delta
                  else if s_type s = UDYNLINK_SYM_TYPE_WEAK
                       \<and> rd32 m (slot_target m pm tab rels i) = default then delta
                  else 0)"

text \<open>A loaded module's table: well-behaved words, each entry with a target, no base-additive
  entry in the offset table.\<close>

definition rebase_ok :: "mem \<Rightarrow> udynlink_module_t \<Rightarrow> sect_view_t \<Rightarrow> bool" where
  "rebase_ok m pm tab \<longleftrightarrow>
     (let hp = p_header pm; rels = get_relocs_pointer m pm; h = read_header m hp
      in slots_ok m pm tab hp rels (get_sym_table_pointer m hp)
         \<and> (\<forall>i < unat (h_num_rels h). slot_target m pm tab rels i \<noteq> NULL
             \<and> (is_abs32 (reloc_symt_offset m rels i) \<or> is_code_base (reloc_symt_offset m rels i)
                 \<longrightarrow> \<not> reloc_lot_offset m rels i < ucast (h_num_lot h))))"

lemma slot_target_lot:
  assumes "slot_target m pm tab rels i \<noteq> NULL" and "v_num tab = 0"
  shows "slot_target m pm tab rels i =
    (if reloc_lot_offset m rels i < ucast (h_num_lot (read_header m (p_header pm)))
     then p_ram pm + 4 * reloc_lot_offset m rels i
     else get_data_pointer m pm + 4 * (reloc_lot_offset m rels i - ucast (h_num_lot (read_header m (p_header pm)))))"
  using assms by (auto simp: slot_target_def get_reloc_target_def Let_def split: if_splits)

lemma rd32_bytes:
  "ucast (rd32 m p) = m p" "ucast (drop_bit 8 (rd32 m p)) = m (p + 1)"
  "ucast (drop_bit 16 (rd32 m p)) = m (p + 2)" "ucast (drop_bit 24 (rd32 m p)) = m (p + 3)"
  by (rule bit_word_eqI, (auto simp: rd32_def bit_simps dest: bit_imp_le_length)[1])+

lemma rd32_same_wr32: "wr32 m p (rd32 m p) = m"
  by (rule ext) (simp add: wr32_def rd32_bytes)

lemma rebase_step_effect:
  assumes ok: "rebase_ok m pm tab"
    and ag: "agree_off (slots m pm tab (get_relocs_pointer m pm) (unat (h_num_rels (read_header m (p_header pm))))) m m'"
    and i: "i < unat (h_num_rels (read_header m (p_header pm)))"
    and p: "p = slot_target m pm tab (get_relocs_pointer m pm) i" and unread: "rd32 m' p = rd32 m p"
  shows "rebase_step pm (get_relocs_pointer m pm) (p_ram pm) (get_data_pointer m pm)
      (ucast (h_num_lot (read_header m (p_header pm)))) code_delta data_delta old_code old_data i m' =
    wr32 m' p (rd32 m p + rebase_shift m pm tab code_delta data_delta old_code old_data i)"
proof -
  let ?rels = "get_relocs_pointer m pm" and ?h = "read_header m (p_header pm)"
  let ?so = "reloc_symt_offset m ?rels i"
  have sok: "slots_ok m pm tab (p_header pm) ?rels (get_sym_table_pointer m (p_header pm))"
    and nn: "slot_target m pm tab ?rels i \<noteq> NULL"
    and lot: "is_abs32 ?so \<or> is_code_base ?so \<Longrightarrow> \<not> reloc_lot_offset m ?rels i < ucast (h_num_lot ?h)"
    using ok i by (auto simp: rebase_ok_def Let_def)
  have v: "v_num tab = 0" using sok by (simp add: slots_ok_def Let_def)
  note meta = walk_agree [OF sok ag i]
  have st: "get_sym_table_pointer m' (p_header pm) = get_sym_table_pointer m (p_header pm)"
    by (simp add: get_sym_table_pointer_def meta(1))
  note tg = slot_target_lot [OF nn v]
  have keep: "wr32 m' p (rd32 m p) = m'" using rd32_same_wr32 [of m' p] unread by simp
  show ?thesis
  proof (cases "is_abs32 ?so \<or> is_code_base ?so")
    case True
    have "p = get_data_pointer m pm + 4 * (reloc_lot_offset m ?rels i - ucast (h_num_lot ?h))"
      using tg lot [OF True] p by simp
    then show ?thesis using True unread
      by (auto simp: rebase_step_def rebase_shift_def Let_def meta(3,4) add_word_def)
  next
    case False
    then have so: "unat ?so < 2 ^ 31 - 1" by (intro not_base_form_index) auto
    have pt: "(if reloc_lot_offset m ?rels i < ucast (h_num_lot ?h) then p_ram pm + 4 * reloc_lot_offset m ?rels i
       else get_data_pointer m pm + 4 * (reloc_lot_offset m ?rels i - ucast (h_num_lot ?h))) = p"
      using tg p by simp
    have g: "get_sym_at_raw m' (get_sym_table_pointer m' (p_header pm)) ?so (h_symt_size (read_header m' (p_header pm)))
        = get_sym_at m (p_header pm) ?so"
      by (simp add: st meta(1) meta(5) [OF so] get_sym_at_def)
    show ?thesis
    proof (cases "get_sym_at m (p_header pm) ?so")
      case None
      then show ?thesis using False by (simp add: rebase_step_def rebase_shift_def Let_def meta(3,4) g keep)
    next
      case (Some s)
      then have "rebase_step pm ?rels (p_ram pm) (get_data_pointer m pm) (ucast (h_num_lot ?h)) code_delta data_delta
          old_code old_data i m' =
        (let code = (s_location s = UDYNLINK_SYM_LOCATION_CODE); delta = (if code then code_delta else data_delta)
         in if s_type s = UDYNLINK_SYM_TYPE_INTERNAL \<or> s_type s = UDYNLINK_SYM_TYPE_EXPORTED then add_word m' p delta
            else if s_type s = UDYNLINK_SYM_TYPE_WEAK then
              (if rd32 m' p = (if code then old_code else old_data) + s_val s then add_word m' p delta else m')
            else m')"
        using False unfolding rebase_step_def Let_def meta(3,4) g pt by simp
      then show ?thesis
        using False Some by (simp add: rebase_shift_def Let_def p [symmetric] add_word_def unread keep)
    qed
  qed
qed


lemma rebase_effects:
  assumes ok: "rebase_ok m pm tab"
    and m': "m' = rebase_module_pointers pm code_delta data_delta old_code old_data m"
  shows "let rels = get_relocs_pointer m pm; n = unat (h_num_rels (read_header m (p_header pm)))
    in (\<forall>a. a \<notin> slots m pm tab rels n \<longrightarrow> m' a = m a)
       \<and> (\<forall>i < n. rd32 m' (slot_target m pm tab rels i) = rd32 m (slot_target m pm tab rels i)
            + rebase_shift m pm tab code_delta data_delta old_code old_data i)"
proof -
  define rels where "rels = get_relocs_pointer m pm"
  define n where "n = unat (h_num_rels (read_header m (p_header pm)))"
  define tgt where "tgt = slot_target m pm tab rels"
  define e :: "nat \<Rightarrow> unit + (addr \<times> u32) option" where
    "e = (\<lambda>i. if tgt i = NULL then Inr None
       else Inr (Some (tgt i, rd32 m (tgt i) + rebase_shift m pm tab code_delta data_delta old_code old_data i)))"
  have sok: "slots_ok m pm tab (p_header pm) rels (get_sym_table_pointer m (p_header pm))"
    and nn: "\<And>i. i < n \<Longrightarrow> tgt i \<noteq> NULL"
    using ok by (auto simp: rebase_ok_def Let_def rels_def n_def tgt_def)
  have t: "to_slots e m pm tab rels" by (simp add: to_slots_def e_def tgt_def)
  have "for_u16 (\<lambda>m. h_num_rels (read_header m (p_header pm))) (\<lambda>_. False)
      (rebase_step pm rels (p_ram pm) (get_data_pointer m pm) (ucast (h_num_lot (read_header m (p_header pm))))
        code_delta data_delta old_code old_data) 0 ((\<lambda>m. m) m) =
    (case find (\<lambda>i. \<exists>er. e i = Inl er) [0..<n] of None \<Rightarrow> (\<lambda>m. m) (written e n m) | Some k \<Rightarrow> (\<lambda>_ m. m) (projl (e k)) (written e k m))"
    unfolding n_def
  proof (rule walk_loop [OF t sok])
    fix i m' assume i: "i < unat (h_num_rels (read_header m (p_header pm)))"
      and ag: "agree_off (slots m pm tab rels (unat (h_num_rels (read_header m (p_header pm))))) m m'"
      and un: "slot_target m pm tab rels i \<noteq> NULL \<Longrightarrow> rd32 m' (slot_target m pm tab rels i) = rd32 m (slot_target m pm tab rels i)"
    show "rebase_step pm rels (p_ram pm) (get_data_pointer m pm) (ucast (h_num_lot (read_header m (p_header pm))))
        code_delta data_delta old_code old_data i m' =
      (case e i of Inl er \<Rightarrow> m' | Inr None \<Rightarrow> m' | Inr (Some (p, v)) \<Rightarrow> wr32 m' p v)"
      using rebase_step_effect [OF ok ag [unfolded rels_def] i refl] un nn [OF i [folded n_def]]
      by (simp add: e_def tgt_def rels_def)
  qed (simp_all add: e_def split: if_splits)
  moreover have "find (\<lambda>i. \<exists>er. e i = Inl er) [0..<n] = None" by (simp add: find_upt_None e_def)
  ultimately have eq: "m' = written e n m"
    by (simp add: m' rebase_module_pointers_def Let_def rels_def)
  have "rd32 m' (tgt i) = rd32 m (tgt i) + rebase_shift m pm tab code_delta data_delta old_code old_data i" if i: "i < n" for i
    unfolding eq n_def by (rule walk_slot_written [OF t sok i [unfolded n_def]]) (use nn [OF i] in \<open>simp add: e_def\<close>)
  then show ?thesis using walk_frame [OF t order_refl, of n]
    by (simp add: Let_def eq agree_off_def rels_def [symmetric] n_def [symmetric] tgt_def [symmetric])
qed

text \<open>C4: rebasing an untagged module after a move adds to each relocated word exactly the delta
  of the region it points into, leaves extern words and overridden weak words alone, and
  changes no byte outside the relocated words.\<close>

theorem rebase_module_pointers_correct:
  assumes ok: "rebase_ok m pm tab"
    and m': "m' = rebase_module_pointers pm code_delta data_delta old_code old_data m"
  shows "let rels = get_relocs_pointer m pm; n = unat (h_num_rels (read_header m (p_header pm)))
    in (\<forall>a. a \<notin> slots m pm tab rels n \<longrightarrow> m' a = m a)
       \<and> (\<forall>i < n. rd32 m' (slot_target m pm tab rels i) = rd32 m (slot_target m pm tab rels i)
            + rebase_shift m pm tab code_delta data_delta old_code old_data i)"
  by (rule rebase_effects [OF assms])

lemma placed_syms:
  "get_sym_at_raw (placed_with ws) 0x1040 1 44 = Some \<lparr>s_name = In_memory 0x1066, s_val = 4, s_type = 1, s_location = 0\<rparr>"
  "get_sym_at_raw (placed_with ws) 0x1040 3 44 = Some \<lparr>s_name = In_memory 0x106A, s_val = 0, s_type = 2, s_location = 1\<rparr>"
  by (simp_all add: get_sym_at_raw_def placed_words sym_type_of_def sym_location_of_def acc_defs Let_def
      word_le_nat_alt word_less_nat_alt)

lemma placed_tables:
  "get_relocs_pointer (placed_with ws) placed_module = 0x1020" "get_sym_table_pointer (placed_with ws) 0x1000 = 0x1040"
  by (simp_all add: get_relocs_pointer_def get_sym_table_pointer_def placed_module placed_header plain_header
      get_header_size_def acc_defs Let_def)

lemma placed_rebase_ok: "rebase_ok (placed_with ws) placed_module untagged_view"
  using placed_slots_ok
  by (auto simp: rebase_ok_def Let_def placed_module placed_tables placed_header plain_header less_4
      placed_targets placed_rels is_abs32_def is_code_base_def word_less_nat_alt)

theorem rebase_module_pointers_correct_witness:
  "map (rd32 (rebase_module_pointers placed_module 0x40 0x100 0x106C 0x1084 placed_mem)) [0x107C, 0x1080, 0x1084, 0x1088]
    = [0x40, 0, 0x10C, 0x42]"
proof -
  have raw: "rd32 placed_mem 0x107C = 0" "rd32 placed_mem 0x1080 = 0"
    by (simp_all add: placed_with_def words_eval plain_image_def)
  have n: "unat (h_num_rels (read_header placed_mem (p_header placed_module))) = 4"
    by (simp add: placed_module placed_header plain_header)
  have sh: "map (rebase_shift placed_mem placed_module untagged_view 0x40 0x100 0x106C 0x1084) [0, Suc 0, 2, 3]
      = [0x40, 0, 0x100, 0x40]"
    by (simp add: rebase_shift_def placed_tables placed_rels get_sym_at_def placed_module placed_header plain_header
        placed_syms is_abs32_def is_code_base_def sym_kinds Let_def)
  note r = rebase_module_pointers_correct [OF placed_rebase_ok [of "[0, 0, 0x0000000C, 0x00000002]"] refl, of "0x40" "0x100" "0x106C" "0x1084",
      unfolded Let_def n placed_tables, THEN conjunct2, rule_format]
  show ?thesis
    using r [of 0] r [of "Suc 0"] r [of 2] r [of 3] sh by (simp add: placed_targets raw placed_words)
qed

end
