(* ===== verification/Lookup.thy ===== *)
theory Lookup
  imports Load
begin

text \<open>
  Post-load symbol queries: \<open>udynlink_lookup_symbol\<close> (bisection over the named entries, or
  the linear fallback), the queries built on it, and the call layer of
  \<open>udynlink/udynlink_call.h\<close> that switches r9 around a module call. The name looked up is
  the caller's pointer: it is compared by the bytes it points at and handed on to the
  resolver as it is.
\<close>

section \<open>Lookup by name\<close>

text \<open>What both searches do with the entry they have found; the resolver is asked for the caller's
  \<open>name\<close>.\<close>

definition finish_lookup ::
  "'h externals \<Rightarrow> udynlink_module_t \<Rightarrow> cname \<Rightarrow> udynlink_sym_t \<Rightarrow> 'h world
   \<Rightarrow> udynlink_sym_t \<times> 'h world" where
  "finish_lookup x pm name s0 w =
     (let s = offset_sym (w_mem w) pm s0
      in if s_type s = UDYNLINK_SYM_TYPE_WEAK then
           (let (sym_addr, w') = resolve_symbol x pm name w
            in if sym_addr = UDYNLINK_SYM_DEFERRED then (s, w')
               else if sym_addr > 0 then (s\<lparr>s_val := sym_addr\<rparr>, w')
               else (s, w'))
         else (s, w))"

text \<open>The bisection over \<open>[lo, hi]\<close>, returning the raw entry.\<close>

function bsearch :: "mem \<Rightarrow> addr \<Rightarrow> u8 list \<Rightarrow> nat \<Rightarrow> nat \<Rightarrow> udynlink_sym_t option" where
  "bsearch m hp name lo hi =
     (if lo \<le> hi then
        let mid = lo + (hi - lo) div 2
        in case get_sym_at m hp (of_nat mid) of
             None \<Rightarrow> None
           | Some s \<Rightarrow>
               let cmp = strcmp (name_bytes m (s_name s)) name
               in if cmp = 0 then Some s
                  else if cmp < 0 then bsearch m hp name (mid + 1) hi
                  else if mid = 0 then None
                  else bsearch m hp name lo (mid - 1)
      else None)"
  by pat_completeness auto
termination
  by (relation "measure (\<lambda>(m, hp, name, lo, hi). Suc hi - lo)") auto

declare bsearch.simps [simp del]

text \<open>The linear search stops at the first index without an entry; the table of an image
  holds fewer than \<open>2 ^ 30\<close> entries, which bounds the loop.\<close>

function lsearch :: "mem \<Rightarrow> addr \<Rightarrow> u8 list \<Rightarrow> nat \<Rightarrow> udynlink_sym_t option" where
  "lsearch m hp name idx =
     (if idx < 4294967296 then
        case get_sym_at m hp (of_nat idx) of
          None \<Rightarrow> None
        | Some s \<Rightarrow>
            if s_type s \<noteq> UDYNLINK_SYM_TYPE_INTERNAL \<and> strcmp (name_bytes m (s_name s)) name = 0
            then Some s
            else lsearch m hp name (idx + 1)
      else None)"
  by pat_completeness auto
termination
  by (relation "measure (\<lambda>(m, hp, name, idx). 4294967296 - idx)") auto

declare lsearch.simps [simp del]

definition udynlink_lookup_symbol ::
  "'h externals \<Rightarrow> udynlink_module_t option \<Rightarrow> cname \<Rightarrow> 'h world
   \<Rightarrow> udynlink_sym_t option \<times> 'h world" where
  "udynlink_lookup_symbol x p_mod name w =
     (case p_mod of None \<Rightarrow> (None, w)
      | Some pm \<Rightarrow>
          (case (if num_named_syms pm > 0
                 then bsearch (w_mem w) (p_header pm) (name_bytes (w_mem w) name) 1 (unat (num_named_syms pm))
                 else lsearch (w_mem w) (p_header pm) (name_bytes (w_mem w) name) 1) of
             None \<Rightarrow> (None, w)
           | Some s0 \<Rightarrow> let (s, w') = finish_lookup x pm name s0 w in (Some s, w')))"

definition udynlink_get_symbol_value ::
  "'h externals \<Rightarrow> udynlink_module_t option \<Rightarrow> cname \<Rightarrow> 'h world \<Rightarrow> u32 \<times> 'h world" where
  "udynlink_get_symbol_value x p_mod name w =
     (case udynlink_lookup_symbol x p_mod name w of
        (None, w') \<Rightarrow> (0, w') | (Some s, w') \<Rightarrow> (s_val s, w'))"

definition udynlink_is_symbol_resolved ::
  "'h externals \<Rightarrow> udynlink_module_t option \<Rightarrow> cname option \<Rightarrow> 'h world \<Rightarrow> bool \<times> 'h world" where
  "udynlink_is_symbol_resolved x p_mod sym_name w =
     (case (p_mod, sym_name) of
        (Some pm, Some nm) \<Rightarrow>
          (case udynlink_lookup_symbol x (Some pm) nm w of
             (None, w') \<Rightarrow> (False, w') | (Some s, w') \<Rightarrow> (s_val s \<noteq> 0, w'))
      | _ \<Rightarrow> (False, w))"

section \<open>Enumeration\<close>

definition udynlink_get_symbol_count :: "mem \<Rightarrow> udynlink_module_t option \<Rightarrow> u32" where
  "udynlink_get_symbol_count m p_mod =
     (case p_mod of None \<Rightarrow> 0 | Some pm \<Rightarrow>
        if p_header pm = NULL then 0
        else bounded_sym_count m (get_sym_table_pointer m (p_header pm))
               (h_symt_size (read_header m (p_header pm))))"

definition udynlink_get_symbol :: "mem \<Rightarrow> udynlink_module_t option \<Rightarrow> u32 \<Rightarrow> udynlink_sym_t option" where
  "udynlink_get_symbol m p_mod index =
     (case p_mod of None \<Rightarrow> None | Some pm \<Rightarrow>
        if p_header pm = NULL then None
        else map_option (offset_sym m pm) (get_sym_at m (p_header pm) index))"

section \<open>Calling into a module\<close>

record udynlink_func_t =
  f_mod :: "udynlink_module_t option"
  f_addr :: u32
  f_name :: "cname option"

definition null_func :: udynlink_func_t where
  "null_func = \<lparr>f_mod = None, f_addr = 0, f_name = None\<rparr>"

text \<open>The handle after the call (the code zeroes it first) with the result code.\<close>

definition udynlink_resolve_func ::
  "'h externals \<Rightarrow> udynlink_module_t option \<Rightarrow> cname option \<Rightarrow> 'h world
   \<Rightarrow> udynlink_error_t \<times> udynlink_func_t \<times> 'h world" where
  "udynlink_resolve_func x p_mod name w =
     (case (p_mod, name) of
        (Some pm, Some nm) \<Rightarrow>
          (case udynlink_lookup_symbol x (Some pm) nm w of
             (None, w') \<Rightarrow> (ERR_LOAD_UNKNOWN_SYMBOL, null_func, w')
           | (Some s, w') \<Rightarrow>
               (UDYNLINK_OK, \<lparr>f_mod = Some pm, f_addr = s_val s, f_name = Some nm\<rparr>, w'))
      | _ \<Rightarrow> (ERR_INVALID_MODULE, null_func, w))"

text \<open>A module function is machine code: \<open>run a (r9, w)\<close> is its effect, with the register r9
  it is entered with and whatever it leaves there.\<close>

type_synonym ('r, 'h) machine_call = "addr \<Rightarrow> u32 \<times> 'h world \<Rightarrow> 'r \<times> u32 \<times> 'h world"

definition UDYNLINK_PREPARE_CALL :: "udynlink_module_t \<Rightarrow> u32 \<times> 'h world \<Rightarrow> u32 \<times> 'h world" where
  "UDYNLINK_PREPARE_CALL pm st = (p_ram pm, snd st)"

definition UDYNLINK_CALL ::
  "('r, 'h) machine_call \<Rightarrow> udynlink_module_t \<Rightarrow> addr \<Rightarrow> u32 \<times> 'h world \<Rightarrow> 'r \<times> u32 \<times> 'h world" where
  "UDYNLINK_CALL run pm a st =
     (let prev_r9 = fst st;
          (result, r9, w) = run a (UDYNLINK_PREPARE_CALL pm st)
      in (result, prev_r9, w))"

definition UDYNLINK_SET_R9 :: "udynlink_module_t \<Rightarrow> u32 \<times> 'h world \<Rightarrow> u32 \<times> 'h world" where
  "UDYNLINK_SET_R9 pm st = (p_ram pm, snd st)"

definition UDYNLINK_CALL_VOID ::
  "(unit, 'h) machine_call \<Rightarrow> udynlink_module_t \<Rightarrow> addr \<Rightarrow> u32 \<times> 'h world \<Rightarrow> u32 \<times> 'h world" where
  "UDYNLINK_CALL_VOID run pm a st =
     (let prev_r9 = fst st; st1 = snd (run a (UDYNLINK_PREPARE_CALL pm st))
      in (prev_r9, snd st1))"

definition UDYNLINK_CALL_MODULE_FUNC ::
  "'h externals \<Rightarrow> ('r::zero, 'h) machine_call \<Rightarrow> udynlink_module_t option \<Rightarrow> cname option
   \<Rightarrow> u32 \<times> 'h world \<Rightarrow> udynlink_error_t \<times> 'r \<times> u32 \<times> 'h world" where
  "UDYNLINK_CALL_MODULE_FUNC x run p_mod name st =
     (case udynlink_resolve_func x p_mod name (snd st) of
        (err, f, w') \<Rightarrow>
          (case f_mod f of
             Some pm \<Rightarrow> (err, UDYNLINK_CALL run pm (f_addr f) (fst st, w'))
           | None \<Rightarrow> (err, 0, fst st, w')))"

text \<open>The bytes of \<open>"__init_array"\<close>.\<close>

definition init_array_name :: "u8 list" where
  "init_array_name = [0x5F, 0x5F, 0x69, 0x6E, 0x69, 0x74, 0x5F, 0x61, 0x72, 0x72, 0x61, 0x79]"

definition udynlink_cpp_init ::
  "'h externals \<Rightarrow> (unit, 'h) machine_call \<Rightarrow> udynlink_module_t option \<Rightarrow> u32 \<times> 'h world
   \<Rightarrow> u32 \<times> 'h world" where
  "udynlink_cpp_init x run p_mod st =
     (case udynlink_lookup_symbol x p_mod (Literal init_array_name) (snd st) of
        (None, w') \<Rightarrow> (fst st, w')
      | (Some s, w') \<Rightarrow>
          (case p_mod of None \<Rightarrow> (fst st, w')
           | Some pm \<Rightarrow> snd (UDYNLINK_CALL run pm (s_val s) (fst st, w'))))"

text \<open>What runs inside the module: \<open>__init_array\<close> of \<open>scripts/cpp_init_fini.c\<close> calls the functions of
  two linker-made arrays of code pointers, each from its first to its last entry.\<close>

definition init_calls ::
  "(unit, 'h) machine_call \<Rightarrow> addr \<Rightarrow> addr \<Rightarrow> u32 \<times> 'h world \<Rightarrow> u32 \<times> 'h world" where
  "init_calls run arr_start arr_end st =
     fold (\<lambda>i st. snd (run (rd32 (w_mem (snd st)) (arr_start + 4 * of_nat i)) st))
       [0..<unat ((arr_end - arr_start) div 4)] st"

definition init_array ::
  "(unit, 'h) machine_call \<Rightarrow> addr \<Rightarrow> addr \<Rightarrow> addr \<Rightarrow> addr \<Rightarrow> u32 \<times> 'h world \<Rightarrow> u32 \<times> 'h world" where
  "init_array run pre_start pre_end init_start init_end st =
     init_calls run init_start init_end (init_calls run pre_start pre_end st)"

section \<open>Bisection\<close>

text \<open>A search procedure that follows the bisection of \<open>udynlink_lookup_symbol\<close> over a table of
  keyed entries: its interface is the unfolding of one round.\<close>

locale bisection =
  fixes ent :: "'t \<Rightarrow> nat \<Rightarrow> 'e option" and key :: "'t \<Rightarrow> 'e \<Rightarrow> u8 list"
    and search :: "'t \<Rightarrow> u8 list \<Rightarrow> nat \<Rightarrow> nat \<Rightarrow> 'e option"
  assumes search_round: "search t k lo hi =
     (if lo \<le> hi then
        let mid = lo + (hi - lo) div 2
        in case ent t mid of None \<Rightarrow> None
           | Some s \<Rightarrow>
               let cmp = strcmp (key t s) k
               in if cmp = 0 then Some s
                  else if cmp < 0 then search t k (mid + 1) hi
                  else if mid = 0 then None else search t k lo (mid - 1)
      else None)"
begin

definition table :: "'t \<Rightarrow> nat \<Rightarrow> nat \<Rightarrow> (nat \<Rightarrow> 'e) \<Rightarrow> bool" where
  "table t lo hi e \<longleftrightarrow> (\<forall>i. lo \<le> i \<and> i \<le> hi \<longrightarrow> ent t i = Some (e i))
     \<and> (\<forall>i j. lo \<le> i \<and> i \<le> j \<and> j \<le> hi \<longrightarrow> strcmp (key t (e i)) (key t (e j)) \<le> 0)"

lemma table_sub: "table t lo hi e \<Longrightarrow> lo \<le> lo' \<Longrightarrow> hi' \<le> hi \<Longrightarrow> table t lo' hi' e"
  unfolding table_def by (meson le_trans)

lemma search_correct:
  assumes "table t lo hi e"
  shows "case search t k lo hi of
      Some s \<Rightarrow> \<exists>i. lo \<le> i \<and> i \<le> hi \<and> s = e i \<and> key t s = k
    | None \<Rightarrow> \<forall>i. lo \<le> i \<and> i \<le> hi \<longrightarrow> key t (e i) \<noteq> k"
  using assms
proof (induction "Suc hi - lo" arbitrary: lo hi rule: less_induct)
  case less
  show ?case
  proof (cases "lo \<le> hi")
    case False
    then show ?thesis by (auto simp: search_round [of t k lo hi])
  next
    case True
    define mid where "mid = lo + (hi - lo) div 2"
    have mid: "lo \<le> mid" "mid \<le> hi" using True by (auto simp: mid_def)
    have em: "ent t mid = Some (e mid)" using less.prems mid by (simp add: table_def)
    have ord: "\<And>i j. lo \<le> i \<Longrightarrow> i \<le> j \<Longrightarrow> j \<le> hi \<Longrightarrow> strcmp (key t (e i)) (key t (e j)) \<le> 0"
      using less.prems by (simp add: table_def)
    have sr: "search t k lo hi = (let cmp = strcmp (key t (e mid)) k
               in if cmp = 0 then Some (e mid)
                  else if cmp < 0 then search t k (mid + 1) hi
                  else if mid = 0 then None else search t k lo (mid - 1))"
      using True em by (subst search_round) (simp add: mid_def [symmetric])
    consider "strcmp (key t (e mid)) k = 0" | "strcmp (key t (e mid)) k < 0" | "strcmp (key t (e mid)) k > 0"
      by linarith
    then show ?thesis
    proof cases
      case 1
      then show ?thesis using mid sr by auto
    next
      case 2
      have s: "search t k lo hi = search t k (mid + 1) hi" using 2 sr by auto
      have "table t (mid + 1) hi e" by (rule table_sub [OF less.prems]) (use mid in simp_all)
      note IH = less.hyps [OF _ this]
      have low: "key t (e i) \<noteq> k" if "lo \<le> i" "i \<le> mid" for i
        using ord [of i mid] 2 mid that strcmp_less_trans [of "key t (e i)" "key t (e mid)" k] by auto
      have d: "Suc hi - (mid + 1) < Suc hi - lo" using mid by linarith
      show ?thesis
      proof (cases "search t k (mid + 1) hi")
        case None
        have "key t (e i) \<noteq> k" if "lo \<le> i" "i \<le> hi" for i
          using IH [OF d] low [of i] None that by (cases "i \<le> mid") auto
        then show ?thesis unfolding s None by simp
      next
        case (Some r)
        with IH [OF d] obtain i where "mid + 1 \<le> i" "i \<le> hi" "r = e i" "key t r = k" by auto
        then show ?thesis using Some mid unfolding s by (auto intro!: exI [of _ i])
      qed
    next
      case 3
      have high: "key t (e i) \<noteq> k" if "mid \<le> i" "i \<le> hi" for i
      proof
        assume k: "key t (e i) = k"
        have "strcmp (key t (e mid)) (key t (e i)) \<le> 0" using ord [of mid i] mid that by simp
        then show False using 3 k by simp
      qed
      show ?thesis
      proof (cases "mid = 0")
        case True
        then show ?thesis using sr 3 high mid by auto
      next
        case False
        have s: "search t k lo hi = search t k lo (mid - 1)" using 3 False sr by auto
        have "table t lo (mid - 1) e" by (rule table_sub [OF less.prems]) (use mid in simp_all)
        note IH = less.hyps [OF _ this]
        have d: "Suc (mid - 1) - lo < Suc hi - lo" using mid False by linarith
        show ?thesis
        proof (cases "search t k lo (mid - 1)")
          case None
          have "key t (e i) \<noteq> k" if "lo \<le> i" "i \<le> hi" for i
            using IH [OF d] high [of i] None that False by (cases "mid \<le> i") auto
          then show ?thesis unfolding s None by simp
        next
          case (Some r)
          with IH [OF d] obtain i where "lo \<le> i" "i \<le> mid - 1" "r = e i" "key t r = k" by auto
          then show ?thesis using Some mid unfolding s by (auto intro!: exI [of _ i])
        qed
      qed
    qed
  qed
qed

end

interpretation named: bisection
  "\<lambda>(m, hp) i. get_sym_at m hp (of_nat i)" "\<lambda>(m, hp) s. name_bytes m (s_name s)"
  "\<lambda>(m, hp) name lo hi. bsearch m hp name lo hi"
proof (unfold_locales, goal_cases)
  case (1 t k lo hi)
  obtain m hp where t: "t = (m, hp)" by (cases t)
  show ?case unfolding t prod.case by (rule bsearch.simps)
qed

section \<open>Well-formed symbol tables\<close>

text \<open>The table a build emits: its entries and the names of its named entries lie inside
  \<open>symt_size\<close> bytes, and there are at most \<open>2 ^ 16\<close> of them.\<close>

definition symtab_ok :: "mem \<Rightarrow> addr \<Rightarrow> bool" where
  "symtab_ok m hp \<longleftrightarrow>
     (let p = get_sym_table_pointer m hp; sz = h_symt_size (read_header m hp); n = unat (rd32 m p)
      in n \<le> 65536 \<and> 8 * n + 4 \<le> unat sz
         \<and> (\<forall>i \<in> {1..<n}. entry_type m p i = UDYNLINK_SYM_TYPE_INTERNAL \<or> name_closed m p sz i))"

definition entry_sym :: "mem \<Rightarrow> addr \<Rightarrow> nat \<Rightarrow> udynlink_sym_t" where
  "entry_sym m hp i = the (get_sym_at m hp (of_nat i))"

lemma get_sym_at_ok:
  assumes ok: "symtab_ok m hp" and i: "1 \<le> i" "i < unat (rd32 m (get_sym_table_pointer m hp))"
  shows "get_sym_at m hp (of_nat i) = Some (entry_sym m hp i)"
    and "s_type (entry_sym m hp i) = entry_type m (get_sym_table_pointer m hp) i"
    and "s_type (entry_sym m hp i) \<noteq> UDYNLINK_SYM_TYPE_INTERNAL
      \<Longrightarrow> name_bytes m (s_name (entry_sym m hp i)) = name_at m (get_sym_table_pointer m hp) i"
proof -
  let ?p = "get_sym_table_pointer m hp" and ?sz = "h_symt_size (read_header m hp)"
  have b: "unat (rd32 m ?p) \<le> 65536" "8 * unat (rd32 m ?p) + 4 \<le> unat ?sz"
    using ok by (simp_all add: symtab_ok_def Let_def)
  have u: "unat (of_nat i :: u32) = i" using i b by simp
  have g: "\<not> of_nat i * 2 + 2 \<ge> ?sz div 4"
    using entry_guard [of "of_nat i" ?sz] u i b by simp
  have c: "\<not> of_nat i \<ge> rd32 m ?p" using u i by (simp add: word_le_nat_alt)
  have z: "(of_nat i :: u32) \<noteq> 0" using u i by (metis not_one_le_zero unat_0)
  have w: "\<not> ?sz div 4 < 1" using b i by (simp add: word_less_nat_alt unat_div not_less)
  have nc: "entry_type m ?p i \<noteq> UDYNLINK_SYM_TYPE_INTERNAL \<Longrightarrow>
      \<not> rd32 m (?p + 4 * (of_nat i * 2 + 1)) AND UDYNLINK_SYM_OFFSET_MASK \<ge> ?sz"
    using ok i by (auto simp: symtab_ok_def Let_def name_closed_def name_off_at_def)
  have e: "\<exists>s. get_sym_at m hp (of_nat i) = Some s"
    unfolding get_sym_at_def get_sym_at_raw_def Let_def using w c g z nc by simp
  then show s: "get_sym_at m hp (of_nat i) = Some (entry_sym m hp i)" by (auto simp: entry_sym_def)
  note d = get_sym_at_raw_SomeD [OF s [unfolded get_sym_at_def]]
  show "s_type (entry_sym m hp i) = entry_type m ?p i" by (rule d(4))
  show "s_type (entry_sym m hp i) \<noteq> UDYNLINK_SYM_TYPE_INTERNAL
      \<Longrightarrow> name_bytes m (s_name (entry_sym m hp i)) = name_at m ?p i"
    using d(6) by (simp add: name_at_def name_off_at_def)
qed

lemma get_sym_at_end:
  assumes "rd32 m (get_sym_table_pointer m hp) \<le> i"
  shows "get_sym_at m hp i = None"
  using assms by (simp add: get_sym_at_def get_sym_at_raw_def Let_def)

text \<open>The linear search returns the first named entry with the name.\<close>

lemma lsearch_spec:
  fixes m hp name
  assumes ok: "symtab_ok m hp" and "1 \<le> i" and "i \<le> unat (rd32 m (get_sym_table_pointer m hp))"
  defines "hit \<equiv> \<lambda>j. s_type (entry_sym m hp j) \<noteq> UDYNLINK_SYM_TYPE_INTERNAL
    \<and> name_bytes m (s_name (entry_sym m hp j)) = name"
  shows "case lsearch m hp name i of
      None \<Rightarrow> \<forall>j. i \<le> j \<and> j < unat (rd32 m (get_sym_table_pointer m hp)) \<longrightarrow> \<not> hit j
    | Some s \<Rightarrow> \<exists>j \<ge> i. j < unat (rd32 m (get_sym_table_pointer m hp)) \<and> hit j \<and> s = entry_sym m hp j"
  using assms(2,3)
proof (induction "unat (rd32 m (get_sym_table_pointer m hp)) - i" arbitrary: i)
  case 0
  let ?n = "rd32 m (get_sym_table_pointer m hp)"
  have "i = unat ?n" using 0 by simp
  then have "get_sym_at m hp (of_nat i) = None" by (intro get_sym_at_end) simp
  then have "lsearch m hp name i = None" by (simp add: lsearch.simps [of m hp name i])
  then show ?case using 0 by auto
next
  case (Suc k)
  let ?n = "unat (rd32 m (get_sym_table_pointer m hp))"
  have i: "i < ?n" using Suc by simp
  moreover have "?n \<le> 65536" using ok by (simp add: symtab_ok_def Let_def)
  ultimately have lt: "i < 4294967296" by linarith
  have l: "lsearch m hp name i = (if hit i then Some (entry_sym m hp i) else lsearch m hp name (i + 1))"
    using get_sym_at_ok(1) [OF ok Suc.prems(1) i] lt
    by (simp add: lsearch.simps [of m hp name i] hit_def)
  show ?case
  proof (cases "hit i")
    case True
    then show ?thesis using l i by auto
  next
    case False
    have IH: "case lsearch m hp name (i + 1) of
        None \<Rightarrow> \<forall>j. i + 1 \<le> j \<and> j < ?n \<longrightarrow> \<not> hit j
      | Some s \<Rightarrow> \<exists>j \<ge> i + 1. j < ?n \<and> hit j \<and> s = entry_sym m hp j"
      by (rule Suc.hyps(1)) (use Suc.hyps(2) Suc.prems i in auto)
    show ?thesis
    proof (cases "lsearch m hp name (i + 1)")
      case None
      have "\<not> hit j" if "i \<le> j" "j < ?n" for j
        using that False IH None by (cases "j = i") auto
      then show ?thesis using l False None by simp
    next
      case (Some s)
      with IH obtain j where "i + 1 \<le> j" "j < ?n" "hit j" "s = entry_sym m hp j" by auto
      then show ?thesis using l False Some by (auto intro!: exI [of _ j])
    qed
  qed
qed

lemma named_table:
  assumes ok: "symtab_ok m hp" and n: "compute_num_named_syms m hp = n" "0 < n"
  shows "named.table (m, hp) 1 (unat n) (entry_sym m hp)"
    and "\<And>i. 1 \<le> i \<Longrightarrow> i \<le> unat n \<Longrightarrow> i < unat (rd32 m (get_sym_table_pointer m hp))
      \<and> s_type (entry_sym m hp i) \<noteq> UDYNLINK_SYM_TYPE_INTERNAL
      \<and> name_bytes m (s_name (entry_sym m hp i)) = name_at m (get_sym_table_pointer m hp) i"
    and "\<And>i. unat n < i \<Longrightarrow> i < unat (rd32 m (get_sym_table_pointer m hp))
      \<Longrightarrow> s_type (entry_sym m hp i) = UDYNLINK_SYM_TYPE_INTERNAL"
proof -
  let ?p = "get_sym_table_pointer m hp" and ?sz = "h_symt_size (read_header m hp)"
  have b: "unat (rd32 m ?p) \<le> 65536" "8 * unat (rd32 m ?p) + 4 \<le> unat ?sz"
    using ok by (simp_all add: symtab_ok_def Let_def)
  note c = n(1) [unfolded compute_num_named_syms_def]
  note sp = num_named_split [OF c n(2) b(1)]
  have nm: "i < unat (rd32 m ?p)" "entry_type m ?p i \<noteq> UDYNLINK_SYM_TYPE_INTERNAL"
    if "1 \<le> i" "i \<le> unat n" for i using sp(1) that by auto
  show g: "i < unat (rd32 m ?p) \<and> s_type (entry_sym m hp i) \<noteq> UDYNLINK_SYM_TYPE_INTERNAL
      \<and> name_bytes m (s_name (entry_sym m hp i)) = name_at m ?p i" if "1 \<le> i" "i \<le> unat n" for i
    using get_sym_at_ok(2,3) [OF ok that(1)] nm [OF that] by simp
  have cl: "name_closed m ?p ?sz i" if "1 \<le> i" "i \<le> unat n" for i
    using ok nm [OF that] that by (auto simp: symtab_ok_def Let_def)
  have srt: "strcmp (name_at m ?p i) (name_at m ?p j) \<le> 0" if "1 \<le> i" "i \<le> j" "j \<le> unat n" for i j
    by (rule named_prefix_sorted [OF c n(2) b(1) cl]) (use that in auto)
  show "named.table (m, hp) 1 (unat n) (entry_sym m hp)"
    unfolding named.table_def prod.case
    using get_sym_at_ok(1) [OF ok] nm(1) g srt by simp
  show "s_type (entry_sym m hp i) = UDYNLINK_SYM_TYPE_INTERNAL" if "unat n < i" "i < unat (rd32 m ?p)" for i
    using sp(2) that b get_sym_at_ok(2) [OF ok _ that(2)] by simp
qed

section \<open>Properties\<close>

text \<open>A non-local entry of the table with the given name.\<close>

definition names_entry :: "mem \<Rightarrow> addr \<Rightarrow> u8 list \<Rightarrow> nat \<Rightarrow> bool" where
  "names_entry m hp name i \<longleftrightarrow> 1 \<le> i \<and> i < unat (rd32 m (get_sym_table_pointer m hp))
     \<and> s_type (entry_sym m hp i) \<noteq> UDYNLINK_SYM_TYPE_INTERNAL
     \<and> name_bytes m (s_name (entry_sym m hp i)) = name"

lemma lsearch_names_entry:
  assumes "symtab_ok m hp" and "1 \<le> unat (rd32 m (get_sym_table_pointer m hp))"
  shows "case lsearch m hp name 1 of None \<Rightarrow> \<forall>i. \<not> names_entry m hp name i
    | Some s \<Rightarrow> \<exists>i. names_entry m hp name i \<and> s = entry_sym m hp i"
  using lsearch_spec [OF assms(1) _ assms(2), of name]
  by (auto simp: names_entry_def split: option.splits)

lemma bsearch_names_entry:
  assumes ok: "symtab_ok m hp" and n: "compute_num_named_syms m hp = n" "0 < n"
  shows "case bsearch m hp name 1 (unat n) of None \<Rightarrow> \<forall>i. \<not> names_entry m hp name i
    | Some s \<Rightarrow> \<exists>i. names_entry m hp name i \<and> s = entry_sym m hp i"
proof -
  note tb = named_table [OF assms]
  have sc: "case bsearch m hp name 1 (unat n) of
      None \<Rightarrow> \<forall>i. 1 \<le> i \<and> i \<le> unat n \<longrightarrow> name_bytes m (s_name (entry_sym m hp i)) \<noteq> name
    | Some s \<Rightarrow> \<exists>i. 1 \<le> i \<and> i \<le> unat n \<and> s = entry_sym m hp i \<and> name_bytes m (s_name s) = name"
    using named.search_correct [OF tb(1), of name] by (simp split: option.splits)
  have le: "i \<le> unat n" if "names_entry m hp name i" for i
    using tb(3) [of i] that by (force simp: names_entry_def)
  show ?thesis
  proof (cases "bsearch m hp name 1 (unat n)")
    case None
    then show ?thesis using sc le by (auto simp: names_entry_def)
  next
    case (Some s)
    with sc obtain i where "1 \<le> i" "i \<le> unat n" "s = entry_sym m hp i" "name_bytes m (s_name s) = name"
      by auto
    then show ?thesis using Some tb(2) [of i] by (auto simp: names_entry_def)
  qed
qed

text \<open>The runtime value of an entry as the module itself has it: the link-time value moved with the
  code or data region, or looked up in the section table; entries of the other types keep the
  value stored.\<close>

definition own_value :: "mem \<Rightarrow> udynlink_module_t \<Rightarrow> udynlink_sym_t \<Rightarrow> u32" where
  "own_value m pm e =
     (if s_type e \<notin> {UDYNLINK_SYM_TYPE_INTERNAL, UDYNLINK_SYM_TYPE_EXPORTED, UDYNLINK_SYM_TYPE_WEAK}
      then s_val e
      else if is_sectioned (read_header m (p_header pm)) then
        (case get_sectab m (p_header pm) False of
           (err, tab) \<Rightarrow> if err \<noteq> UDYNLINK_OK then 0
             else (case resolve_runtime_va m pm tab (s_val e) of None \<Rightarrow> 0 | Some a \<Rightarrow> a))
      else if s_location e = UDYNLINK_SYM_LOCATION_CODE then get_code_pointer m pm + s_val e
      else get_data_pointer m pm + s_val e)"

lemma offset_sym_eq: "offset_sym m pm s = s\<lparr>s_val := own_value m pm s\<rparr>"
  by (auto simp: offset_sym_def own_value_def add.commute split: prod.splits option.splits)

lemma finish_lookup_eq:
  "finish_lookup x pm name s w =
     (let (a, wr) = x_resolve x pm name w; own = own_value (w_mem w) pm s
      in if s_type s = UDYNLINK_SYM_TYPE_WEAK
         then (s\<lparr>s_val := if a = 0 \<or> a = UDYNLINK_SYM_DEFERRED then own else a\<rparr>, wr)
         else (s\<lparr>s_val := own\<rparr>, w))"
  by (auto simp: finish_lookup_def offset_sym_eq resolve_symbol_eq Let_def word_gt_0 split: prod.splits)

text \<open>The untagged example image has a well-formed table with three named entries.\<close>

lemma plain_symtab_ok: "symtab_ok plain_mem 0x1000"
proof -
  have "name_closed plain_mem 0x1040 44 i" if "i \<in> {1..<4}" for i
    using that plain_closed [of i] by simp
  then show ?thesis by (simp add: symtab_ok_def plain_pointer plain_words plain_header Let_def)
qed

lemma plain_named_syms: "compute_num_named_syms plain_mem 0x1000 = 3"
  by (simp add: compute_num_named_syms_def plain_pointer plain_header plain_named)

lemma plain_entry_g: "names_entry plain_mem 0x1000 [0x67] 2"
  using get_sym_at_ok [OF plain_symtab_ok, of 2]
  by (simp add: names_entry_def plain_pointer plain_words plain_names acc_defs sym_type_of_def)

text \<open>C20: the bisection over the named prefix and the linear scan return the same entry,
  for a table with distinct names.\<close>

theorem bisection_is_linear_search:
  assumes "symtab_ok m hp" and "compute_num_named_syms m hp = n" and "0 < n"
    and "inj_on (name_at m (get_sym_table_pointer m hp)) {1..unat n}"
  shows "bsearch m hp name 1 (unat n) = lsearch m hp name 1"
proof -
  note tb = named_table [OF assms(1-3)]
  have n1: "1 \<le> unat (rd32 m (get_sym_table_pointer m hp))"
    using tb(2) [of 1] assms(3) by (simp add: word_less_nat_alt)
  have same: "i = j" if "names_entry m hp name i" "names_entry m hp name j" for i j
  proof -
    have r: "i \<in> {1..unat n}" "j \<in> {1..unat n}"
      using tb(3) [of i] tb(3) [of j] that by (force simp: names_entry_def)+
    then have "name_at m (get_sym_table_pointer m hp) i = name_at m (get_sym_table_pointer m hp) j"
      using tb(2) [of i] tb(2) [of j] that by (auto simp: names_entry_def)
    then show ?thesis using assms(4) r by (auto dest: inj_onD)
  qed
  note b = bsearch_names_entry [OF assms(1-3), of name]
  note l = lsearch_names_entry [OF assms(1) n1, of name]
  show ?thesis
  proof (cases "bsearch m hp name 1 (unat n)")
    case None
    then show ?thesis using b l by (auto split: option.splits)
  next
    case (Some s)
    with b obtain i where i: "names_entry m hp name i" "s = entry_sym m hp i" by auto
    with l obtain j where "names_entry m hp name j" "lsearch m hp name 1 = Some (entry_sym m hp j)"
      by (auto split: option.splits)
    then show ?thesis using Some i same [of i j] by simp
  qed
qed

theorem bisection_is_linear_search_witness:
  "bsearch plain_mem 0x1000 [0x67] 1 3 = lsearch plain_mem 0x1000 [0x67] 1"
proof -
  have "{1..unat (3 :: u16)} = {1, 2, 3}" by auto
  then have "inj_on (name_at plain_mem (get_sym_table_pointer plain_mem 0x1000)) {1..unat (3 :: u16)}"
    using plain_names by (simp add: inj_on_def plain_pointer)
  from bisection_is_linear_search [OF plain_symtab_ok plain_named_syms _ this, of "[0x67]"]
  show ?thesis by simp
qed

text \<open>C6: \<open>udynlink_lookup_symbol\<close> on a loaded module finds a name exactly when a non-local
  entry of the symbol table has it, and returns that entry with its runtime value. For a weak
  entry the resolver is asked for the caller's name, and its answer is the value unless it is
  0 or a deferral, when the module's own value stays; for any other entry nothing is called.\<close>

theorem lookup_symbol_correct:
  fixes name w pm
  defines "m \<equiv> w_mem w" and "hp \<equiv> p_header pm"
  assumes "symtab_ok m hp"
    and "num_named_syms pm = compute_num_named_syms m hp"
    and "1 \<le> unat (rd32 m (get_sym_table_pointer m hp))"
  shows "case udynlink_lookup_symbol x (Some pm) name w of
      (None, w') \<Rightarrow> w' = w \<and> (\<forall>i. \<not> names_entry m hp (name_bytes m name) i)
    | (Some s, w') \<Rightarrow> \<exists>i. names_entry m hp (name_bytes m name) i
        \<and> (let e = entry_sym m hp i; (answer, w_asked) = x_resolve x pm name w
           in s_name s = s_name e \<and> s_type s = s_type e \<and> s_location s = s_location e
              \<and> (if s_type e = UDYNLINK_SYM_TYPE_WEAK
                 then w' = w_asked
                   \<and> s_val s = (if answer = 0 \<or> answer = UDYNLINK_SYM_DEFERRED then own_value m pm e else answer)
                 else w' = w \<and> s_val s = own_value m pm e))"
proof -
  define r where "r = (if num_named_syms pm > 0 then bsearch m hp (name_bytes m name) 1 (unat (num_named_syms pm))
                       else lsearch m hp (name_bytes m name) 1)"
  have r: "case r of None \<Rightarrow> \<forall>i. \<not> names_entry m hp (name_bytes m name) i
    | Some s \<Rightarrow> \<exists>i. names_entry m hp (name_bytes m name) i \<and> s = entry_sym m hp i"
    unfolding r_def using bsearch_names_entry [OF assms(3) assms(4) [symmetric]]
      lsearch_names_entry [OF assms(3,5)] by simp
  have l: "udynlink_lookup_symbol x (Some pm) name w = (case r of None \<Rightarrow> (None, w)
      | Some s0 \<Rightarrow> let (s, w') = finish_lookup x pm name s0 w in (Some s, w'))"
    by (simp add: udynlink_lookup_symbol_def r_def m_def hp_def)
  show ?thesis
  proof (cases r)
    case (Some s)
    with r obtain i where i: "names_entry m hp (name_bytes m name) i" "s = entry_sym m hp i" by auto
    show ?thesis unfolding l Some finish_lookup_eq
      using i by (auto simp: Let_def m_def split: prod.splits intro!: exI [of _ i])
  qed (use l r in simp)
qed

theorem lookup_symbol_correct_witness:
  "fst (udynlink_lookup_symbol bump_host (Some (empty_module\<lparr>p_header := 0x1000, num_named_syms := 3\<rparr>))
     (Literal [0x67]) (start_world plain_mem)) \<noteq> None"
  using lookup_symbol_correct [where w = "start_world plain_mem" and x = bump_host and name = "Literal [0x67]"
      and pm = "empty_module\<lparr>p_header := 0x1000, num_named_syms := 3\<rparr>"] plain_symtab_ok plain_named_syms plain_entry_g
  by (auto simp: start_world_def plain_pointer plain_words split: option.splits prod.splits)

end
