(* ===== verification/Keeps.thy ===== *)
theory Keeps
  imports Relocate Lookup
begin

text \<open>
  What an operation of the loader leaves to its environment: every operation changes the world
  only by writing memory and by calling the host, so a property of the world kept by those is
  kept by every operation. The first locale covers the operations that do not allocate (lookups
  and relocation walks), the second adds the allocator's laws and covers loading, unloading and
  moving. The operations are proved to keep the property once, and hosts are shown to obey the
  laws where they are defined.
\<close>

locale writes =
  fixes x :: "'h externals" and I :: "'h world \<Rightarrow> bool"
  assumes mem: "I w \<Longrightarrow> I (w\<lparr>w_mem := m\<rparr>)"
    and resolve: "I w \<Longrightarrow> I (snd (x_resolve x pm name w))"
begin

lemma resolve_eq: "resolve_symbol x pm name w = (a, w') \<Longrightarrow> I w \<Longrightarrow> I w'"
  unfolding resolve_symbol_eq using resolve by (metis snd_conv)

lemma set_word: "I w \<Longrightarrow> I (set_word p v w)"
  unfolding set_word_def by (rule mem)

lemma lookup: "I w \<Longrightarrow> I (snd (udynlink_lookup_symbol x p_mod name w))"
  by (auto simp: udynlink_lookup_symbol_def finish_lookup_def Let_def split: option.splits prod.splits
    dest: resolve_eq)

lemma lookup_eq: "udynlink_lookup_symbol x p_mod name w = (s, w') \<Longrightarrow> I w \<Longrightarrow> I w'"
  using lookup by (metis snd_conv)

lemma reloc_in_place: "I w \<Longrightarrow> I (snd (reloc_in_place pm tab sec lo so w))"
  by (auto simp: reloc_in_place_def Let_def intro: set_word split: option.splits)

lemma reloc_symbol: "I w \<Longrightarrow> I (snd (reloc_symbol x pm tab sec s p w))"
  by (auto simp: reloc_symbol_def Let_def intro!: set_word dest!: resolve_eq split: option.splits prod.splits)

lemma reloc_step: "I (snd st) \<Longrightarrow> I (snd (reloc_step x pm hp pr ps tab sec i st))"
  unfolding reloc_step_def Let_def
  by (auto intro: reloc_in_place reloc_symbol split: option.splits)

lemma apply_relocations: "I w \<Longrightarrow> I (snd (udynlink_load_apply_relocations x pm hp pr ps w))"
  unfolding udynlink_load_apply_relocations_def Let_def
  by (auto split: prod.splits intro: for_u16_inv_simple [where I = "\<lambda>st. I (snd st)"] reloc_step)

lemma apply_relocations_eq: "udynlink_load_apply_relocations x pm hp pr ps w = (res, w') \<Longrightarrow> I w \<Longrightarrow> I w'"
  using apply_relocations by (metis snd_conv)

lemma extern_step: "I w \<Longrightarrow> I (extern_step x pm pr tab inc i w)"
  by (auto simp: extern_step_def Let_def intro!: set_word dest: resolve_eq split: option.splits prod.splits)

lemma extern_relocations: "I w \<Longrightarrow> I (apply_extern_relocations_impl x pm inc w)"
  unfolding apply_extern_relocations_impl_def Let_def
  by (auto split: prod.splits intro: for_u16_inv_simple [where I = I] extern_step)

end

locale keeps = writes +
  assumes malloc: "I w \<Longrightarrow> I (snd (udynlink_external_malloc x sz s a f w))"
    and free: "I w \<Longrightarrow> I (udynlink_external_free x p s a f w)"
begin

lemma malloc_eq: "udynlink_external_malloc x sz s a f w = (p, w') \<Longrightarrow> I w \<Longrightarrow> I w'"
  using malloc by (metis snd_conv)

lemma free_nonmain: "I w \<Longrightarrow> I (free_nonmain_sections x pm tab w)"
proof -
  have "I (free_nonmain_loop x pm tab ks w)" if "I w" for ks w
    using that by (induction ks arbitrary: w) (auto simp: Let_def intro: free)
  then show "I w \<Longrightarrow> I (free_nonmain_sections x pm tab w)" by (simp add: free_nonmain_sections_def)
qed

lemma provision: "load_provision_ram x hp tab al rs la ls pm w = (res, pm', w') \<Longrightarrow> I w \<Longrightarrow> I w'"
  by (auto simp: load_provision_ram_def Let_def intro!: mem free dest: malloc_eq split: if_splits prod.splits)

lemma tagged_loop: "load_tagged_loop x img tab pm ks off w = (res, w') \<Longrightarrow> I w \<Longrightarrow> I w'"
proof (induction ks arbitrary: off w res w')
  case (Cons k ks)
  show ?case
  proof (cases "e_size (sect_entry_at (w_mem w) tab k) = 0")
    case True
    then show ?thesis using Cons by (simp add: Let_def)
  next
    case False
    let ?e = "sect_entry_at (w_mem w) tab k"
    obtain sec w1 where m: "udynlink_external_malloc x (e_size ?e) (sect_name tab ?e) (e_align ?e) (sect_host_flags ?e) w = (sec, w1)"
      by fastforce
    have w1: "I w1" using malloc_eq [OF m Cons.prems(2)] .
    then show ?thesis
      using Cons.prems(1) False m Cons.IH
      by (auto simp: Let_def split: if_splits intro: mem dest: Cons.IH [OF _ mem])
  qed
qed simp

lemma load_sectioned: "load_sectioned x img hp tab md pm w = (res, pm', w') \<Longrightarrow> I w \<Longrightarrow> I w'"
  by (auto simp: load_sectioned_def Let_def intro!: mem dest!: tagged_loop [OF _ mem] split: if_splits prod.splits)

lemma load_fill: "load_fill x img hp tab md pm w = (res, pm', w') \<Longrightarrow> I w \<Longrightarrow> I w'"
  unfolding load_fill_def Let_def
  by (auto split: if_splits prod.splits dest!: load_sectioned apply_relocations_eq intro: mem)

lemma load_exit: "I (snd (snd st)) \<Longrightarrow> I (snd (snd (load_exit x tab al st)))"
  by (cases st) (auto simp: load_exit_def Let_def intro!: free free_nonmain)

lemma load_image: "I w \<Longrightarrow> I (snd (snd (udynlink_load_module_image x p_mod img la ls md w)))"
proof (cases p_mod)
  case (Some pm0)
  assume w: "I w"
  let ?hp = "i_header img" and ?pm = "LOAD_SET_MODE md (pm0\<lparr>p_header := i_header img\<rparr>)"
  obtain res tab al rs where c: "load_checks (w_mem w) ?hp md = (res, tab, al, rs)" by (metis prod_cases4)
  obtain res1 pm1 w1 where p: "load_provision_ram x ?hp tab al rs la ls ?pm w = (res1, pm1, w1)" by (metis prod_cases3)
  have w1: "I w1" by (rule provision [OF p w])
  have "I (snd (snd (load_fill x img ?hp tab md pm1 w1)))" using w1 load_fill by (metis prod.exhaust_sel)
  then show ?thesis
    using Some w w1 by (auto simp: udynlink_load_module_image_def c p Let_def case_prod_beta' intro!: load_exit dest!: arg_cong [where f = "\<lambda>t. snd (snd t)"])
qed (simp add: udynlink_load_module_image_def)

lemma load: "I w \<Longrightarrow> I (snd (snd (udynlink_load_module x p_mod base la ls md w)))"
  unfolding udynlink_load_module_def by (rule load_image)

lemma unload: "I w \<Longrightarrow> I (snd (snd (udynlink_unload_module x p_mod w)))"
  by (auto simp: udynlink_unload_module_def Let_def intro!: free free_nonmain split: option.splits prod.splits)

lemma relocate_provision: "relocate_provision x pm nr ns rs al w = (res, d, pm', w') \<Longrightarrow> I w \<Longrightarrow> I w'"
  by (auto simp: relocate_provision_def dest: malloc_eq split: if_splits prod.splits)

lemma relocate_sectioned: "I w \<Longrightarrow> I (snd (snd (relocate_sectioned x pm nr ns rs mvs w)))"
proof -
  assume w: "I w"
  obtain err tab where t: "get_sectab (w_mem w) (p_header pm) False = (err, tab)" by fastforce
  obtain res d pm1 w1 where p: "relocate_provision x pm nr ns rs (get_main_align (w_mem w) tab) w = (res, d, pm1, w1)"
    by (metis prod_cases4)
  then have "I w1" using w by (rule relocate_provision)
  then show ?thesis using w by (auto simp: relocate_sectioned_def t p Let_def intro!: free mem)
qed

lemma relocate_untagged: "I w \<Longrightarrow> I (snd (snd (relocate_untagged x pm nr ns rs w)))"
proof (cases "nr = NULL")
  case True
  assume w: "I w"
  obtain d w1 where m: "udynlink_external_malloc x rs NULL 4 0 w = (d, w1)" by fastforce
  then have "I w1" using w by (rule malloc_eq)
  then show ?thesis using w True by (auto simp: relocate_untagged_def m Let_def intro!: free mem)
qed (auto simp: relocate_untagged_def Let_def intro!: free mem)

lemma relocate: "I w \<Longrightarrow> I (snd (snd (udynlink_relocate_module x p_mod nr ns w)))"
  by (auto simp: udynlink_relocate_module_def relocate_main_block_def relocate_sectioned relocate_untagged
    case_prod_beta' Let_def split: option.splits)

end

text \<open>The example host obeys the laws: its resolver makes no allocator call, and the next block
  it will hand out stays aligned.\<close>

interpretation bump_calls: writes bump_host "\<lambda>w. w_calls w = calls"
  by unfold_locales (simp_all add: bump_host_def)

interpretation bump: keeps bump_host "\<lambda>w. w_host w AND 15 = 0"
proof (unfold_locales, goal_cases)
  case (3 w sz s a f)
  have "(v AND NOT 15) AND 15 = 0" for v :: u32 by (simp add: and.assoc flip: and.left_commute [of v])
  then show ?case by (simp add: udynlink_external_malloc_def bump_host_def)
qed (simp_all add: udynlink_external_free_def bump_host_def)

end
