(* ===== verification/LoadSpec.thy ===== *)
theory LoadSpec
  imports Load Keeps RelocSpec "HOL-Library.Multiset"
begin

text \<open>
  What loading and unloading do to the allocator and to memory.  The ledger reads the blocks in
  use off the log of allocator calls: a failed load gives back what it took, a successful one
  keeps exactly what the handle owns, and unloading returns it.  The second part follows the
  copying phase of an untagged image in each load mode: the block holds the image's metadata,
  code and data where the accessors of the handle look for them, then zeros.
\<close>

section \<open>The allocation ledger\<close>

text \<open>The blocks the loader owns, read off the log of its allocator calls.\<close>

fun live :: "ext_call list \<Rightarrow> addr multiset" where
  "live [] = {#}"
| "live (Ext_malloc sz s al f p # cs) = (if p = NULL then live cs else add_mset p (live cs))"
| "live (Ext_free p s al f # cs) = live cs - {#p#}"

lemma live_malloc: "udynlink_external_malloc x sz s al f w = (p, w') \<Longrightarrow>
    live (w_calls w') = (if p = NULL then live (w_calls w) else add_mset p (live (w_calls w)))"
  by (auto simp: udynlink_external_malloc_def split: prod.splits)

lemma live_free [simp]: "live (w_calls (udynlink_external_free x p s al f w)) = live (w_calls w) - {#p#}"
  by (simp add: udynlink_external_free_def)

text \<open>A resolver that makes no allocator call of its own.\<close>

definition resolver_quiet :: "'h externals \<Rightarrow> bool" where
  "resolver_quiet x \<longleftrightarrow> (\<forall>pm nm w. w_calls (snd (x_resolve x pm nm w)) = w_calls w)"

lemma quiet_writes: "resolver_quiet x \<Longrightarrow> writes x (\<lambda>w. w_calls w = cs)"
  by unfold_locales (simp_all add: resolver_quiet_def)

text \<open>What the handle owns: its main block, unless it is the caller's.\<close>

definition owned :: "udynlink_module_t \<Rightarrow> addr multiset" where
  "owned pm = (if p_ram pm = NULL \<or> LOAD_IS_FOREIGN_RAM pm then {#} else {#p_ram pm#})"

lemma foreign_flag [simp]:
  "LOAD_IS_FOREIGN_RAM (LOAD_SET_FOREIGN_RAM pm)" "\<not> LOAD_IS_FOREIGN_RAM (LOAD_CLR_FOREIGN_RAM pm)"
  "p_ram (LOAD_SET_FOREIGN_RAM pm) = p_ram pm" "p_ram (LOAD_CLR_FOREIGN_RAM pm) = p_ram pm"
  "p_ram (LOAD_SET_MODE md pm) = p_ram pm"
  "p_header (LOAD_SET_FOREIGN_RAM pm) = p_header pm" "p_header (LOAD_CLR_FOREIGN_RAM pm) = p_header pm"
  "p_header (LOAD_SET_MODE md pm) = p_header pm"
proof -
  have "(v OR m) AND m = m" for v m :: u8 by (simp add: bit.conj_disj_distrib2)
  then show "LOAD_IS_FOREIGN_RAM (LOAD_SET_FOREIGN_RAM pm)"
    by (simp add: LOAD_IS_FOREIGN_RAM_def LOAD_SET_FOREIGN_RAM_def LOAD_FOREIGN_RAM_MASK_def)
  show "\<not> LOAD_IS_FOREIGN_RAM (LOAD_CLR_FOREIGN_RAM pm)"
    by (simp add: LOAD_IS_FOREIGN_RAM_def LOAD_CLR_FOREIGN_RAM_def LOAD_FOREIGN_RAM_MASK_def and.assoc)
qed (simp_all add: LOAD_SET_FOREIGN_RAM_def LOAD_CLR_FOREIGN_RAM_def LOAD_SET_MODE_def)

lemma foreign_p_ram [simp]: "LOAD_IS_FOREIGN_RAM (pm\<lparr>p_ram := a\<rparr>) = LOAD_IS_FOREIGN_RAM pm"
  "LOAD_IS_FOREIGN_RAM (pm\<lparr>p_header := a\<rparr>) = LOAD_IS_FOREIGN_RAM pm"
  "LOAD_IS_FOREIGN_RAM (pm\<lparr>num_named_syms := n\<rparr>) = LOAD_IS_FOREIGN_RAM pm"
  by (simp_all add: LOAD_IS_FOREIGN_RAM_def)

text \<open>Provisioning: what it takes from the allocator is what the handle then owns.\<close>

lemma provision_ledger:
  assumes p: "load_provision_ram x hp tab al rs la ls pm w = (res, pm', w')" and "p_ram pm = NULL"
  shows "live (w_calls w') = live (w_calls w) + (if res = UDYNLINK_OK then owned pm' else {#})"
    and "res \<noteq> UDYNLINK_OK \<Longrightarrow> p_ram pm' = NULL"
    and "res = UDYNLINK_OK \<Longrightarrow> rs > 0 \<Longrightarrow> la \<noteq> NULL \<Longrightarrow> p_ram pm' = la \<and> LOAD_IS_FOREIGN_RAM pm' \<and> ls \<ge> rs"
    and "res = UDYNLINK_OK \<Longrightarrow> rs > 0 \<Longrightarrow> la = NULL \<Longrightarrow> p_ram pm' \<noteq> NULL \<and> \<not> LOAD_IS_FOREIGN_RAM pm'"
    and "res = UDYNLINK_OK \<Longrightarrow> rs > 0 \<Longrightarrow> p_ram pm' AND (al - 1) = 0"
  using p assms(2) by (auto simp: load_provision_ram_def owned_def Let_def live_malloc not_le
    split: if_splits prod.splits)


text \<open>Filling the block makes no allocator call when the image has no tagged section, and keeps
  what the handle owns.\<close>

lemma fill_ledger:
  assumes q: "resolver_quiet x" and small: "v_num tab \<le> 3"
    and f: "load_fill x img hp tab md pm w = (res, pm', w')"
  shows "w_calls w' = w_calls w" and "p_ram pm' = p_ram pm \<and> LOAD_IS_FOREIGN_RAM pm' = LOAD_IS_FOREIGN_RAM pm"
proof -
  note wr = quiet_writes [OF q]
  have loop: "load_tagged_loop x img tab pm [3..<v_num tab] off v = (UDYNLINK_OK, v)" for pm off v
    using small by simp
  have copy: "p_ram (fst (copy_main_sectioned img hp tab md pm m)) = p_ram pm"
    "LOAD_IS_FOREIGN_RAM (fst (copy_main_sectioned img hp tab md pm m)) = LOAD_IS_FOREIGN_RAM pm"
    "p_ram (fst (load_untagged img hp tab md pm m)) = p_ram pm"
    "LOAD_IS_FOREIGN_RAM (fst (load_untagged img hp tab md pm m)) = LOAD_IS_FOREIGN_RAM pm" for m
    by (auto simp: copy_main_sectioned_def load_untagged_def copy_untagged_def Let_def)
  obtain res1 pm1 w1 where b: "(if v_num tab > 0 then load_sectioned x img hp tab md pm w
      else let (pm1, m1) = load_untagged img hp tab md pm (w_mem w)
           in (UDYNLINK_OK, pm1, w\<lparr>w_mem := m1\<rparr>)) = (res1, pm1, w1)"
    by (metis prod_cases3)
  have w1: "w_calls w1 = w_calls w" and pm1: "p_ram pm1 = p_ram pm \<and> LOAD_IS_FOREIGN_RAM pm1 = LOAD_IS_FOREIGN_RAM pm"
    using b copy [of "w_mem w"] by (auto simp: load_sectioned_def loop Let_def case_prod_beta' split: if_splits)
  have r: "w_calls (snd (udynlink_load_apply_relocations x pm1 hp (i_relocations img) (i_symtab img) w1)) = w_calls w"
    by (rule writes.apply_relocations [OF wr w1])
  show "w_calls w' = w_calls w" "p_ram pm' = p_ram pm \<and> LOAD_IS_FOREIGN_RAM pm' = LOAD_IS_FOREIGN_RAM pm"
    using f r w1 pm1 unfolding load_fill_def b by (auto split: if_splits prod.splits)
qed

lemma load_exit_ledger:
  assumes "v_num tab \<le> 3" and "load_exit x tab al (res, pm, w) = (err, pm', w')"
  shows "err = res" and "res \<noteq> UDYNLINK_OK \<Longrightarrow> live (w_calls w') = live (w_calls w) - owned pm \<and> pm' = mark_module_free pm"
    and "res = UDYNLINK_OK \<Longrightarrow> pm' = pm \<and> w' = w"
  using assms by (auto simp: load_exit_def free_nonmain_sections_def owned_def Let_def split: if_splits)

text \<open>The whole load: what it took from the allocator is what the handle owns afterwards.\<close>

lemma load_ledger:
  assumes fresh: "p_ram pm0 = NULL" and q: "resolver_quiet x"
    and small: "v_num (snd (get_sectab (w_mem w) (i_header img) True)) \<le> 3"
    and l: "udynlink_load_module_image x (Some pm0) img la ls md w = (err, Some pm', w')"
  shows "if err = UDYNLINK_OK then live (w_calls w') = live (w_calls w) + owned pm'
    else live (w_calls w') = live (w_calls w) \<and> pm' = mark_module_free pm0"
proof -
  let ?hp = "i_header img" and ?pm = "LOAD_SET_MODE md (pm0\<lparr>p_header := i_header img\<rparr>)"
  obtain res tab al rs where c: "load_checks (w_mem w) ?hp md = (res, tab, al, rs)" by (metis prod_cases4)
  have tab: "v_num tab \<le> 3" using c small by (auto simp: load_checks_def Let_def split: if_splits prod.splits)
  have pm: "p_ram ?pm = NULL" using fresh by simp
  have free: "mark_module_free p = mark_module_free pm0" for p by (simp add: mark_module_free_def)
  have none: "owned p = {#}" if "p_ram p = NULL" for p using that by (simp add: owned_def)
  show ?thesis
  proof (cases "res = UDYNLINK_OK")
    case False
    then have "load_exit x tab al (res, ?pm, w) = (err, pm', w')"
      using l by (auto simp: udynlink_load_module_image_def c Let_def split: prod.splits)
    from load_exit_ledger [OF tab this] show ?thesis using False none [OF pm] free [of ?pm] by simp
  next
    case True
    obtain res1 pm1 w1 where p: "load_provision_ram x ?hp tab al rs la ls ?pm w = (res1, pm1, w1)" by (metis prod_cases3)
    note pl = provision_ledger [OF p pm]
    show ?thesis
    proof (cases "res1 = UDYNLINK_OK")
      case False
      then have "load_exit x tab al (res1, pm1, w1) = (err, pm', w')"
        using l True by (auto simp: udynlink_load_module_image_def c p Let_def split: prod.splits)
      from load_exit_ledger [OF tab this] show ?thesis using False pl none [of pm1] free [of pm1] by simp
    next
      case ok: True
      obtain res2 pm2 w2 where f: "load_fill x img ?hp tab md pm1 w1 = (res2, pm2, w2)" by (metis prod_cases3)
      note fl = fill_ledger [OF q tab f]
      have o: "owned pm2 = owned pm1" using fl(2) by (simp add: owned_def)
      have "load_exit x tab al (res2, pm2, w2) = (err, pm', w')"
        using l True ok by (auto simp: udynlink_load_module_image_def c p f Let_def split: prod.splits)
      from load_exit_ledger [OF tab this] show ?thesis using pl(1) ok fl(1) o free [of pm2] by auto
    qed
  qed
qed

lemma unload_ledger:
  assumes u: "udynlink_unload_module x (Some pm) w = (err, pm2, w2)"
    and hp: "p_header pm \<noteq> NULL" and small: "v_num (snd (get_sectab (w_mem w) (p_header pm) False)) \<le> 3"
  shows "err = UDYNLINK_OK \<and> pm2 = Some (mark_module_free pm) \<and> live (w_calls w2) = live (w_calls w) - owned pm"
  using u hp small by (auto simp: udynlink_unload_module_def Let_def free_nonmain_sections_def owned_def
      split: prod.splits if_splits)

text \<open>Images with tagged sections: what an unload and the error exit of a load free beside the main block
  are the bases recorded for the non-empty sections, up to the first one not recorded.\<close>

fun recorded :: "mem \<Rightarrow> udynlink_module_t \<Rightarrow> sect_view_t \<Rightarrow> nat list \<Rightarrow> addr list" where
  "recorded m pm tab [] = []"
| "recorded m pm tab (k # ks) =
     (if e_size (sect_entry_at m tab k) = 0 then recorded m pm tab ks
      else if get_section_base_idx m pm tab k = 0 then []
      else get_section_base_idx m pm tab k # recorded m pm tab ks)"

definition tagged_blocks :: "mem \<Rightarrow> udynlink_module_t \<Rightarrow> sect_view_t \<Rightarrow> addr multiset" where
  "tagged_blocks m pm tab = (if p_ram pm = NULL then {#} else mset (recorded m pm tab [3..<v_num tab]))"

lemma free_nonmain_loop_ledger:
  "live (w_calls (free_nonmain_loop x pm tab ks w)) = live (w_calls w) - mset (recorded (w_mem w) pm tab ks)"
  by (induction ks arbitrary: w) (simp_all add: Let_def)

lemma free_nonmain_ledger:
  "live (w_calls (free_nonmain_sections x pm tab w)) = live (w_calls w) - tagged_blocks (w_mem w) pm tab"
  by (simp add: free_nonmain_sections_def tagged_blocks_def free_nonmain_loop_ledger)

lemma failed_load_frees_sections:
  assumes "load_exit x tab al (res, pm, w) = (err, pm', w')" and "res \<noteq> UDYNLINK_OK"
  shows "live (w_calls w') = live (w_calls w) - tagged_blocks (w_mem w) pm tab - owned pm"
  using assms by (auto simp: load_exit_def owned_def free_nonmain_ledger Let_def split: if_splits)

lemma unload_frees_sections:
  assumes "udynlink_unload_module x (Some pm) w = (err, pm2, w2)" and "p_header pm \<noteq> NULL"
    and "get_sectab (w_mem w) (p_header pm) False = (UDYNLINK_OK, tab)"
  shows "live (w_calls w2) = live (w_calls w) - tagged_blocks (w_mem w) pm tab - owned pm"
  using assms by (auto simp: udynlink_unload_module_def owned_def free_nonmain_ledger Let_def split: if_splits)

text \<open>C10: a load of an image without tagged sections, on a handle without RAM and with a resolver
  that does not call the allocator, owns exactly what its handle says: a failed load returns every
  block it took and clears the handle, a successful one keeps the main block and nothing else, and
  only when the caller did not provide it.\<close>

theorem load_balances_allocations:
  assumes "p_ram pm0 = NULL" and "resolver_quiet x"
    and "v_num (snd (get_sectab (w_mem w) (i_header img) True)) \<le> 3"
    and "udynlink_load_module_image x (Some pm0) img la ls md w = (err, Some pm', w')"
  shows "if err = UDYNLINK_OK then live (w_calls w') = live (w_calls w) + owned pm'
    else live (w_calls w') = live (w_calls w) \<and> pm' = mark_module_free pm0"
  by (rule load_ledger [OF assms])

text \<open>C11: unloading a module without tagged sections returns exactly the block the load kept, so
  a load and an unload leave the allocator as they found it, and the handle empty (the same handle
  and resolver as for the load).\<close>

theorem unload_undoes_load:
  assumes "p_ram pm0 = NULL" and "resolver_quiet x"
    and "v_num (snd (get_sectab (w_mem w) (i_header img) True)) \<le> 3"
    and "udynlink_load_module_image x (Some pm0) img la ls md w = (UDYNLINK_OK, Some pm', w')"
    and hp: "p_header pm' \<noteq> NULL" and small: "v_num (snd (get_sectab (w_mem w') (p_header pm') False)) \<le> 3"
    and u: "udynlink_unload_module x (Some pm') w' = (err, Some pm2, w2)"
  shows "err = UDYNLINK_OK \<and> pm2 = mark_module_free pm' \<and> live (w_calls w2) = live (w_calls w)"
proof -
  have "live (w_calls w') = live (w_calls w) + owned pm'"
    using load_ledger [OF assms(1-4)] by simp
  then show ?thesis using unload_ledger [OF u hp small] by simp
qed

section \<open>Filling the block of an untagged module\<close>

definition same_bytes :: "mem \<Rightarrow> addr \<Rightarrow> mem \<Rightarrow> addr \<Rightarrow> u32 \<Rightarrow> bool" where
  "same_bytes m a m0 s n \<longleftrightarrow> (\<forall>k < n. m (a + k) = m0 (s + k))"

lemma blk_offset: "a \<in> blk b n \<Longrightarrow> \<exists>k < n. a = b + k"
  by (intro exI [of _ "a - b"]) simp

lemma same_bytes_memcpy: "same_bytes (memcpy m d s n) d m s n"
  by (simp add: same_bytes_def memcpy_def)

lemma same_bytes_refl: "same_bytes m a m a n"
  by (simp add: same_bytes_def)

lemma same_bytes_frame: "same_bytes m a m0 s n \<Longrightarrow> (\<And>x. x \<in> blk a n \<Longrightarrow> m' x = m x) \<Longrightarrow> same_bytes m' a m0 s n"
  by (simp add: same_bytes_def)

lemma same_bytes_source: "same_bytes m a m1 s n \<Longrightarrow> (\<And>x. x \<in> blk s n \<Longrightarrow> m1 x = m0 x) \<Longrightarrow> same_bytes m a m0 s n"
  by (simp add: same_bytes_def)

lemma same_bytes_sub:
  assumes "same_bytes m a m0 s n" and "unat off + unat k \<le> unat n"
  shows "same_bytes m (a + off) m0 (s + off) k"
  unfolding same_bytes_def
proof (intro allI impI)
  fix i assume "i < k"
  then have lt: "unat off + unat i < unat n" using assms(2) by (simp add: word_less_nat_alt)
  then have "unat (off + i) = unat off + unat i" using unat_u32_less [of n] by (intro unat_plus_no_wrap) simp
  with lt have "off + i < n" by (simp add: word_less_nat_alt)
  then show "m (a + off + i) = m0 (s + off + i)" using assms(1) by (simp add: same_bytes_def add.assoc)
qed

lemma memcpy_keeps: "blk d n \<inter> blk a k = {} \<Longrightarrow> x \<in> blk a k \<Longrightarrow> memcpy m d s n x = m x"
  and memset_keeps: "blk d n \<inter> blk a k = {} \<Longrightarrow> x \<in> blk a k \<Longrightarrow> memset m d c n x = m x"
  by (auto simp: memcpy_def memset_def disjoint_iff)

lemma same_bytes_header:
  assumes "same_bytes m a m0 s n" and "32 \<le> n"
  shows "read_header m a = read_header m0 s"
proof -
  let ?m = "\<lambda>x. m0 (s + (x - a))"
  have "read_header m a = read_header ?m a"
  proof (rule read_header_cong)
    fix x assume "x \<in> blk a 32"
    then have "x - a < n" using assms(2) by auto
    then show "m x = ?m x" using assms(1) by (auto simp: same_bytes_def dest: spec [of _ "x - a"])
  qed
  also have "\<dots> = read_header m0 s"
    by (simp add: read_header_def rd32_def rd16_def add.assoc)
  finally show ?thesis .
qed

text \<open>The loops below only move blocks, so the facts about them are facts about offsets into the
  RAM block: two ranges that do not meet, and a range inside the block.\<close>

definition meta_size :: "udynlink_module_header_t \<Rightarrow> u32" where
  "meta_size h = get_header_size h + ucast (h_num_rels h) * 2 * 4 + h_symt_size h"

definition block_filled :: "mem \<Rightarrow> mem \<Rightarrow> addr \<Rightarrow> udynlink_module_t \<Rightarrow> bool" where
  "block_filled m' m hp pm \<longleftrightarrow>
     (let h = read_header m hp; H = get_code_offset_from_header h
      in same_bytes m' (p_header pm) m hp (meta_size h)
         \<and> same_bytes m' (get_code_pointer m' pm) m (hp + H) (h_code_size h)
         \<and> same_bytes m' (get_data_pointer m' pm) m (hp + H + h_code_size h) (h_data_size h)
         \<and> (\<forall>k < h_bss_size h. m' (get_data_pointer m' pm + h_data_size h + k) = 0))"

lemma untagged_pointers:
  assumes "\<not> is_sectioned (read_header m (p_header pm))"
  shows "get_code_pointer m pm = (if LOAD_GET_MODE pm = LOAD_MODE_COPY_TEXT_DATA
      then p_ram pm + ucast (h_num_lot (read_header m (p_header pm))) * 4
      else p_header pm + get_code_offset_from_header (read_header m (p_header pm)))"
    and "get_data_pointer m pm = (case LOAD_GET_MODE pm of
        LOAD_MODE_XIP \<Rightarrow> p_ram pm + ucast (h_num_lot (read_header m (p_header pm))) * 4
      | LOAD_MODE_COPY_TEXT_DATA \<Rightarrow> p_ram pm + ucast (h_num_lot (read_header m (p_header pm))) * 4
          + h_code_size (read_header m (p_header pm))
      | LOAD_MODE_COPY_ALL \<Rightarrow> p_header pm + get_code_offset_from_header (read_header m (p_header pm))
          + h_code_size (read_header m (p_header pm))
      | LOAD_MODE_RESERVED \<Rightarrow> NULL)"
  using assms by (simp_all add: get_code_pointer_def get_data_pointer_def Let_def split: udynlink_load_mode_t.splits)


text \<open>The parts of the RAM block and of the image, as offsets that do not wrap.\<close>

lemma parts:
  fixes a b c d e :: u32
  assumes "unat a + unat b + unat c + unat d + unat e < 2 ^ 32"
  shows "unat (a + b) = unat a + unat b" "unat (a + b + c) = unat a + unat b + unat c"
    "unat (a + b + c + d) = unat a + unat b + unat c + unat d"
    "unat (a + b + c + d + e) = unat a + unat b + unat c + unat d + unat e"
proof -
  show 1: "unat (a + b) = unat a + unat b" by (rule unat_plus_no_wrap) (use assms in simp)
  show 2: "unat (a + b + c) = unat a + unat b + unat c"
    by (subst unat_plus_no_wrap) (use assms 1 in simp_all)
  show 3: "unat (a + b + c + d) = unat a + unat b + unat c + unat d"
    by (subst unat_plus_no_wrap) (use assms 2 in simp_all)
  show "unat (a + b + c + d + e) = unat a + unat b + unat c + unat d + unat e"
    by (subst unat_plus_no_wrap) (use assms 3 in simp_all)
qed

lemma fill_data:
  assumes src: "same_bytes m1 (R + off) m s D"
    and off: "unat off + unat D + unat B < 2 ^ 32"
    and m': "m' = (if B > 0 then memset m1 (R + off + D) 0 B else m1)"
  shows "same_bytes m' (R + off) m s D" and "\<forall>k < B. m' (R + off + D + k) = 0"
    and "\<And>x. x \<notin> blk (R + off + D) B \<Longrightarrow> m' x = m1 x"
proof -
  have D: "unat (off + D) = unat off + unat D" by (rule unat_plus_no_wrap) (use off in simp)
  have "blk (R + off) D \<inter> blk (R + (off + D)) B = {}"
    by (rule disjoint_sub_blks) (use D off in auto)
  then have dis: "blk (R + off + D) B \<inter> blk (R + off) D = {}" by (simp add: add.assoc Int_commute)
  show "same_bytes m' (R + off) m s D"
    by (rule same_bytes_frame [OF src]) (use m' memset_keeps [OF dis] in auto)
  show "\<forall>k < B. m' (R + off + D + k) = 0" using m' by (cases "B = 0") (auto simp: memset_def word_gt_0)
  show "\<And>x. x \<notin> blk (R + off + D) B \<Longrightarrow> m' x = m1 x" using m' by (auto simp: memset_def)
qed


text \<open>The image in memory and the block do not meet, and their sizes do not wrap.\<close>

definition fill_ok :: "mem \<Rightarrow> addr \<Rightarrow> udynlink_module_t \<Rightarrow> bool" where
  "fill_ok m hp pm \<longleftrightarrow>
     (let h = read_header m hp; H = get_code_offset_from_header h
      in p_header pm = hp \<and> \<not> is_sectioned h \<and> header_words_ok h \<and> LOAD_GET_MODE pm \<noteq> LOAD_MODE_RESERVED
         \<and> unat (ucast (h_num_lot h) * 4 :: u32) + unat H + unat (h_code_size h) + unat (h_data_size h)
           + unat (h_bss_size h) < 2 ^ 32
         \<and> blk hp (H + h_code_size h + h_data_size h)
           \<inter> blk (p_ram pm) (get_ram_size_for_header m hp (LOAD_GET_MODE pm)) = {})"

lemma header_inside:
  assumes "header_words_ok h"
  shows "unat (meta_size h) = unat (get_header_size h) + 8 * unat (h_num_rels h) + unat (h_symt_size h)"
    and "32 \<le> unat (meta_size h)" and "unat (meta_size h) \<le> unat (get_code_offset_from_header h)"
proof -
  have r: "unat (h_num_rels h) < 65536" using unsigned_less [of "h_num_rels h"] by simp
  have u: "unat (ucast (h_num_rels h) :: u32) = unat (h_num_rels h)"
    using r by (simp add: unsigned_ucast_eq take_bit_nat_eq_self)
  have hs: "32 \<le> unat (get_header_size h)" "unat (get_header_size h) \<le> 36" by (simp_all add: get_header_size_def)
  have "unat (ucast (h_num_rels h) * 2 * 4 :: u32) = 8 * unat (h_num_rels h)"
    using r u by (simp add: unat_word_ariths)
  then show m: "unat (meta_size h) = unat (get_header_size h) + 8 * unat (h_num_rels h) + unat (h_symt_size h)"
    using r hs assms unfolding header_words_ok_def meta_size_def by (simp add: unat_word_ariths)
  show "32 \<le> unat (meta_size h)" using m hs by simp
  show "unat (meta_size h) \<le> unat (get_code_offset_from_header h)"
    unfolding m get_code_offset_exact [OF assms] get_symtab_end_offset_exact(1) [OF assms]
    using roundup(2) [of 4 "unat (get_header_size h) + 8 * unat (h_num_rels h) + unat (h_symt_size h)"] by simp
qed

text \<open>What copying establishes: the metadata, the code and the data where the handle looks for
  them, the zero-initialised data clear of all three, and nothing outside the block touched.\<close>

definition copied :: "mem \<Rightarrow> mem \<Rightarrow> addr \<Rightarrow> udynlink_module_t \<Rightarrow> u32 \<Rightarrow> bool" where
  "copied m1 m hp pm n \<longleftrightarrow>
     (let h = read_header m hp; H = get_code_offset_from_header h; C = h_code_size h; D = h_data_size h;
          B = h_bss_size h; dp = get_data_pointer m1 pm
      in same_bytes m1 (p_header pm) m hp (meta_size h)
         \<and> same_bytes m1 (get_code_pointer m1 pm) m (hp + H) C \<and> same_bytes m1 dp m (hp + H + C) D
         \<and> blk (dp + D) B \<inter> blk (p_header pm) (meta_size h) = {} \<and> blk (dp + D) B \<inter> blk (get_code_pointer m1 pm) C = {}
         \<and> blk (dp + D) B \<inter> blk dp D = {} \<and> blk (dp + D) B \<subseteq> blk (p_ram pm) n
         \<and> (\<forall>a. a \<notin> blk (p_ram pm) n \<longrightarrow> m1 a = m a))"

lemma copied_then_cleared:
  assumes c: "copied m1 m hp pm n" and h: "h = read_header m hp" and u: "\<not> is_sectioned h" and ok: "header_words_ok h"
    and m': "m' = (if h_bss_size h > 0 then memset m1 (get_data_pointer m1 pm + h_data_size h) 0 (h_bss_size h) else m1)"
  shows "block_filled m' m hp pm \<and> (\<forall>a. a \<notin> blk (p_ram pm) n \<longrightarrow> m' a = m a)"
proof -
  let ?H = "get_code_offset_from_header h" and ?C = "h_code_size h" and ?D = "h_data_size h" and ?B = "h_bss_size h"
  let ?dp = "get_data_pointer m1 pm" and ?cp = "get_code_pointer m1 pm" and ?M = "meta_size h"
  have c': "same_bytes m1 (p_header pm) m hp ?M" "same_bytes m1 ?cp m (hp + ?H) ?C" "same_bytes m1 ?dp m (hp + ?H + ?C) ?D"
    "blk (?dp + ?D) ?B \<inter> blk (p_header pm) ?M = {}" "blk (?dp + ?D) ?B \<inter> blk ?cp ?C = {}"
    "blk (?dp + ?D) ?B \<inter> blk ?dp ?D = {}" "blk (?dp + ?D) ?B \<subseteq> blk (p_ram pm) n"
    "\<And>a. a \<notin> blk (p_ram pm) n \<Longrightarrow> m1 a = m a"
    using c unfolding copied_def Let_def h [symmetric] by blast+
  have out: "m' a = m1 a" if "a \<notin> blk (?dp + ?D) ?B" for a using that by (auto simp: m' memset_def)
  have M: "32 \<le> ?M" using header_inside(2) [OF ok] by (simp add: word_le_nat_alt)
  have meta: "same_bytes m' (p_header pm) m hp ?M"
    by (rule same_bytes_frame [OF c'(1)], rule out) (use c'(4) in blast)
  have eq: "read_header m' (p_header pm) = read_header m1 (p_header pm)" "read_header m1 (p_header pm) = h"
    using same_bytes_header [OF meta M] same_bytes_header [OF c'(1) M] h by simp_all
  have s1: "\<not> is_sectioned (read_header m1 (p_header pm))" using u eq(2) by simp
  have ptr: "get_code_pointer m' pm = ?cp" "get_data_pointer m' pm = ?dp"
    unfolding untagged_pointers [OF s1] untagged_pointers [of m' pm, unfolded eq(1), OF s1] by (rule refl)+
  have "same_bytes m' ?cp m (hp + ?H) ?C"
    by (rule same_bytes_frame [OF c'(2)], rule out) (use c'(5) in blast)
  moreover have "same_bytes m' ?dp m (hp + ?H + ?C) ?D"
    by (rule same_bytes_frame [OF c'(3)], rule out) (use c'(6) in blast)
  moreover have "m' (?dp + ?D + k) = 0" if "k < ?B" for k
    using that by (auto simp: m' memset_def word_gt_0)
  moreover have "m' a = m a" if "a \<notin> blk (p_ram pm) n" for a
    using out [of a] c'(8) [OF that] subsetD [OF c'(7), of a] that by metis
  ultimately show ?thesis using meta by (simp add: block_filled_def h [symmetric] ptr Let_def del: mem_blk)
qed

lemma same_bytes_join:
  assumes "same_bytes m a m0 s k" "same_bytes m (a + k) m0 (s + k) l"
  shows "same_bytes m a m0 s (k + l)"
  unfolding same_bytes_def
proof (intro allI impI)
  fix i assume i: "i < k + l"
  show "m (a + i) = m0 (s + i)"
  proof (cases "i < k")
    case True
    then show ?thesis using assms(1) by (simp add: same_bytes_def)
  next
    case False
    then have "unat (i - k) = unat i - unat k" by (simp add: unat_sub not_less)
    moreover have "unat (k + l) \<le> unat k + unat l" by (simp add: unat_plus_if')
    ultimately have "i - k < l" using i False by (simp add: word_less_nat_alt)
    then show ?thesis using assms(2) [unfolded same_bytes_def, rule_format, of "i - k"] by simp
  qed
qed

text \<open>A range clear of a tail of the block: it lies outside the block or before the tail.\<close>

definition before :: "addr \<Rightarrow> u32 \<Rightarrow> addr \<Rightarrow> u32 \<Rightarrow> u32 \<Rightarrow> bool" where
  "before p k r n z \<longleftrightarrow> blk p k \<inter> blk r n = {} \<or> (\<exists>c. p = r + c \<and> unat c + unat k \<le> unat z)"

lemma before_clear:
  assumes "before p k r n z" and "unat z + unat b \<le> unat n"
  shows "blk (r + z) b \<inter> blk p k = {}"
proof -
  have sub: "blk (r + z) b \<subseteq> blk r n" by (rule sub_blk [OF assms(2)])
  have "blk (r + c) k \<inter> blk (r + z) b = {}" if "unat c + unat k \<le> unat z" for c
    by (rule disjoint_sub_blks [OF that]) (use assms(2) unat_u32_less [of n] in simp)
  then show ?thesis using assms(1) sub unfolding before_def by blast
qed

lemma copiedI:
  fixes m hp defines "h \<equiv> read_header m hp"
  assumes "same_bytes m1 (p_header pm) m hp (meta_size h)"
    and "same_bytes m1 (get_code_pointer m1 pm) m (hp + get_code_offset_from_header h) (h_code_size h)"
    and "same_bytes m1 (p_ram pm + od) m (hp + get_code_offset_from_header h + h_code_size h) (h_data_size h)"
    and dp: "get_data_pointer m1 pm = p_ram pm + od"
    and room: "unat od + unat (h_data_size h) + unat (h_bss_size h) \<le> unat n"
    and b: "before (p_header pm) (meta_size h) (p_ram pm) n od" "before (get_code_pointer m1 pm) (h_code_size h) (p_ram pm) n od"
    and "\<And>a. a \<notin> blk (p_ram pm) n \<Longrightarrow> m1 a = m a"
  shows "copied m1 m hp pm n"
proof -
  have u: "unat (od + h_data_size h) = unat od + unat (h_data_size h)"
    by (rule unat_plus_no_wrap) (use room unat_u32_less [of n] in simp)
  have room': "unat (od + h_data_size h) + unat (h_bss_size h) \<le> unat n" using u room by simp
  have mono: "before p k r n od \<Longrightarrow> before p k r n (od + h_data_size h)" for p k r
    using u by (fastforce simp: before_def)
  have d: "before (p_ram pm + od) (h_data_size h) (p_ram pm) n (od + h_data_size h)" using u by (auto simp: before_def)
  show ?thesis
    unfolding copied_def Let_def h_def [symmetric] dp
    using assms(2-4) assms(9) before_clear [OF mono [OF b(1)] room'] before_clear [OF mono [OF b(2)] room'] before_clear [OF d room']
      sub_blk [OF room', of "p_ram pm"] by (simp add: add.assoc del: mem_blk)
qed

lemma untagged_view:
  assumes "\<not> is_sectioned (read_header m hp)"
  shows "v_num (snd (get_sectab m hp s)) = 0"
  using assms by (simp add: get_sectab_def Let_def is_sectioned_def)


definition lot_size :: "udynlink_module_header_t \<Rightarrow> u32" where
  "lot_size h = ucast (h_num_lot h) * 4"

lemma header_size_words: "4 * (get_header_size h div 4) = get_header_size h"
proof -
  have "(32::u32) div 4 = 8" "(36::u32) div 4 = 9" by (simp_all add: word_unat_eq_iff unat_div)
  then show ?thesis by (simp add: get_header_size_def)
qed

lemma untagged_image:
  assumes "\<not> is_sectioned h" and h: "h = read_header m hp"
  defines "i \<equiv> udynlink_image_from_memory m hp"
  shows "i_header i = hp" "i_relocations i = hp + get_header_size h"
    "i_symtab i = hp + get_header_size h + ucast (h_num_rels h) * 2 * 4"
    "i_code i = hp + get_code_offset_from_header h" "i_data i = hp + get_code_offset_from_header h + h_code_size h"
  using assms(1) by (simp_all add: i_def udynlink_image_from_memory_def h [symmetric] Let_def header_size_words
    mult.commute split: prod.splits)

lemma fill_ok_parts:
  fixes m hp pm defines "h \<equiv> read_header m hp"
  defines "H \<equiv> get_code_offset_from_header h" and "C \<equiv> h_code_size h" and "D \<equiv> h_data_size h" and "B \<equiv> h_bss_size h"
    and "n \<equiv> get_ram_size_for_header m hp (LOAD_GET_MODE pm)"
  assumes "fill_ok m hp pm"
  shows "unat n = unat (lot_size h) + unat D + unat B + (case LOAD_GET_MODE pm of
      LOAD_MODE_COPY_ALL \<Rightarrow> unat H + unat C | LOAD_MODE_COPY_TEXT_DATA \<Rightarrow> unat C | _ \<Rightarrow> 0)"
    and "unat (lot_size h + H + C) = unat (lot_size h) + unat H + unat C" "unat (lot_size h + H) = unat (lot_size h) + unat H"
    and "unat (lot_size h + C) = unat (lot_size h) + unat C" "unat (C + D) = unat C + unat D"
    and "unat (H + C) = unat H + unat C" "unat (H + C + D) = unat H + unat C + unat D"
    and "unat (lot_size h) + unat H + unat C + unat D + unat B < 2 ^ 32"
proof -
  let ?L = "lot_size h"
  have s: "unat ?L + unat H + unat C + unat D + unat B < 2 ^ 32" and u: "\<not> is_sectioned h"
    using assms(7) by (simp_all add: fill_ok_def Let_def h_def H_def C_def D_def B_def lot_size_def)
  note p = parts [of ?L H C D B, OF s]
  show "unat (?L + H + C) = unat ?L + unat H + unat C" "unat (?L + H) = unat ?L + unat H" using p by simp_all
  show "unat (?L + C) = unat ?L + unat C" "unat (C + D) = unat C + unat D" "unat (H + C) = unat H + unat C"
    by (rule unat_plus_no_wrap, use s in simp)+
  then show "unat (H + C + D) = unat H + unat C + unat D"
    by (subst unat_plus_no_wrap) (use s in simp_all)
  show "unat ?L + unat H + unat C + unat D + unat B < 2 ^ 32" by (rule s)
  have q: "unat (?L + D + B) = unat ?L + unat D + unat B" "unat (?L + D + B + C) = unat ?L + unat D + unat B + unat C"
    "unat (?L + D + B + (H + C)) = unat ?L + unat D + unat B + (unat H + unat C)"
    using parts [of ?L D B C H] parts(3) [of ?L D B "H + C" 0] s \<open>unat (H + C) = unat H + unat C\<close> by simp_all
  show "unat n = unat ?L + unat D + unat B + (case LOAD_GET_MODE pm of
      LOAD_MODE_COPY_ALL \<Rightarrow> unat H + unat C | LOAD_MODE_COPY_TEXT_DATA \<Rightarrow> unat C | _ \<Rightarrow> 0)"
    using u q by (cases "LOAD_GET_MODE pm")
      (simp_all add: n_def get_ram_size_for_header_def h_def [symmetric] case_prod_beta' Let_def lot_size_def [symmetric]
        H_def [symmetric] C_def [symmetric] D_def [symmetric] B_def [symmetric])
qed

lemma beforeI: "p = r + c \<Longrightarrow> unat c + unat k \<le> unat z \<Longrightarrow> before p k r n z"
  by (auto simp: before_def)

lemma memcpy_frame: "blk d k \<subseteq> blk r n \<Longrightarrow> a \<notin> blk r n \<Longrightarrow> memcpy m d s k a = m a"
  and memset_frame: "blk d k \<subseteq> blk r n \<Longrightarrow> a \<notin> blk r n \<Longrightarrow> memset m d c k a = m a"
  unfolding memcpy_def memset_def mem_blk [symmetric] by (auto simp del: mem_blk)

lemma fill_ok_image:
  fixes m hp pm defines "h \<equiv> read_header m hp" and "n \<equiv> get_ram_size_for_header m hp (LOAD_GET_MODE pm)"
  assumes ok: "fill_ok m hp pm"
  shows "\<not> is_sectioned h" "header_words_ok h" "p_header pm = hp"
    and "x \<in> blk hp (get_code_offset_from_header h + h_code_size h + h_data_size h) \<Longrightarrow> x \<notin> blk (p_ram pm) n"
    and "blk hp (meta_size h) \<subseteq> blk hp (get_code_offset_from_header h + h_code_size h + h_data_size h)"
    and "blk (hp + get_code_offset_from_header h) (h_code_size h)
      \<subseteq> blk hp (get_code_offset_from_header h + h_code_size h + h_data_size h)"
    and "blk (hp + get_code_offset_from_header h + h_code_size h) (h_data_size h)
      \<subseteq> blk hp (get_code_offset_from_header h + h_code_size h + h_data_size h)"
proof -
  note p = fill_ok_parts [OF ok, folded h_def]
  show "\<not> is_sectioned h" "p_header pm = hp" using ok by (simp_all add: fill_ok_def Let_def h_def)
  show w: "header_words_ok h" using ok by (simp add: fill_ok_def Let_def h_def)
  show "x \<notin> blk (p_ram pm) n" if "x \<in> blk hp (get_code_offset_from_header h + h_code_size h + h_data_size h)"
    using ok that by (auto simp: fill_ok_def Let_def h_def n_def disjoint_iff)
  show "blk hp (meta_size h) \<subseteq> blk hp (get_code_offset_from_header h + h_code_size h + h_data_size h)"
    by (rule sub_blk_start) (use header_inside(3) [OF w] p(7) in \<open>simp add: word_le_nat_alt\<close>)
  show "blk (hp + get_code_offset_from_header h) (h_code_size h)
      \<subseteq> blk hp (get_code_offset_from_header h + h_code_size h + h_data_size h)"
    by (rule sub_blk) (use p(7) in simp)
  show "blk (hp + get_code_offset_from_header h + h_code_size h) (h_data_size h)
      \<subseteq> blk hp (get_code_offset_from_header h + h_code_size h + h_data_size h)"
    unfolding add.assoc [of hp] by (rule sub_blk) (use p(6,7) in simp)
qed

lemma copied_xip:
  fixes m hp pm defines "h \<equiv> read_header m hp" and "n \<equiv> get_ram_size_for_header m hp (LOAD_GET_MODE pm)"
  assumes ok: "fill_ok m hp pm" and md: "LOAD_GET_MODE pm = LOAD_MODE_XIP"
    and m1: "m1 = memcpy m (p_ram pm + lot_size h) (hp + get_code_offset_from_header h + h_code_size h) (h_data_size h)"
  shows "copied m1 m hp pm n"
proof -
  note p = fill_ok_parts [OF ok, folded h_def n_def] and i = fill_ok_image [OF ok, folded h_def n_def]
  have n: "unat (lot_size h) + unat (h_data_size h) + unat (h_bss_size h) = unat n" using p(1) md by simp
  have out: "m1 a = m a" if "a \<notin> blk (p_ram pm) n" for a
    unfolding m1 by (rule memcpy_frame [OF sub_blk that]) (use n in simp)
  have img: "m1 a = m a" if "a \<in> blk hp (get_code_offset_from_header h + h_code_size h + h_data_size h)" for a
    by (rule out, rule i(4), rule that)
  have M: "32 \<le> meta_size h" using header_inside(2) [OF i(2)] by (simp add: word_le_nat_alt)
  have meta: "same_bytes m1 hp m hp (meta_size h)"
    by (rule same_bytes_frame [OF same_bytes_refl], rule img) (use i(5) in blast)
  have hdr: "read_header m1 (p_header pm) = h" unfolding i(3) same_bytes_header [OF meta M] h_def ..
  have s: "\<not> is_sectioned (read_header m1 (p_header pm))" using hdr i(1) by simp
  have ptr: "get_code_pointer m1 pm = hp + get_code_offset_from_header h" "get_data_pointer m1 pm = p_ram pm + lot_size h"
    unfolding untagged_pointers [OF s] hdr md by (simp_all add: i(3) lot_size_def)
  show ?thesis
  proof (rule copiedI [where od = "lot_size h"], unfold h_def [symmetric] ptr i(3))
    show "same_bytes m1 hp m hp (meta_size h)" by (rule meta)
    show "same_bytes m1 (hp + get_code_offset_from_header h) m (hp + get_code_offset_from_header h) (h_code_size h)"
      by (rule same_bytes_frame [OF same_bytes_refl], rule img) (use i(6) in blast)
    show "same_bytes m1 (p_ram pm + lot_size h) m (hp + get_code_offset_from_header h + h_code_size h) (h_data_size h)"
      unfolding m1 by (rule same_bytes_memcpy)
    show "before hp (meta_size h) (p_ram pm) n (lot_size h)"
      "before (hp + get_code_offset_from_header h) (h_code_size h) (p_ram pm) n (lot_size h)"
      unfolding before_def using i(4-6) by blast+
  qed (use n out in auto)
qed

lemma copied_text_data:
  fixes m hp pm defines "h \<equiv> read_header m hp" and "n \<equiv> get_ram_size_for_header m hp (LOAD_GET_MODE pm)"
  assumes ok: "fill_ok m hp pm" and md: "LOAD_GET_MODE pm = LOAD_MODE_COPY_TEXT_DATA"
    and m1: "m1 = memcpy m (p_ram pm + lot_size h) (hp + get_code_offset_from_header h) (h_code_size h + h_data_size h)"
  shows "copied m1 m hp pm n"
proof -
  note p = fill_ok_parts [OF ok, folded h_def n_def] and i = fill_ok_image [OF ok, folded h_def n_def]
  have n: "unat (lot_size h) + unat (h_code_size h) + unat (h_data_size h) + unat (h_bss_size h) = unat n"
    using p(1) md by simp
  have out: "m1 a = m a" if "a \<notin> blk (p_ram pm) n" for a
    unfolding m1 by (rule memcpy_frame [OF sub_blk that]) (use n p(5) in simp)
  have M: "32 \<le> meta_size h" using header_inside(2) [OF i(2)] by (simp add: word_le_nat_alt)
  have meta: "same_bytes m1 hp m hp (meta_size h)"
    by (rule same_bytes_frame [OF same_bytes_refl], rule out, rule i(4)) (use i(5) in blast)
  have hdr: "read_header m1 (p_header pm) = h" unfolding i(3) same_bytes_header [OF meta M] h_def ..
  have s: "\<not> is_sectioned (read_header m1 (p_header pm))" using hdr i(1) by simp
  have ptr: "get_code_pointer m1 pm = p_ram pm + lot_size h"
    "get_data_pointer m1 pm = p_ram pm + lot_size h + h_code_size h"
    unfolding untagged_pointers [OF s] hdr md by (simp_all add: i(3) lot_size_def)
  have all: "same_bytes m1 (p_ram pm + lot_size h) m (hp + get_code_offset_from_header h) (h_code_size h + h_data_size h)"
    unfolding m1 by (rule same_bytes_memcpy)
  show ?thesis
  proof (rule copiedI [where od = "lot_size h + h_code_size h"], unfold h_def [symmetric] ptr i(3))
    show "same_bytes m1 hp m hp (meta_size h)" by (rule meta)
    show "same_bytes m1 (p_ram pm + lot_size h) m (hp + get_code_offset_from_header h) (h_code_size h)"
      using same_bytes_sub [OF all, of 0 "h_code_size h"] p(5) by simp
    show "same_bytes m1 (p_ram pm + (lot_size h + h_code_size h)) m (hp + get_code_offset_from_header h + h_code_size h) (h_data_size h)"
      using same_bytes_sub [OF all, of "h_code_size h" "h_data_size h"] p(5) by (simp add: add.assoc)
    show "before hp (meta_size h) (p_ram pm) n (lot_size h + h_code_size h)"
      unfolding before_def using i(4,5) by blast
    show "before (p_ram pm + lot_size h) (h_code_size h) (p_ram pm) n (lot_size h + h_code_size h)"
      by (rule beforeI [OF refl]) (use p(4) in simp)
  qed (use n p(4) out in \<open>auto simp: add.assoc\<close>)
qed

lemma copy_next:
  assumes c: "same_bytes m1 p m s k" and src: "\<And>x. x \<in> blk (s + k) l \<Longrightarrow> m1 x = m x"
    and w: "unat k + unat l < 2 ^ 32"
  shows "same_bytes (memcpy m1 (p + k) (s + k) l) p m s (k + l)"
proof (rule same_bytes_join)
  have "blk (p + 0) k \<inter> blk (p + k) l = {}" by (rule disjoint_sub_blks) (use w in simp_all)
  then have dis: "blk (p + k) l \<inter> blk p k = {}" by (simp add: Int_commute)
  show "same_bytes (memcpy m1 (p + k) (s + k) l) p m s k"
    by (rule same_bytes_frame [OF c]) (rule memcpy_keeps [OF dis])
  show "same_bytes (memcpy m1 (p + k) (s + k) l) (p + k) m (s + k) l"
    by (rule same_bytes_source [OF same_bytes_memcpy]) (rule src)
qed

lemma same_bytes_memcpy_clear: "same_bytes m1 a m s n \<Longrightarrow> blk d k \<inter> blk a n = {} \<Longrightarrow> same_bytes (memcpy m1 d e k) a m s n"
  by (erule same_bytes_frame) (rule memcpy_keeps)

lemma same_bytes_memset_clear: "same_bytes m1 a m s n \<Longrightarrow> blk d k \<inter> blk a n = {} \<Longrightarrow> same_bytes (memset m1 d c k) a m s n"
  by (erule same_bytes_frame) (rule memset_keeps)

text \<open>Under \<open>COPY_ALL\<close> the handle's header moves into the block, and code and data follow it.\<close>

lemma copied_moved:
  fixes m hp pm
  defines "h \<equiv> read_header m hp" and "n \<equiv> get_ram_size_for_header m hp (LOAD_GET_MODE pm)"
  defines "P \<equiv> p_ram pm + lot_size h" and "H \<equiv> get_code_offset_from_header h"
  assumes ok: "fill_ok m hp pm" and md: "LOAD_GET_MODE pm = LOAD_MODE_COPY_ALL"
    and meta: "same_bytes m1 P m hp (meta_size h)"
    and all: "same_bytes m1 (P + H) m (hp + H) (h_code_size h + h_data_size h)"
    and out: "\<And>a. a \<notin> blk (p_ram pm) n \<Longrightarrow> m1 a = m a"
  shows "copied m1 m hp (pm\<lparr>p_header := P\<rparr>) n"
proof -
  let ?pm = "pm\<lparr>p_header := P\<rparr>"
  note p = fill_ok_parts [OF ok, folded h_def n_def H_def] and i = fill_ok_image [OF ok, folded h_def n_def H_def]
  note hd = header_inside [OF i(2), folded H_def]
  have n: "unat (lot_size h) + unat H + unat (h_code_size h) + unat (h_data_size h) + unat (h_bss_size h) = unat n"
    using p(1) md by simp
  have md': "LOAD_GET_MODE ?pm = LOAD_MODE_COPY_ALL" using md by (simp add: LOAD_GET_MODE_def)
  have hdr: "read_header m1 (p_header ?pm) = h"
    using same_bytes_header [OF meta] hd(2) by (simp add: h_def word_le_nat_alt)
  have s: "\<not> is_sectioned (read_header m1 (p_header ?pm))" using hdr i(1) by simp
  have ptr: "get_code_pointer m1 ?pm = P + H" "get_data_pointer m1 ?pm = P + H + h_code_size h"
    unfolding untagged_pointers [OF s] hdr md' by (simp_all add: H_def)
  show ?thesis
  proof (rule copiedI [where od = "lot_size h + H + h_code_size h"], unfold h_def [symmetric] H_def [symmetric] ptr)
    show "same_bytes m1 (p_header ?pm) m hp (meta_size h)" using meta by simp
    show "same_bytes m1 (P + H) m (hp + H) (h_code_size h)"
      using same_bytes_sub [OF all, of 0 "h_code_size h"] p(5) by simp
    show "same_bytes m1 (p_ram ?pm + (lot_size h + H + h_code_size h)) m (hp + H + h_code_size h) (h_data_size h)"
      using same_bytes_sub [OF all, of "h_code_size h" "h_data_size h"] p(5) by (simp add: P_def add.assoc)
    show "before (p_header ?pm) (meta_size h) (p_ram ?pm) n (lot_size h + H + h_code_size h)"
      by (rule beforeI [of _ _ "lot_size h"]) (use hd(3) p(2) in \<open>simp_all add: P_def\<close>)
    show "before (P + H) (h_code_size h) (p_ram ?pm) n (lot_size h + H + h_code_size h)"
      by (rule beforeI [of _ _ "lot_size h + H"]) (use p(2,3) in \<open>simp_all add: P_def add.assoc\<close>)
  qed (use n p(2) out in \<open>auto simp: P_def add.assoc\<close>)
qed

lemma copied_all:
  fixes m hp pm
  defines "h \<equiv> read_header m hp" and "n \<equiv> get_ram_size_for_header m hp (LOAD_GET_MODE pm)"
  defines "P \<equiv> p_ram pm + lot_size h" and "H \<equiv> get_code_offset_from_header h" and "hs \<equiv> get_header_size h"
    and "rs \<equiv> ucast (h_num_rels h) * 2 * 4 :: u32"
  assumes ok: "fill_ok m hp pm" and md: "LOAD_GET_MODE pm = LOAD_MODE_COPY_ALL"
    and m1: "m1 = memcpy m P hp hs"
    and m2: "m2 = memcpy m1 (P + hs) (hp + hs) rs"
    and m3: "m3 = memcpy m2 (P + hs + rs) (hp + hs + rs) (h_symt_size h)"
    and m4: "m4 = m3 \<or> m4 = memset m3 (P + hs + rs + h_symt_size h) 0 (H - (hs + rs + h_symt_size h))"
    and m5: "m5 = memcpy m4 (P + H) (hp + H) (h_code_size h)"
    and m6: "m6 = memcpy m5 (P + H + h_code_size h) (hp + H + h_code_size h) (h_data_size h)"
  shows "copied m6 m hp (pm\<lparr>p_header := P\<rparr>) n"
proof -
  let ?L = "lot_size h" and ?C = "h_code_size h" and ?D = "h_data_size h" and ?B = "h_bss_size h" and ?M = "meta_size h"
  note p = fill_ok_parts [OF ok, folded h_def n_def H_def] and i = fill_ok_image [OF ok, folded h_def n_def H_def]
  note hd = header_inside [OF i(2), folded hs_def rs_def H_def]
  have M: "hs + rs + h_symt_size h = ?M" by (simp add: meta_size_def hs_def rs_def)
  have m4': "m4 = m3 \<or> m4 = memset m3 (P + ?M) 0 (H - ?M)" using m4 unfolding M [symmetric] by (simp add: add.assoc)
  have n: "unat ?L + unat H + unat ?C + unat ?D + unat ?B = unat n" using p(1) md by simp
  have hr: "unat (hs + rs) + unat (h_symt_size h) = unat ?M" "unat hs + unat rs = unat (hs + rs)"
  proof -
    have "unat (h_num_rels h) < 65536" using unsigned_less [of "h_num_rels h"] by simp
    then have rs: "unat rs = 8 * unat (h_num_rels h)" by (simp add: rs_def unsigned_ucast_eq take_bit_nat_eq_self unat_word_ariths)
    show 1: "unat hs + unat rs = unat (hs + rs)"
      by (subst unat_plus_no_wrap) (use rs hd(1) unat_u32_less [of ?M] in simp_all)
    show "unat (hs + rs) + unat (h_symt_size h) = unat ?M" using 1 rs hd(1) by simp
  qed
  have inP: "blk (P + o1) k \<subseteq> blk (p_ram pm) n" if "unat o1 + unat k \<le> unat H + unat ?C + unat ?D" for o1 k
  proof -
    have "unat (?L + o1) = unat ?L + unat o1" by (rule unat_plus_no_wrap) (use that p(8) in simp)
    then show ?thesis unfolding P_def add.assoc by (rule_tac sub_blk) (use that n in simp)
  qed
  have img: "x \<notin> blk (p_ram pm) n" if "unat o1 + unat k \<le> unat H + unat ?C + unat ?D" "x \<in> blk (hp + o1) k" for x o1 k
    by (rule i(4), rule subsetD [OF sub_blk that(2)]) (use that(1) p(7) in simp)
  have f1: "m1 a = m a" if "a \<notin> blk (p_ram pm) n" for a
    unfolding m1 using memcpy_frame [OF inP [of 0 hs, simplified] that] hr hd(3) by simp
  have f2: "m2 a = m a" if "a \<notin> blk (p_ram pm) n" for a
    unfolding m2 using memcpy_frame [OF inP [of hs rs] that] hr hd(3) f1 [OF that] by simp
  have f3: "m3 a = m a" if "a \<notin> blk (p_ram pm) n" for a
    unfolding m3 add.assoc using memcpy_frame [OF inP [of "hs + rs" "h_symt_size h"] that] hr hd(3) f2 [OF that] by simp
  have f4: "m4 a = m a" if "a \<notin> blk (p_ram pm) n" for a
    using m4' memset_frame [OF inP [of ?M "H - ?M"] that] hd(3) f3 [OF that]
    by (auto simp: unat_sub word_le_nat_alt)
  have f5: "m5 a = m a" if "a \<notin> blk (p_ram pm) n" for a
    unfolding m5 using memcpy_frame [OF inP [of H ?C] that] f4 [OF that] by simp
  have f6: "m6 a = m a" if "a \<notin> blk (p_ram pm) n" for a
    unfolding m6 add.assoc using memcpy_frame [OF inP [of "H + ?C" ?D] that] f5 [OF that] p(6) by (simp add: add.assoc)
  have "same_bytes m1 P m hp hs" unfolding m1 by (rule same_bytes_memcpy)
  then have "same_bytes m2 P m hp (hs + rs)"
    unfolding m2 by (rule copy_next) (use f1 img [of hs rs] hr hd(3) unat_u32_less [of ?M] in auto)
  then have "same_bytes m3 P m hp (hs + rs + h_symt_size h)"
    unfolding m3 add.assoc [of P] add.assoc [of hp]
    by (rule copy_next) (use f2 img [of "hs + rs" "h_symt_size h"] hr hd(3) unat_u32_less [of ?M] in auto)
  then have c3: "same_bytes m3 P m hp ?M" unfolding M .
  have clear: "blk (P + o1) k \<inter> blk P ?M = {}" if "unat ?M \<le> unat o1" "unat o1 + unat k \<le> unat H + unat ?C + unat ?D" for o1 k
  proof -
    have "blk (P + 0) ?M \<inter> blk (P + o1) k = {}" by (rule disjoint_sub_blks) (use that p(8) in simp_all)
    then show ?thesis by (simp add: Int_commute)
  qed
  have "blk (P + ?M) (H - ?M) \<inter> blk P ?M = {}" by (rule clear) (use hd(3) in \<open>simp_all add: unat_sub word_le_nat_alt\<close>)
  then have "same_bytes m4 P m hp ?M" using m4' c3 by (auto intro: same_bytes_memset_clear simp del: mem_blk)
  then have "same_bytes m5 P m hp ?M"
    unfolding m5 by (rule same_bytes_memcpy_clear) (rule clear, use hd(3) in simp_all)
  then have meta: "same_bytes m6 P m hp ?M"
    unfolding m6 add.assoc by (rule same_bytes_memcpy_clear) (rule clear, use hd(3) p(6) in simp_all)
  have "same_bytes m5 (P + H) m (hp + H) ?C"
    unfolding m5 by (rule same_bytes_source [OF same_bytes_memcpy], rule f4, rule img) simp_all
  then have all: "same_bytes m6 (P + H) m (hp + H) (?C + ?D)"
    unfolding m6 by (rule copy_next) (use f5 img [of "H + ?C" ?D] p(5,6) unat_u32_less [of "?C + ?D"] in \<open>auto simp: add.assoc\<close>)
  show ?thesis using copied_moved [OF ok md] meta all f6 by (simp add: h_def n_def P_def H_def)
qed


text \<open>The image the code copies from is the one described by its own header, the block is the size
  the header asks for, and the two do not meet.\<close>

lemma either: "(if c then a else b) = b \<or> (if c then a else b) = a"
  by simp

lemma untagged_copied:
  assumes ok: "fill_ok m hp pm" and tab: "v_num tab = 0"
    and c: "copy_untagged (udynlink_image_from_memory m hp) hp tab (LOAD_GET_MODE pm) pm m = (pm1, m1)"
  shows "copied m1 m hp pm1 (get_ram_size_for_header m hp (LOAD_GET_MODE pm)) \<and> p_ram pm1 = p_ram pm"
proof -
  note i = fill_ok_image [OF ok] and img = untagged_image [OF fill_ok_image(1) [OF ok] refl]
  have P: "load_p_temp8 m hp tab pm = p_ram pm + lot_size (read_header m hp)"
    using tab by (simp add: load_p_temp8_def get_nonmain_bases_size_def lot_size_def)
  have z: "memcpy m a b 0 = m" for a b by (rule ext) (simp add: memcpy_def)
  note c' = c [unfolded copy_untagged_def Let_def P img]
  show ?thesis
  proof (cases "LOAD_GET_MODE pm")
    case LOAD_MODE_COPY_ALL
    note e = c' [unfolded LOAD_MODE_COPY_ALL simp_thms(6) if_True prod.inject]
    have "copied m1 m hp pm1 (get_ram_size_for_header m hp (LOAD_GET_MODE pm))"
      unfolding e [THEN conjunct1, symmetric]
      by (rule copied_all [OF ok LOAD_MODE_COPY_ALL refl refl refl _ refl e [THEN conjunct2, symmetric]])
        (rule either)
    then show ?thesis using e by auto
  next
    case LOAD_MODE_COPY_TEXT_DATA
    with c' show ?thesis
      using copied_text_data [OF ok LOAD_MODE_COPY_TEXT_DATA refl] by (auto simp: z word_gt_0 split: if_splits)
  next
    case LOAD_MODE_XIP
    with c' show ?thesis
      using copied_xip [OF ok LOAD_MODE_XIP refl] by (auto simp: z word_gt_0 split: if_splits)
  next
    case LOAD_MODE_RESERVED
    with ok show ?thesis by (simp add: fill_ok_def Let_def)
  qed
qed


text \<open>Loading fills the block: metadata, code and initialised data are those of the image, wherever
  the mode puts them, the zero-initialised data is zero, and no other byte of memory changes.\<close>

lemma untagged_filled:
  assumes ok: "fill_ok m hp pm" and tab: "v_num tab = 0"
    and l: "load_untagged (udynlink_image_from_memory m hp) hp tab (LOAD_GET_MODE pm) pm m = (pm', m')"
  shows "block_filled m' m hp pm'
    \<and> (\<forall>a. a \<notin> blk (p_ram pm) (get_ram_size_for_header m hp (LOAD_GET_MODE pm)) \<longrightarrow> m' a = m a)"
proof -
  obtain pm1 m1 where c: "copy_untagged (udynlink_image_from_memory m hp) hp tab (LOAD_GET_MODE pm) pm m = (pm1, m1)"
    by (metis surj_pair)
  note cp = untagged_copied [OF ok tab c] and i = fill_ok_image [OF ok]
  have "\<And>a. a \<notin> blk (p_ram pm) (get_ram_size_for_header m hp (LOAD_GET_MODE pm)) \<Longrightarrow> m1 a = m a"
    using cp by (simp add: copied_def Let_def del: mem_blk)
  then have out: "m1 x = m x" if "x \<in> blk hp (meta_size (read_header m hp))" for x
    using i(4) subsetD [OF i(5) that] by blast
  have "read_header m1 hp = read_header m hp"
    by (rule same_bytes_header [OF same_bytes_frame [OF same_bytes_refl out]])
      (use header_inside(2) [OF i(2)] in \<open>simp_all add: word_le_nat_alt\<close>)
  then have "pm' = pm1" "m' = (if h_bss_size (read_header m hp) > 0
      then memset m1 (get_data_pointer m1 pm1 + h_data_size (read_header m hp)) 0 (h_bss_size (read_header m hp)) else m1)"
    using l by (auto simp: load_untagged_def c Let_def split: if_splits)
  then show ?thesis using copied_then_cleared [OF conjunct1 [OF cp] refl i(1,2)] cp by metis
qed

text \<open>C9: loading an untagged image fills its RAM block, in every mode: the metadata, the code and
  the initialised data are the image's, at the addresses the handle's accessors then return, the
  zero-initialised data is zero, and no byte outside the block changes. The image must be
  well formed enough for its sizes not to wrap, and must not overlap the block.\<close>

theorem untagged_block_filled:
  assumes "fill_ok m hp pm" and "v_num tab = 0"
    and "load_untagged (udynlink_image_from_memory m hp) hp tab (LOAD_GET_MODE pm) pm m = (pm', m')"
  shows "block_filled m' m hp pm'
    \<and> (\<forall>a. a \<notin> blk (p_ram pm) (get_ram_size_for_header m hp (LOAD_GET_MODE pm)) \<longrightarrow> m' a = m a)"
  by (rule untagged_filled [OF assms])

section \<open>Concrete loads\<close>

lemma i_header_image [simp]: "i_header (udynlink_image_from_memory m a) = a"
  by (simp add: udynlink_image_from_memory_def Let_def split: prod.splits)

lemma plain_valid: "udynlink_validate_header (read_header plain_mem 0x1000) = UDYNLINK_OK"
  by (simp add: plain_header udynlink_validate_header_def udynlink_check_arch_tag_def acc_defs Let_def)

lemma plain_sectab: "get_sectab plain_mem 0x1000 s = (UDYNLINK_OK, \<lparr>v_entries = NULL, v_pool = 0x1040, v_num = 0\<rparr>)"
  by (simp add: get_sectab_def plain_header plain_pointer acc_defs Let_def)

lemma plain_code_offset: "get_code_offset_from_header (read_header plain_mem 0x1000) = 0x6C"
  by (simp add: get_code_offset_from_header_def get_symtab_end_offset_def plain_header get_num_sections_raw_def
      is_sectioned_def get_header_size_def acc_defs Let_def)

lemma plain_ram_size: "get_ram_size_for_header plain_mem 0x1000 LOAD_MODE_XIP = 24"
  "get_ram_size_for_header plain_mem 0x1000 LOAD_MODE_COPY_ALL = 140"
  by (simp_all add: get_ram_size_for_header_def plain_sectab plain_code_offset) (simp_all add: plain_header is_sectioned_def acc_defs)

lemma plain_checks: "load_checks plain_mem 0x1000 LOAD_MODE_XIP =
    (UDYNLINK_OK, \<lparr>v_entries = NULL, v_pool = 0x1040, v_num = 0\<rparr>, 4, 24)"
  by (simp add: load_checks_def plain_valid plain_sectab plain_code_offset plain_ram_size)
   (simp add: plain_header plain_ram_size acc_defs Let_def)

theorem load_balances_allocations_witness:
  "case udynlink_load_module_image full_host (Some empty_module) (udynlink_image_from_memory plain_mem 0x1000)
      NULL 0 LOAD_MODE_XIP (start_world plain_mem) of (err, pm, w) \<Rightarrow>
    err = ERR_LOAD_OUT_OF_MEMORY \<and> pm = Some (mark_module_free empty_module) \<and> live (w_calls w) = {#}"
proof -
  let ?l = "udynlink_load_module_image full_host (Some empty_module) (udynlink_image_from_memory plain_mem 0x1000)
      NULL 0 LOAD_MODE_XIP (start_world plain_mem)"
  have e: "fst ?l = ERR_LOAD_OUT_OF_MEMORY \<and> fst (snd ?l) = Some (mark_module_free empty_module)"
    by (simp add: udynlink_load_module_image_def udynlink_image_from_memory_def plain_sectab plain_checks Let_def
        start_world_def load_provision_ram_def udynlink_external_malloc_def full_host_def load_exit_def
        mark_module_free_def LOAD_SET_MODE_def LOAD_CLR_FOREIGN_RAM_def empty_module_def)
  then obtain w' where l: "?l = (ERR_LOAD_OUT_OF_MEMORY, Some (mark_module_free empty_module), w')"
    by (cases ?l) auto
  have "resolver_quiet full_host" by (simp add: resolver_quiet_def full_host_def bump_host_def)
  from load_balances_allocations [OF _ this _ l] have "live (w_calls w') = {#}"
    by (simp add: empty_module_def start_world_def plain_sectab)
  with l show ?thesis by simp
qed


text \<open>An image without relocations: a function \<open>m\<close> that returns, four bytes of data and four of
  zero-initialised data.\<close>

definition bare_image :: "u32 list" where
  "bare_image = [0x4D4C4455, 0x03000100, 0x00000003, 0x00000000, 16, 4, 4, 4,
    1, 0x1800000C, 0, 0x0000006D, 0x4770BF00, 0x11223344]"

definition bare_mem :: mem where "bare_mem = mem_words 0x1000 bare_image"

lemma bare_header: "read_header bare_mem 0x1000 = \<lparr>h_sign = 0x4D4C4455, h_mod_version = 0x100,
  h_udynlink_version = 0x300, h_arch_tag = 3, h_num_lot = 0, h_num_rels = 0, h_flags = 0,
  h_symt_size = 16, h_code_size = 4, h_data_size = 4, h_bss_size = 4\<rparr>"
  by (simp add: read_header_def bare_mem_def words_eval bare_image_def)

lemma bare_code_offset: "get_code_offset_from_header (read_header bare_mem 0x1000) = 0x30"
  by (simp add: get_code_offset_from_header_def get_symtab_end_offset_def bare_header get_num_sections_raw_def
      is_sectioned_def get_header_size_def acc_defs Let_def)

lemma bare_view:
  assumes "read_header m 0x1000 = read_header bare_mem 0x1000"
  shows "get_sectab m 0x1000 s = (UDYNLINK_OK, \<lparr>v_entries = NULL, v_pool = 0x1020, v_num = 0\<rparr>)"
  by (simp add: get_sectab_def assms bare_header get_sym_table_pointer_def get_header_size_def acc_defs Let_def)

lemma bare_ram_size: "get_ram_size_for_header bare_mem 0x1000 LOAD_MODE_XIP = 8"
  by (simp add: get_ram_size_for_header_def bare_view) (simp add: bare_header is_sectioned_def acc_defs)

lemma bare_valid: "udynlink_validate_header (read_header bare_mem 0x1000) = UDYNLINK_OK"
  by (simp add: bare_header udynlink_validate_header_def udynlink_check_arch_tag_def acc_defs Let_def)

lemma bare_checks: "load_checks bare_mem 0x1000 LOAD_MODE_XIP =
    (UDYNLINK_OK, \<lparr>v_entries = NULL, v_pool = 0x1020, v_num = 0\<rparr>, 4, 8)"
  by (simp add: load_checks_def bare_valid bare_view bare_code_offset)
   (simp add: bare_header bare_ram_size acc_defs Let_def)

text \<open>The module the load leaves, and its memory: data and zeros in the block at \<open>0x20000\<close>.\<close>

definition bare_module :: udynlink_module_t where
  "bare_module = LOAD_CLR_FOREIGN_RAM (LOAD_SET_MODE LOAD_MODE_XIP (empty_module\<lparr>p_header := 0x1000\<rparr>))\<lparr>p_ram := 0x20000\<rparr>"

definition bare_filled :: mem where
  "bare_filled = memset (memcpy bare_mem 0x20000 0x1034 4) 0x20004 0 4"

lemma bare_apart: "x \<in> blk 0x1000 32 \<Longrightarrow> x \<notin> blk 0x20000 4 \<and> x \<notin> blk 0x20004 4"
  using disjoint_sub_blks [of "0x1000" 32 "0x20000" 4 0] disjoint_sub_blks [of "0x1000" 32 "0x20004" 4 0]
  by (auto simp del: mem_blk)

lemma bare_headers: "read_header (memcpy bare_mem 0x20000 0x1034 4) 0x1000 = read_header bare_mem 0x1000"
  "read_header bare_filled 0x1000 = read_header bare_mem 0x1000"
proof -
  show "read_header (memcpy bare_mem 0x20000 0x1034 4) 0x1000 = read_header bare_mem 0x1000"
    by (rule read_header_cong) (drule bare_apart, simp add: memcpy_def)
  show "read_header bare_filled 0x1000 = read_header bare_mem 0x1000"
    by (rule read_header_cong) (drule bare_apart, simp add: bare_filled_def memcpy_def memset_def)
qed

lemma bare_mode: "LOAD_GET_MODE bare_module = LOAD_MODE_XIP" "p_header bare_module = 0x1000" "p_ram bare_module = 0x20000"
  by (simp_all add: bare_module_def LOAD_GET_MODE_def LOAD_CLR_FOREIGN_RAM_def LOAD_SET_MODE_def empty_module_def acc_defs)


lemma bare_image_parts: "i_relocations (udynlink_image_from_memory bare_mem 0x1000) = 0x1020"
  "i_symtab (udynlink_image_from_memory bare_mem 0x1000) = 0x1020" "i_data (udynlink_image_from_memory bare_mem 0x1000) = 0x1034"
  using untagged_image [of "read_header bare_mem 0x1000" bare_mem "0x1000"]
  by (simp_all add: bare_code_offset) (simp_all add: bare_header is_sectioned_def get_header_size_def acc_defs)

lemma bare_loaded:
  "load_untagged (udynlink_image_from_memory bare_mem 0x1000) 0x1000 \<lparr>v_entries = NULL, v_pool = 0x1020, v_num = 0\<rparr>
     LOAD_MODE_XIP bare_module bare_mem = (bare_module, bare_filled)"
proof -
  have u: "\<not> is_sectioned (read_header (memcpy bare_mem 0x20000 0x1034 4) (p_header bare_module))"
    by (simp add: bare_mode bare_headers bare_header is_sectioned_def acc_defs)
  have d: "get_data_pointer (memcpy bare_mem 0x20000 0x1034 4) bare_module = 0x20000"
    unfolding untagged_pointers(2) [OF u] by (simp add: bare_mode bare_headers bare_header)
  have "copy_untagged (udynlink_image_from_memory bare_mem 0x1000) 0x1000 \<lparr>v_entries = NULL, v_pool = 0x1020, v_num = 0\<rparr>
      LOAD_MODE_XIP bare_module bare_mem = (bare_module, memcpy bare_mem 0x20000 0x1034 4)"
    by (simp add: copy_untagged_def load_p_temp8_def get_nonmain_bases_size_def bare_image_parts bare_mode)
       (simp add: bare_header bare_image_parts Let_def)
  then show ?thesis
    by (simp add: load_untagged_def bare_headers) (simp add: bare_header bare_filled_def d)
qed

lemma bare_relocated: "w_mem w = bare_filled \<Longrightarrow>
    udynlink_load_apply_relocations bump_host bare_module 0x1000 r s w = (UDYNLINK_OK, w)"
  by (simp add: udynlink_load_apply_relocations_def bare_view [OF bare_headers(2)])
    (simp add: for_u16.simps bare_headers bare_header Let_def is_sectioned_def acc_defs)

lemma bare_load:
  "\<exists>pm w. udynlink_load_module_image bump_host (Some empty_module) (udynlink_image_from_memory bare_mem 0x1000)
       NULL 0 LOAD_MODE_XIP (start_world bare_mem) = (UDYNLINK_OK, Some pm, w)
     \<and> p_header pm = 0x1000 \<and> w_mem w = bare_filled"
proof -
  let ?v = "\<lparr>v_entries = NULL, v_pool = 0x1020, v_num = 0\<rparr>"
  have "\<exists>w. load_provision_ram bump_host 0x1000 ?v 4 8 NULL 0 (LOAD_SET_MODE LOAD_MODE_XIP (empty_module\<lparr>p_header := 0x1000\<rparr>))
      (start_world bare_mem) = (UDYNLINK_OK, bare_module, w) \<and> w_mem w = bare_mem"
    by (simp add: load_provision_ram_def udynlink_external_malloc_def bump_host_def start_world_def bare_module_def)
  then obtain w1 where p: "load_provision_ram bump_host 0x1000 ?v 4 8 NULL 0
      (LOAD_SET_MODE LOAD_MODE_XIP (empty_module\<lparr>p_header := 0x1000\<rparr>)) (start_world bare_mem) = (UDYNLINK_OK, bare_module, w1)"
    and w1: "w_mem w1 = bare_mem" by blast
  have f: "load_fill bump_host (udynlink_image_from_memory bare_mem 0x1000) 0x1000 ?v LOAD_MODE_XIP bare_module w1
      = (UDYNLINK_OK, bare_module\<lparr>num_named_syms := compute_num_named_syms bare_filled 0x1000\<rparr>, w1\<lparr>w_mem := bare_filled\<rparr>)"
    by (simp add: load_fill_def w1 bare_loaded bare_relocated bare_mode)
  have "w_mem (start_world bare_mem) = bare_mem" by (simp add: start_world_def)
  then show ?thesis
    by (simp add: udynlink_load_module_image_def bare_checks p f load_exit_def bare_mode)
qed

theorem unload_undoes_load_witness:
  "case udynlink_load_module_image bump_host (Some empty_module) (udynlink_image_from_memory bare_mem 0x1000)
      NULL 0 LOAD_MODE_XIP (start_world bare_mem) of (err, pm, w) \<Rightarrow>
    (case udynlink_unload_module bump_host pm w of (err2, pm2, w2) \<Rightarrow>
      err = UDYNLINK_OK \<and> err2 = UDYNLINK_OK \<and> live (w_calls w2) = {#})"
proof -
  obtain pm w where l: "udynlink_load_module_image bump_host (Some empty_module) (udynlink_image_from_memory bare_mem 0x1000)
       NULL 0 LOAD_MODE_XIP (start_world bare_mem) = (UDYNLINK_OK, Some pm, w)"
    and pm: "p_header pm = 0x1000" "w_mem w = bare_filled" using bare_load by blast
  obtain err2 pm2 w2 where u: "udynlink_unload_module bump_host (Some pm) w = (err2, Some pm2, w2)"
    by (simp add: udynlink_unload_module_def pm bare_view [OF bare_headers(2)] Let_def)
  have q: "resolver_quiet bump_host" by (simp add: resolver_quiet_def bump_host_def)
  have "p_ram empty_module = NULL" by (simp add: empty_module_def)
  from unload_undoes_load [OF this q _ l _ _ u] have "err2 = UDYNLINK_OK \<and> live (w_calls w2) = {#}"
    by (simp add: pm bare_view bare_headers start_world_def)
  then show ?thesis by (simp add: l u)
qed


definition ram_module :: udynlink_module_t where
  "ram_module = LOAD_SET_MODE LOAD_MODE_COPY_ALL (empty_module\<lparr>p_header := 0x1000, p_ram := 0x20000\<rparr>)"

lemma ram_mode: "LOAD_GET_MODE ram_module = LOAD_MODE_COPY_ALL" "p_header ram_module = 0x1000" "p_ram ram_module = 0x20000"
  by (simp_all add: ram_module_def LOAD_GET_MODE_def LOAD_SET_MODE_def empty_module_def acc_defs)

lemma ram_fill_ok: "fill_ok plain_mem 0x1000 ram_module"
proof -
  have "blk (0 + 0x1000) 0x7C \<inter> blk (0 + 0x20000) 140 = {}" by (rule disjoint_sub_blks) simp_all
  then show ?thesis
    by (simp add: fill_ok_def ram_mode plain_ram_size plain_code_offset del: mem_blk)
      (simp add: plain_header is_sectioned_def header_words_ok_def acc_defs del: mem_blk)
qed

theorem untagged_block_filled_witness:
  "case load_untagged (udynlink_image_from_memory plain_mem 0x1000) 0x1000 \<lparr>v_entries = NULL, v_pool = 0x1040, v_num = 0\<rparr>
      LOAD_MODE_COPY_ALL ram_module plain_mem of (pm', m') \<Rightarrow> block_filled m' plain_mem 0x1000 pm' \<and> m' 0x1000 = plain_mem 0x1000"
proof -
  obtain pm' m' where l: "load_untagged (udynlink_image_from_memory plain_mem 0x1000) 0x1000
      \<lparr>v_entries = NULL, v_pool = 0x1040, v_num = 0\<rparr> LOAD_MODE_COPY_ALL ram_module plain_mem = (pm', m')" by (metis surj_pair)
  have "block_filled m' plain_mem 0x1000 pm' \<and> (\<forall>a. a \<notin> blk 0x20000 140 \<longrightarrow> m' a = plain_mem a)"
    using untagged_block_filled [OF ram_fill_ok, of "\<lparr>v_entries = NULL, v_pool = 0x1040, v_num = 0\<rparr>" pm' m'] l
    by (simp add: ram_mode plain_ram_size del: mem_blk)
  then show ?thesis unfolding l by simp
qed

end
