(* ===== verification/RelocateSpec.thy ===== *)
theory RelocateSpec
  imports Relocate RelocSpec LoadSpec
begin

text \<open>
  Moving a module: which moves are refused and what a refused move leaves, and that a moved
  untagged module is linked at its new place as it was at the old one, in every load mode.
\<close>

section \<open>Move lists\<close>

text \<open>C34: a list of section moves is accepted exactly when it names distinct tagged sections of the
  table and gives each a non-null base with the section's alignment.\<close>

theorem check_moves_iff:
  "check_moves m tab [] mvs = UDYNLINK_OK \<longleftrightarrow>
     distinct (map mv_idx mvs) \<and>
     list_all (\<lambda>mv. 3 \<le> mv_idx mv \<and> mv_idx mv < v_num tab \<and> mv_new_base mv \<noteq> NULL
       \<and> mv_new_base mv AND (e_align (sect_entry_at m tab (mv_idx mv)) - 1) = 0) mvs"
proof -
  have "check_moves m tab seen mvs = UDYNLINK_OK \<longleftrightarrow>
     distinct (map mv_idx mvs) \<and> set (map mv_idx mvs) \<inter> set (map mv_idx seen) = {} \<and>
     list_all (\<lambda>mv. 3 \<le> mv_idx mv \<and> mv_idx mv < v_num tab \<and> mv_new_base mv \<noteq> NULL
       \<and> mv_new_base mv AND (e_align (sect_entry_at m tab (mv_idx mv)) - 1) = 0) mvs" for seen
    by (induction mvs arbitrary: seen) (auto simp: list_ex_iff intro: rev_image_eqI)
  from this [of "[]"] show ?thesis by simp
qed

section \<open>Refused moves\<close>

lemma refused_sectioned:
  assumes "relocate_sectioned x pm new_ram new_size n moves w = (res, pm', w')" and "res \<noteq> UDYNLINK_OK"
  shows "pm' = pm \<and> w_mem w' = w_mem w \<and> live (w_calls w') = live (w_calls w)"
proof -
  have prov: "p1 = pm \<and> w_mem w1 = w_mem w \<and> live (w_calls w1) = live (w_calls w)"
    if "relocate_provision x pm new_ram new_size n al w = (r, d, p1, w1)" "r \<noteq> UDYNLINK_OK" for al r d p1 w1
    using that by (auto simp: relocate_provision_def udynlink_external_malloc_def split: prod.splits if_splits)
  show ?thesis
    using assms prov by (auto simp: relocate_sectioned_def Let_def split: prod.splits if_splits)
qed

text \<open>C33: a refused move of a sectioned module leaves the handle, memory and the set of blocks in use
  as they were, whichever check refuses it (the allocator may have been asked, in vain).\<close>

theorem refused_move_changes_nothing:
  assumes "is_sectioned (read_header (w_mem w) (p_header pm))"
    and "udynlink_relocate_module_sections x (Some pm) new_ram new_size moves w = (res, pm', w')" and "res \<noteq> UDYNLINK_OK"
  shows "pm' = Some pm \<and> w_mem w' = w_mem w \<and> live (w_calls w') = live (w_calls w)"
  using assms by (auto simp: udynlink_relocate_module_sections_def relocate_main_block_def Let_def
      split: prod.splits if_splits option.splits list.splits dest: refused_sectioned)

text \<open>An untagged module is not as well off: the ownership flag changes before the checks, and a move
  onto the module's own block frees it.\<close>

lemma failed_move_changes_owner:
  assumes "n > 0" and "new_ram \<noteq> NULL" and "new_size < n" and "p_ram pm \<noteq> NULL" and "\<not> LOAD_IS_FOREIGN_RAM pm"
  shows "relocate_untagged x pm new_ram new_size n w = (ERR_LOAD_RAM_LEN_LOW, LOAD_SET_FOREIGN_RAM pm, w)"
    and "owned pm = {#p_ram pm#}" and "owned (LOAD_SET_FOREIGN_RAM pm) = {#}"
  using assms by (auto simp: relocate_untagged_def owned_def Let_def)

lemma move_onto_itself_frees_block:
  assumes "n > 0" and "n \<le> new_size" and "p_ram pm \<noteq> NULL" and "\<not> LOAD_IS_FOREIGN_RAM pm"
  shows "relocate_untagged x pm (p_ram pm) new_size n w =
    (UDYNLINK_OK, LOAD_SET_FOREIGN_RAM pm, udynlink_external_free x (p_ram pm) NULL 4 0 w)"
  using assms by (simp add: relocate_untagged_def Let_def not_less [symmetric])

theorem refused_move_changes_nothing_witness:
  "case udynlink_relocate_module_sections bump_host (Some (empty_module\<lparr>p_header := 0x1000, p_ram := 0x20000\<rparr>)) NULL 0
      (Some [\<lparr>mv_idx = 3, mv_new_base = 0x20008\<rparr>]) (start_world tagged_mem) of (res, pm', w') \<Rightarrow>
    res = ERR_LOAD_SECTION_UNALIGNED \<and> w_mem w' = tagged_mem"
proof -
  let ?pm = "empty_module\<lparr>p_header := 0x1000, p_ram := 0x20000\<rparr>"
  let ?mv = "[\<lparr>mv_idx = 3, mv_new_base = 0x20008\<rparr>]"
  have sec: "is_sectioned (read_header (w_mem (start_world tagged_mem)) (p_header ?pm))"
    by (simp add: start_world_def tagged_header is_sectioned_def acc_defs)
  have "check_moves tagged_mem tagged_view [] ?mv = ERR_LOAD_SECTION_UNALIGNED"
    by (simp add: tagged_view_def tagged_entry [unfolded tagged_view_def])
  moreover have "v_num tagged_view \<noteq> 0" by (simp add: tagged_view_def)
  ultimately have "fst (udynlink_relocate_module_sections bump_host (Some ?pm) NULL 0 (Some ?mv) (start_world tagged_mem))
      = ERR_LOAD_SECTION_UNALIGNED"
    using sec by (simp add: udynlink_relocate_module_sections_def start_world_def tagged_sectab Let_def)
  then obtain pm' w' where r: "udynlink_relocate_module_sections bump_host (Some ?pm) NULL 0 (Some ?mv) (start_world tagged_mem)
      = (ERR_LOAD_SECTION_UNALIGNED, pm', w')" by (metis prod.collapse)
  show ?thesis
    using refused_move_changes_nothing [OF sec r] by (simp add: r) (simp add: start_world_def)
qed

section \<open>Linked modules\<close>

text \<open>The word entry \<open>i\<close> asks for, as a function of where code and data are: \<open>c i\<close> is the constant part
  of the entry (the addend of an in-place sum, the address the host gave an extern or overridden
  weak symbol, 0 for a weak symbol left to the module's own definition).\<close>

definition link_word :: "mem \<Rightarrow> udynlink_module_t \<Rightarrow> (nat \<Rightarrow> u32) \<Rightarrow> nat \<Rightarrow> u32" where
  "link_word m pm c i =
     (let so = reloc_symt_offset m (get_relocs_pointer m pm) i; cp = get_code_pointer m pm; dp = get_data_pointer m pm
      in if is_abs32 so then dp + c i
         else if is_code_base so then cp + c i
         else case get_sym_at m (p_header pm) so of
             None \<Rightarrow> c i
           | Some s \<Rightarrow>
               let own = (if s_location s = UDYNLINK_SYM_LOCATION_CODE then cp else dp) + s_val s
               in if s_type s = UDYNLINK_SYM_TYPE_INTERNAL \<or> s_type s = UDYNLINK_SYM_TYPE_EXPORTED then own
                  else if s_type s = UDYNLINK_SYM_TYPE_WEAK \<and> c i = 0 then own
                  else c i)"

definition linked :: "mem \<Rightarrow> udynlink_module_t \<Rightarrow> sect_view_t \<Rightarrow> (nat \<Rightarrow> u32) \<Rightarrow> bool" where
  "linked m pm tab c \<longleftrightarrow>
     (\<forall>i < unat (h_num_rels (read_header m (p_header pm))).
        rd32 m (slot_target m pm tab (get_relocs_pointer m pm) i) = link_word m pm c i)"

text \<open>The code cannot tell an overridden weak word from a default one of the same value.\<close>

definition weak_entry :: "mem \<Rightarrow> udynlink_module_t \<Rightarrow> u32 \<Rightarrow> bool" where
  "weak_entry m pm so \<longleftrightarrow> \<not> is_abs32 so \<and> \<not> is_code_base so
     \<and> (\<exists>s. get_sym_at m (p_header pm) so = Some s \<and> s_type s = UDYNLINK_SYM_TYPE_WEAK)"

definition overrides_differ :: "mem \<Rightarrow> udynlink_module_t \<Rightarrow> (nat \<Rightarrow> u32) \<Rightarrow> bool" where
  "overrides_differ m pm c \<longleftrightarrow>
     (\<forall>i < unat (h_num_rels (read_header m (p_header pm))).
        weak_entry m pm (reloc_symt_offset m (get_relocs_pointer m pm) i) \<and> c i \<noteq> 0
        \<longrightarrow> link_word m pm (\<lambda>_. 0) i \<noteq> c i)"

text \<open>The same symbol at another place: its name moves with the table.\<close>

definition same_symbol :: "udynlink_sym_t \<Rightarrow> udynlink_sym_t \<Rightarrow> bool" where
  "same_symbol s' s \<longleftrightarrow> s_val s' = s_val s \<and> s_type s' = s_type s \<and> s_location s' = s_location s"

text \<open>Two memories with the same metadata around their handles.\<close>

lemma link_word_moved:
  assumes so: "reloc_symt_offset m' (get_relocs_pointer m' pm') i = reloc_symt_offset m (get_relocs_pointer m pm) i"
    and sym: "\<not> is_abs32 so \<and> \<not> is_code_base so
      \<Longrightarrow> rel_option same_symbol (get_sym_at m' (p_header pm') so) (get_sym_at m (p_header pm) so)"
    and so_def: "so = reloc_symt_offset m (get_relocs_pointer m pm) i"
    and cp: "get_code_pointer m' pm' = get_code_pointer m pm + cd" and dp: "get_data_pointer m' pm' = get_data_pointer m pm + dd"
    and word: "rd32 m' (slot_target m' pm' tab (get_relocs_pointer m' pm') i) = link_word m pm c i"
    and differ: "weak_entry m pm so \<Longrightarrow> c i \<noteq> 0 \<Longrightarrow> link_word m pm (\<lambda>_. 0) i \<noteq> c i"
  shows "link_word m pm c i + rebase_shift m' pm' tab cd dd (get_code_pointer m pm) (get_data_pointer m pm) i
    = link_word m' pm' c i"
proof (cases "is_abs32 so \<or> is_code_base so")
  case True
  then show ?thesis
    using so unfolding link_word_def rebase_shift_def so_def by (auto simp: Let_def cp dp)
next
  case False
  then have s': "rel_option same_symbol (get_sym_at m' (p_header pm') so) (get_sym_at m (p_header pm) so)" by (simp add: sym)
  show ?thesis
    using False so s' word differ unfolding link_word_def rebase_shift_def weak_entry_def so_def [symmetric]
    by (cases "get_sym_at m (p_header pm) so"; cases "get_sym_at m' (p_header pm') so")
       (auto simp: Let_def cp dp so_def [symmetric] same_symbol_def split: if_splits)
qed

section \<open>Moving an untagged module\<close>

text \<open>The metadata of a module loaded whole lies in its block and moves with it; otherwise it stays
  where it is, and the new block must not meet it.\<close>

definition header_shift :: "udynlink_module_t \<Rightarrow> u32 \<Rightarrow> u32" where
  "header_shift pm d = (if LOAD_GET_MODE pm = LOAD_MODE_COPY_ALL then d else 0)"

definition move_ok :: "mem \<Rightarrow> udynlink_module_t \<Rightarrow> sect_view_t \<Rightarrow> addr \<Rightarrow> u32 \<Rightarrow> bool" where
  "move_ok m pm tab dest n \<longleftrightarrow>
     (let rels = get_relocs_pointer m pm;
          meta = walk_metadata m pm (p_header pm) rels (get_sym_table_pointer m (p_header pm))
      in rebase_ok m pm tab \<and> LOAD_GET_MODE pm \<noteq> LOAD_MODE_RESERVED
         \<and> p_ram pm \<noteq> NULL \<and> dest \<noteq> NULL \<and> unat dest + unat n \<le> 2 ^ 32
         \<and> slots m pm tab rels (unat (h_num_rels (read_header m (p_header pm)))) \<subseteq> blk (p_ram pm) n
         \<and> blk dest n \<inter> blk (p_ram pm) n = {}
         \<and> (if LOAD_GET_MODE pm = LOAD_MODE_COPY_ALL
            then p_header pm = p_ram pm + lot_size (read_header m (p_header pm)) \<and> meta \<subseteq> blk (p_ram pm) n
            else blk dest n \<inter> meta = {}))"

lemma null_outside:
  assumes "p \<noteq> NULL" and "unat p + unat n \<le> 2 ^ 32"
  shows "NULL \<notin> blk p n"
proof -
  have "unat (NULL - p) = 2 ^ 32 - unat p" using assms(1) by (subst unat_sub_if_size) (simp add: word_size unat_eq_0)
  then show ?thesis using assms(2) unat_u32_less [of p] by (simp add: word_less_nat_alt)
qed

lemma shifted_blk: "a \<in> blk (p + d) k \<longleftrightarrow> a - d \<in> blk p k"
  by (simp add: algebra_simps)

lemma shifted_subset:
  assumes "blk t k \<subseteq> blk old n"
  shows "blk (t + (dest - old)) k \<subseteq> blk dest n"
proof
  fix x assume "x \<in> blk (t + (dest - old)) k"
  then have "x - (dest - old) \<in> blk t k" by (simp only: shifted_blk)
  then have "x - (dest - old) \<in> blk old n" using assms by blast
  then show "x \<in> blk dest n" by (simp add: algebra_simps)
qed

lemma memcpy_moved:
  assumes "blk t k \<subseteq> blk old n" and "x \<in> blk t k"
  shows "memcpy m dest old n (x + (dest - old)) = m x"
proof -
  have "x - old < n" using assms by auto
  then show ?thesis by (simp add: memcpy_def algebra_simps)
qed

lemma rd32_moved:
  assumes "blk t 4 \<subseteq> blk old n"
  shows "rd32 (memcpy m dest old n) (t + (dest - old)) = rd32 m t"
proof -
  have b: "memcpy m dest old n (t + k + (dest - old)) = m (t + k)" if "k < 4" for k
    by (rule memcpy_moved [OF assms]) (use that in simp)
  have "memcpy m dest old n (t + (dest - old)) = m t" using b [of 0] by simp
  moreover have "memcpy m dest old n (t + (dest - old) + k) = m (t + k)" if "k < 4" for k
    using b [OF that] by (simp add: ac_simps)
  ultimately show ?thesis by (simp add: rd32_def)
qed

text \<open>Reading a shifted memory is reading at the shifted address.\<close>

abbreviation seen_from :: "u32 \<Rightarrow> mem \<Rightarrow> mem" where
  "seen_from d m \<equiv> \<lambda>a. m (a + d)"

lemma shifted_reads:
  "rd32 (seen_from d m) p = rd32 m (p + d)" "rd16 (seen_from d m) p = rd16 m (p + d)"
  "read_header (seen_from d m) p = read_header m (p + d)"
  "reloc_lot_offset (seen_from d m) p i = reloc_lot_offset m (p + d) i"
  "reloc_symt_offset (seen_from d m) p i = reloc_symt_offset m (p + d) i"
proof -
  show w: "rd32 (seen_from d m) p = rd32 m (p + d)" for p by (simp add: rd32_def ac_simps)
  show h: "rd16 (seen_from d m) p = rd16 m (p + d)" for p by (simp add: rd16_def ac_simps)
  show "read_header (seen_from d m) p = read_header m (p + d)"
    by (simp add: read_header_def w h ac_simps)
  show "reloc_lot_offset (seen_from d m) p i = reloc_lot_offset m (p + d) i"
    "reloc_symt_offset (seen_from d m) p i = reloc_symt_offset m (p + d) i"
    by (simp_all add: reloc_lot_offset_def reloc_symt_offset_def w ac_simps)
qed

lemma shifted_symbol:
  "rel_option same_symbol (get_sym_at_raw m (p + d) so sz) (get_sym_at_raw (seen_from d m) p so sz)"
proof -
  have "rd32 (seen_from d m) (p + k) = rd32 m (p + d + k)" for k by (simp add: shifted_reads ac_simps)
  then show ?thesis by (simp add: get_sym_at_raw_def shifted_reads(1) Let_def same_symbol_def)
qed

text \<open>What the moved handle sees in the copied memory.\<close>

lemma moved_pointers:
  assumes u: "\<not> is_sectioned (read_header m (p_header pm))" and h: "read_header m' (p_header pm') = read_header m (p_header pm)"
    and pm': "p_header pm' = p_header pm + header_shift pm d" "p_ram pm' = p_ram pm + d" "LOAD_GET_MODE pm' = LOAD_GET_MODE pm"
    and md: "LOAD_GET_MODE pm \<noteq> LOAD_MODE_RESERVED"
  shows "get_data_pointer m' pm' = get_data_pointer m pm + d"
    and "get_code_pointer m' pm' = get_code_pointer m pm + (if LOAD_GET_MODE pm = LOAD_MODE_XIP then 0 else d)"
proof -
  have u': "\<not> is_sectioned (read_header m' (p_header pm'))" using u h by simp
  show "get_data_pointer m' pm' = get_data_pointer m pm + d"
    unfolding untagged_pointers(2) [OF u] untagged_pointers(2) [OF u'] unfolding h unfolding pm' header_shift_def
    using md by (simp split: udynlink_load_mode_t.splits)
  show "get_code_pointer m' pm' = get_code_pointer m pm + (if LOAD_GET_MODE pm = LOAD_MODE_XIP then 0 else d)"
    unfolding untagged_pointers(1) [OF u] untagged_pointers(1) [OF u'] unfolding h unfolding pm' header_shift_def
    using md by (cases "LOAD_GET_MODE pm") simp_all
qed

lemma moved_target:
  assumes u: "\<not> is_sectioned (read_header m (p_header pm))" and h: "read_header m' (p_header pm') = read_header m (p_header pm)"
    and pm': "p_header pm' = p_header pm + header_shift pm d" "p_ram pm' = p_ram pm + d" "LOAD_GET_MODE pm' = LOAD_GET_MODE pm"
    and md: "LOAD_GET_MODE pm \<noteq> LOAD_MODE_RESERVED"
    and v: "v_num tab = 0" and t: "get_reloc_target m pm tab lo \<noteq> NULL" and r: "p_ram pm' \<noteq> NULL"
  shows "get_reloc_target m' pm' tab lo = get_reloc_target m pm tab lo + d"
  using t r v moved_pointers(1) [OF u h pm' md] unfolding get_reloc_target_def h
  by (auto simp: Let_def pm' split: if_splits)

text \<open>The metadata after the copy, at its new or old place.\<close>

lemma moved_metadata:
  assumes ok: "move_ok m pm tab dest n" and m2: "m2 = memcpy m dest (p_ram pm) n"
    and a: "a \<in> walk_metadata m pm (p_header pm) (get_relocs_pointer m pm) (get_sym_table_pointer m (p_header pm))"
  shows "m2 (a + header_shift pm (dest - p_ram pm)) = m a"
proof (cases "LOAD_GET_MODE pm = LOAD_MODE_COPY_ALL")
  case True
  then have "a \<in> blk (p_ram pm) n" using ok a by (auto simp: move_ok_def Let_def)
  from memcpy_moved [OF subset_refl this] show ?thesis by (simp add: m2 header_shift_def True)
next
  case False
  then have "a \<notin> blk dest n" using ok a by (auto simp: move_ok_def Let_def)
  then show ?thesis by (simp add: m2 header_shift_def False memcpy_def)
qed

lemma moved_tables:
  assumes ok: "move_ok m pm tab dest n" and m2: "m2 = memcpy m dest (p_ram pm) n"
    and pm': "p_header pm' = p_header pm + header_shift pm (dest - p_ram pm)" "p_ram pm' = dest"
      "LOAD_GET_MODE pm' = LOAD_GET_MODE pm"
  defines "num \<equiv> unat (h_num_rels (read_header m (p_header pm)))" and "rels \<equiv> get_relocs_pointer m pm"
    and "rels' \<equiv> get_relocs_pointer m pm + header_shift pm (dest - p_ram pm)"
  shows "read_header m2 (p_header pm') = read_header m (p_header pm)" "get_relocs_pointer m2 pm' = rels'"
    "get_sym_table_pointer m2 (p_header pm') = get_sym_table_pointer m (p_header pm) + header_shift pm (dest - p_ram pm)"
    and "i < num \<Longrightarrow> reloc_lot_offset m2 rels' i = reloc_lot_offset m rels i"
    and "i < num \<Longrightarrow> reloc_symt_offset m2 rels' i = reloc_symt_offset m rels i"
    and "unat so < 2 ^ 31 - 1
      \<Longrightarrow> rel_option same_symbol (get_sym_at m2 (p_header pm') so) (get_sym_at m (p_header pm) so)"
    and "i < num \<Longrightarrow> slot_target m2 pm' tab rels' i = slot_target m pm tab rels i + (dest - p_ram pm)"
    and "i < num \<Longrightarrow> slot_target m2 pm' tab rels' i \<noteq> NULL \<and> blk (slot_target m2 pm' tab rels' i) 4 \<subseteq> blk dest n"
    and "i < num \<Longrightarrow> rd32 m2 (slot_target m2 pm' tab rels' i) = rd32 m (slot_target m pm tab rels i)"
proof -
  let ?st = "get_sym_table_pointer m (p_header pm)" and ?s = "header_shift pm (dest - p_ram pm)"
  have sok: "slots_ok m pm tab (p_header pm) rels ?st" and nn: "\<And>i. i < num \<Longrightarrow> slot_target m pm tab rels i \<noteq> NULL"
    and u: "\<not> is_sectioned (read_header m (p_header pm))" and v: "v_num tab = 0"
    and md: "LOAD_GET_MODE pm \<noteq> LOAD_MODE_RESERVED"
    and sub: "slots m pm tab rels num \<subseteq> blk (p_ram pm) n"
    and d: "dest \<noteq> NULL" "unat dest + unat n \<le> 2 ^ 32"
    using ok by (auto simp: move_ok_def rebase_ok_def slots_ok_def Let_def num_def rels_def)
  have eq: "seen_from ?s m2 a = m a" if "a \<in> walk_metadata m pm (p_header pm) rels ?st" for a
    using moved_metadata [OF ok m2] that by (simp only: rels_def)
  note c = walk_cong [of m pm "p_header pm" rels ?st "seen_from ?s m2", OF eq, folded num_def, unfolded shifted_reads]
  show h: "read_header m2 (p_header pm') = read_header m (p_header pm)"
  proof -
    have "read_header (seen_from ?s m2) (p_header pm) = read_header m (p_header pm)"
      by (rule read_header_cong, rule eq) (simp add: walk_metadata_def)
    then show ?thesis by (simp add: shifted_reads pm'(1))
  qed
  show "get_relocs_pointer m2 pm' = rels'"
    unfolding get_relocs_pointer_def h unfolding rels'_def get_relocs_pointer_def by (simp add: pm'(1))
  show st: "get_sym_table_pointer m2 (p_header pm') = ?st + ?s"
    unfolding get_sym_table_pointer_def h Let_def by (simp add: pm'(1))
  show lo: "reloc_lot_offset m2 rels' i = reloc_lot_offset m rels i" if "i < num" for i
    using c(3) [OF _ that] by (simp only: rels'_def rels_def)
  show "reloc_symt_offset m2 rels' i = reloc_symt_offset m rels i" if "i < num"
    using c(4) [OF _ that] by (simp only: rels'_def rels_def)
  show "rel_option same_symbol (get_sym_at m2 (p_header pm') so) (get_sym_at m (p_header pm) so)" if "unat so < 2 ^ 31 - 1"
  proof -
    have "get_sym_at_raw (seen_from ?s m2) ?st so (h_symt_size (read_header m (p_header pm))) = get_sym_at m (p_header pm) so"
      unfolding get_sym_at_def by (rule get_sym_at_raw_cong [OF _ that], rule eq) (simp add: walk_metadata_def)
    then show ?thesis
      using shifted_symbol [of m2 ?st ?s so "h_symt_size (read_header m (p_header pm))"] by (simp add: get_sym_at_def st h)
  qed
  show tg: "slot_target m2 pm' tab rels' i = slot_target m pm tab rels i + (dest - p_ram pm)" if "i < num" for i
    unfolding slot_target_def lo [OF that]
    by (rule moved_target [OF u h pm'(1) _ pm'(3) md v]) (use nn [OF that] d pm' in \<open>simp_all add: slot_target_def\<close>)
  have inb: "blk (slot_target m pm tab rels i) 4 \<subseteq> blk (p_ram pm) n" if "i < num" for i
    using slot_subset [OF that nn [OF that]] sub by blast
  show "slot_target m2 pm' tab rels' i \<noteq> NULL \<and> blk (slot_target m2 pm' tab rels' i) 4 \<subseteq> blk dest n" if "i < num"
  proof
    show b: "blk (slot_target m2 pm' tab rels' i) 4 \<subseteq> blk dest n"
      unfolding tg [OF that] by (rule shifted_subset [OF inb [OF that]])
    have "slot_target m2 pm' tab rels' i \<in> blk dest n" by (rule subsetD [OF b]) simp
    moreover have "NULL \<notin> blk dest n" by (rule null_outside [OF d])
    ultimately show "slot_target m2 pm' tab rels' i \<noteq> NULL" by metis
  qed
  show "rd32 m2 (slot_target m2 pm' tab rels' i) = rd32 m (slot_target m pm tab rels i)" if "i < num"
    using rd32_moved [OF inb [OF that], of m dest] by (simp add: tg [OF that] m2 [symmetric])
qed

lemma moved_rebase_ok:
  assumes ok: "move_ok m pm tab dest n" and m2: "m2 = memcpy m dest (p_ram pm) n"
    and pm': "p_header pm' = p_header pm + header_shift pm (dest - p_ram pm)" "p_ram pm' = dest"
      "LOAD_GET_MODE pm' = LOAD_GET_MODE pm"
  shows "rebase_ok m2 pm' tab"
proof -
  note t = moved_tables [OF ok m2 pm']
  let ?num = "unat (h_num_rels (read_header m (p_header pm)))" and ?rels = "get_relocs_pointer m pm"
  let ?st = "get_sym_table_pointer m (p_header pm)" and ?d = "dest - p_ram pm" and ?s = "header_shift pm (dest - p_ram pm)"
  have sok: "slots_ok m pm tab (p_header pm) ?rels ?st"
    and lot: "\<And>i. i < ?num \<Longrightarrow> is_abs32 (reloc_symt_offset m ?rels i) \<or> is_code_base (reloc_symt_offset m ?rels i)
      \<Longrightarrow> \<not> reloc_lot_offset m ?rels i < ucast (h_num_lot (read_header m (p_header pm)))"
    and nn: "\<And>i. i < ?num \<Longrightarrow> slot_target m pm tab ?rels i \<noteq> NULL"
    and clear: "LOAD_GET_MODE pm \<noteq> LOAD_MODE_COPY_ALL \<Longrightarrow> blk dest n \<inter> walk_metadata m pm (p_header pm) ?rels ?st = {}"
    using ok by (auto simp: move_ok_def rebase_ok_def Let_def)
  have meta: "a - ?s \<in> walk_metadata m pm (p_header pm) ?rels ?st"
    if "a \<in> walk_metadata m2 pm' (p_header pm') (?rels + ?s) (?st + ?s)" for a
    using that unfolding walk_metadata_def t(1) unfolding pm'(1) Un_iff shifted_blk .
  have old: "a - ?d \<in> blk (slot_target m pm tab ?rels i) 4"
    if "i < ?num" "a \<in> blk (slot_target m2 pm' tab (?rels + ?s) i) 4" for i a
    using that(2) unfolding t(7) [OF that(1)] shifted_blk .
  have disj: "slots m2 pm' tab (?rels + ?s) ?num \<inter> walk_metadata m2 pm' (p_header pm') (?rels + ?s) (?st + ?s) = {}"
  proof (cases "LOAD_GET_MODE pm = LOAD_MODE_COPY_ALL")
    case True
    have "a - ?d \<in> slots m pm tab ?rels ?num" if "a \<in> slots m2 pm' tab (?rels + ?s) ?num" for a
      using that old nn unfolding slots_def by blast
    then show ?thesis using meta sok True unfolding slots_ok_def header_shift_def Let_def by auto
  next
    case False
    have "slots m2 pm' tab (?rels + ?s) ?num \<subseteq> blk dest n" using t(8) unfolding slots_def by blast
    then show ?thesis using meta clear [OF False] False unfolding header_shift_def by auto
  qed
  have apart: "blk (slot_target m2 pm' tab (?rels + ?s) i) 4 \<inter> blk (slot_target m2 pm' tab (?rels + ?s) j) 4 = {}"
    if "i < ?num" "j < ?num" "i \<noteq> j" for i j
    using slots_ok_distinct [OF sok that nn [OF that(1)] nn [OF that(2)]] old [OF that(1)] old [OF that(2)] by blast
  have "slots_ok m2 pm' tab (p_header pm') (?rels + ?s) (?st + ?s)"
    unfolding slots_ok_def Let_def t(1) using sok disj apart unfolding slots_ok_def Let_def by blast
  then show ?thesis
    unfolding rebase_ok_def Let_def t(1-3) using t(4,5,8) lot by auto
qed

lemma mode_of_flag [simp]: "LOAD_GET_MODE (LOAD_SET_FOREIGN_RAM pm) = LOAD_GET_MODE pm"
  "LOAD_GET_MODE (LOAD_CLR_FOREIGN_RAM pm) = LOAD_GET_MODE pm"
proof -
  have "(v OR 4) AND 3 = v AND 3" for v :: u8 by (simp add: bit.conj_disj_distrib2)
  moreover have "(v AND NOT 4) AND 3 = v AND 3" for v :: u8 by (simp add: and.assoc)
  ultimately show "LOAD_GET_MODE (LOAD_SET_FOREIGN_RAM pm) = LOAD_GET_MODE pm"
    "LOAD_GET_MODE (LOAD_CLR_FOREIGN_RAM pm) = LOAD_GET_MODE pm"
    by (simp_all add: LOAD_GET_MODE_def LOAD_SET_FOREIGN_RAM_def LOAD_CLR_FOREIGN_RAM_def acc_defs)
qed

lemma mode_pointers [simp]: "LOAD_GET_MODE (pm\<lparr>p_ram := a\<rparr>) = LOAD_GET_MODE pm"
  "LOAD_GET_MODE (pm\<lparr>p_header := a\<rparr>) = LOAD_GET_MODE pm"
  by (simp_all add: LOAD_GET_MODE_def)


lemma link_word_cong:
  assumes "reloc_symt_offset m' (get_relocs_pointer m' pm) i = reloc_symt_offset m (get_relocs_pointer m pm) i"
    and "\<not> is_abs32 so \<and> \<not> is_code_base so \<Longrightarrow> get_sym_at m' (p_header pm) so = get_sym_at m (p_header pm) so"
    and "so = reloc_symt_offset m (get_relocs_pointer m pm) i"
    and "get_code_pointer m' pm = get_code_pointer m pm" "get_data_pointer m' pm = get_data_pointer m pm"
  shows "link_word m pm c i = link_word m' pm c i"
  using assms by (auto simp: link_word_def Let_def)

text \<open>A linked module stays linked when only its relocated words change consistently: the words are
  those of the moved copy with each entry's shift added.\<close>

lemma linked_after_rebase:
  assumes ok: "move_ok m pm tab dest n" and m2: "m2 = memcpy m dest (p_ram pm) n"
    and pm': "p_header pm' = p_header pm + header_shift pm (dest - p_ram pm)" "p_ram pm' = dest"
      "LOAD_GET_MODE pm' = LOAD_GET_MODE pm"
    and link: "linked m pm tab c" "overrides_differ m pm c"
    and m': "m' = rebase_module_pointers pm' (if LOAD_GET_MODE pm = LOAD_MODE_XIP then 0 else dest - p_ram pm)
      (dest - p_ram pm) (get_code_pointer m pm) (get_data_pointer m pm) m2"
  shows "linked m' pm' tab c"
proof -
  let ?num = "unat (h_num_rels (read_header m (p_header pm)))" and ?rels = "get_relocs_pointer m pm"
  let ?d = "dest - p_ram pm" and ?cd = "if LOAD_GET_MODE pm = LOAD_MODE_XIP then 0 else dest - p_ram pm"
  let ?s = "header_shift pm (dest - p_ram pm)" let ?st = "get_sym_table_pointer m (p_header pm) + ?s"
  let ?rels' = "?rels + ?s"
  note t = moved_tables [OF ok m2 pm'] and rok = moved_rebase_ok [OF ok m2 pm']
  have sok: "slots_ok m2 pm' tab (p_header pm') ?rels' ?st"
    using rok by (simp add: rebase_ok_def Let_def t(1-3) del: mem_blk)
  have u: "\<not> is_sectioned (read_header m (p_header pm))" and v: "v_num tab = 0"
    and md: "LOAD_GET_MODE pm \<noteq> LOAD_MODE_RESERVED"
    using ok by (auto simp: move_ok_def rebase_ok_def slots_ok_def Let_def)
  have ptr: "get_data_pointer m2 pm' = get_data_pointer m pm + ?d" "get_code_pointer m2 pm' = get_code_pointer m pm + ?cd"
    using moved_pointers [OF u t(1) pm'(1) _ pm'(3) md] pm'(2) by simp_all
  note r = rebase_effects [OF rok m', unfolded Let_def t(1,2)]
  have ag: "agree_off (slots m2 pm' tab ?rels' ?num) m2 m'" using r by (simp add: agree_off_def)
  note w = walk_agree [OF sok, unfolded t(1), OF ag]
  show ?thesis
  proof (cases "?num = 0")
    case True
    have "m' = m2" using r True by (auto simp: slots_def)
    then show ?thesis using True t(1) by (simp add: linked_def)
  next
    case False
    then have h: "read_header m' (p_header pm') = read_header m (p_header pm)" using w(1) [of 0] by simp
    have rels': "get_relocs_pointer m' pm' = ?rels'"
      unfolding t(2) [symmetric] unfolding get_relocs_pointer_def h t(1) ..
    have st: "get_sym_table_pointer m' (p_header pm') = ?st"
      unfolding t(3) [symmetric] unfolding get_sym_table_pointer_def h t(1) ..
    note cg = untagged_cong [of m' pm' m2 tab, unfolded h t(1), OF refl u v]
    show ?thesis unfolding linked_def h rels'
    proof (intro allI impI)
      fix i assume i: "i < ?num"
      have target: "slot_target m' pm' tab ?rels' i = slot_target m2 pm' tab ?rels' i"
        by (simp add: slot_target_def w(3) [OF i] cg(3))
      have so: "reloc_symt_offset m' ?rels' i = reloc_symt_offset m2 ?rels' i" by (rule w(4) [OF i])
      have sym: "get_sym_at m' (p_header pm') so = get_sym_at m2 (p_header pm') so" if "unat so < 2 ^ 31 - 1" for so
        using w(5) [OF i that] by (simp add: get_sym_at_def st h t(1,3))
      have "rd32 m' (slot_target m2 pm' tab ?rels' i) = rd32 m2 (slot_target m2 pm' tab ?rels' i)
          + rebase_shift m2 pm' tab ?cd ?d (get_code_pointer m pm) (get_data_pointer m pm) i"
        using r i by blast
      also have "rd32 m2 (slot_target m2 pm' tab ?rels' i) = link_word m pm c i"
        using link(1) i t(9) [OF i] by (simp add: linked_def)
      also have "link_word m pm c i + rebase_shift m2 pm' tab ?cd ?d (get_code_pointer m pm) (get_data_pointer m pm) i
          = link_word m2 pm' c i"
        by (rule link_word_moved [OF _ _ refl ptr(2) ptr(1)])
           (use link i t(2,5,6,9) in \<open>auto simp: linked_def overrides_differ_def dest: not_base_form_index\<close>)
      also have "\<dots> = link_word m' pm' c i"
        by (rule link_word_cong) (use so sym t(2) rels' cg(1,2) i in \<open>auto dest: not_base_form_index\<close>)
      finally show "rd32 m' (slot_target m' pm' tab ?rels' i) = link_word m' pm' c i" by (simp add: target)
    qed
  qed
qed

lemma flag_pointers:
  assumes "\<not> is_sectioned (read_header m (p_header pm))"
  shows "get_code_pointer m (LOAD_SET_FOREIGN_RAM pm) = get_code_pointer m pm" "get_code_pointer m (LOAD_CLR_FOREIGN_RAM pm) = get_code_pointer m pm"
    "get_data_pointer m (LOAD_SET_FOREIGN_RAM pm) = get_data_pointer m pm" "get_data_pointer m (LOAD_CLR_FOREIGN_RAM pm) = get_data_pointer m pm"
  using assms by (simp_all add: get_code_pointer_def get_data_pointer_def Let_def split: udynlink_load_mode_t.splits)

text \<open>A successful move, reduced to its effect on memory and on the handle.\<close>

lemma untagged_move:
  assumes r: "relocate_untagged x pm new_ram new_size n w = (UDYNLINK_OK, pm', w')"
    and n: "n > 0" and moved: "p_ram pm' \<noteq> p_ram pm"
    and u: "\<not> is_sectioned (read_header (w_mem w) (p_header pm))"
  shows "p_header pm' = (if LOAD_GET_MODE pm = LOAD_MODE_COPY_ALL
        then p_ram pm' + lot_size (read_header (memcpy (w_mem w) (p_ram pm') (p_ram pm) n) (p_header pm)) else p_header pm)
    \<and> LOAD_GET_MODE pm' = LOAD_GET_MODE pm
    \<and> w_mem w' = rebase_module_pointers pm' (if LOAD_GET_MODE pm = LOAD_MODE_XIP then 0 else p_ram pm' - p_ram pm)
        (p_ram pm' - p_ram pm) (get_code_pointer (w_mem w) pm) (get_data_pointer (w_mem w) pm)
        (memcpy (w_mem w) (p_ram pm') (p_ram pm) n)"
proof -
  have mem: "udynlink_external_malloc x n NULL 4 0 w = (p, w1) \<Longrightarrow> w_mem w1 = w_mem w"
    and free: "w_mem (udynlink_external_free x p s a f v) = w_mem v" for p s a f w1 and v :: "'a world"
    by (auto simp: udynlink_external_malloc_def udynlink_external_free_def split: prod.splits)
  show ?thesis
    using r n moved
    by (auto simp: relocate_untagged_def Let_def free flag_pointers [OF u] lot_size_def split: if_splits prod.splits dest!: mem)
qed

lemma moved_header:
  assumes ok: "move_ok m pm tab dest n"
  shows "(if LOAD_GET_MODE pm = LOAD_MODE_COPY_ALL then dest + lot_size (read_header (memcpy m dest (p_ram pm) n) (p_header pm))
     else p_header pm) = p_header pm + header_shift pm (dest - p_ram pm)"
proof (cases "LOAD_GET_MODE pm = LOAD_MODE_COPY_ALL")
  case True
  have hp: "p_header pm = p_ram pm + lot_size (read_header m (p_header pm))"
    and inside: "blk (p_header pm) 32 \<subseteq> blk (p_ram pm) n" and apart: "blk dest n \<inter> blk (p_ram pm) n = {}"
    using ok True by (auto simp: move_ok_def walk_metadata_def Let_def)
  have "read_header (memcpy m dest (p_ram pm) n) (p_header pm) = read_header m (p_header pm)"
  proof (rule read_header_cong)
    fix x assume "x \<in> blk (p_header pm) 32"
    then have "x \<notin> blk dest n" using inside apart by blast
    then show "memcpy m dest (p_ram pm) n x = m x" by (simp add: memcpy_def)
  qed
  moreover have "dest + l = p_ram pm + l + (dest - p_ram pm)" for l by simp
  ultimately show ?thesis using hp unfolding header_shift_def by (metis True)
qed (simp add: header_shift_def)

lemma moved_linked:
  assumes r: "udynlink_relocate_module x (Some pm) new_ram new_size w = (UDYNLINK_OK, Some pm', w')"
    and n: "udynlink_get_ram_size (w_mem w) pm > 0"
    and ok: "move_ok (w_mem w) pm tab (p_ram pm') (udynlink_get_ram_size (w_mem w) pm)"
    and link: "linked (w_mem w) pm tab c" "overrides_differ (w_mem w) pm c"
  shows "linked (w_mem w') pm' tab c"
proof -
  let ?n = "udynlink_get_ram_size (w_mem w) pm"
  have u: "\<not> is_sectioned (read_header (w_mem w) (p_header pm))"
    and apart: "blk (p_ram pm') ?n \<inter> blk (p_ram pm) ?n = {}"
    using ok by (auto simp: move_ok_def rebase_ok_def slots_ok_def Let_def)
  have moved: "p_ram pm' \<noteq> p_ram pm" using apart n by (auto simp: disjoint_iff dest: spec [of _ "p_ram pm"])
  have "relocate_untagged x pm new_ram new_size ?n w = (UDYNLINK_OK, pm', w')"
    using r u by (auto simp: udynlink_relocate_module_def relocate_main_block_def split: if_splits prod.splits)
  note mv = untagged_move [OF this n moved u] and hp = moved_header [OF ok]
  show ?thesis by (rule linked_after_rebase [OF ok refl _ refl _ link]) (use mv hp in simp_all)
qed

text \<open>C5: a successful move of an untagged module, in any of the three load modes, keeps it linked:
  every relocated word that held what its entry asks for at the old place holds what it asks for
  at the new one, for pointers into code and data, in-place sums, extern words, and weak words
  defaulted or overridden by the host. When the module was loaded whole its header is in the
  block: the handle is then read at the header's new place. The new block meets neither the old
  one nor metadata left behind, and no host override equals the module's own default for its
  word, which the code could not tell apart.\<close>

theorem moved_module_stays_linked:
  assumes r: "udynlink_relocate_module x (Some pm) new_ram new_size w = (UDYNLINK_OK, Some pm', w')"
    and n: "udynlink_get_ram_size (w_mem w) pm > 0"
    and ok: "move_ok (w_mem w) pm tab (p_ram pm') (udynlink_get_ram_size (w_mem w) pm)"
    and link: "linked (w_mem w) pm tab c" "overrides_differ (w_mem w) pm c"
  shows "linked (w_mem w') pm' tab c"
  by (rule moved_linked [OF assms])

text \<open>The example image linked behind itself, moved to \<open>0x30000\<close>.\<close>

definition linked_mem :: mem where
  "linked_mem = placed_with [0x1070, 0x777, 0x1084, 0x106E]"

definition linked_consts :: "nat \<Rightarrow> u32" where
  "linked_consts i = (if i = 1 then 0x777 else if i = 3 then 2 else 0)"

lemma linked_mem_linked: "linked linked_mem placed_module untagged_view linked_consts"
proof -
  have w: "rd32 linked_mem 0x107C = 0x1070" "rd32 linked_mem 0x1080 = 0x777" "rd32 linked_mem 0x1084 = 0x1084"
    "rd32 linked_mem 0x1088 = 0x106E"
    by (simp_all add: linked_mem_def placed_with_def words_eval plain_image_def)
  show ?thesis
    using w unfolding linked_def linked_mem_def placed_module placed_tables
    by (auto simp: placed_header plain_header less_4 placed_targets link_word_def placed_tables placed_rels placed_pointers
        get_sym_at_def placed_module placed_syms is_abs32_def is_code_base_def sym_kinds linked_consts_def Let_def)
qed

lemma linked_mem_overrides: "overrides_differ linked_mem placed_module linked_consts"
  unfolding overrides_differ_def linked_mem_def placed_module
  by (auto simp: weak_entry_def placed_header plain_header less_4 link_word_def placed_tables placed_rels placed_pointers
      get_sym_at_def placed_module placed_syms is_abs32_def is_code_base_def sym_kinds linked_consts_def Let_def)

lemma placed_ram_size: "udynlink_get_ram_size (placed_with ws) placed_module = 24"
  by (simp add: udynlink_get_ram_size_def get_ram_size_for_header_def placed_module placed_sectab)
    (simp add: placed_header plain_header is_sectioned_def acc_defs)

lemma linked_mem_move_ok: "move_ok linked_mem placed_module untagged_view 0x30000 24"
proof -
  have "blk (0 + 0x30000) 24 \<inter> blk (0 + 0x1000) 0x94 = {}"
    using disjoint_sub_blks [of "0x1000" "0x94" "0x30000" 24 0] by (simp add: Int_commute del: mem_blk)
  then have far: "blk 0x30000 24 \<inter> blk 0x1000 0x94 = {}" by simp
  have part: "blk (0x1000 + d) k \<subseteq> blk 0x1000 0x94" if "unat d + unat k \<le> 0x94" for d k
    by (rule sub_blk) (use that in simp)
  have sub: "blk (0x107C + 0) 4 \<subseteq> blk 0x107C 24" "blk (0x107C + 4) 4 \<subseteq> blk 0x107C 24"
    "blk (0x107C + 8) 4 \<subseteq> blk 0x107C 24" "blk (0x107C + 12) 4 \<subseteq> blk 0x107C 24"
    by (rule sub_blk, simp)+
  have "slots linked_mem placed_module untagged_view 0x1020 4 \<subseteq> blk 0x107C 24"
    unfolding slots_def linked_mem_def using sub by (auto simp: less_4 placed_targets simp del: mem_blk)
  moreover have "blk 0x30000 24 \<inter> blk 0x107C 24 = {}" using far part [of "0x7C" 24] by auto
  moreover have "blk 0x30000 24 \<inter> (blk 0x1000 32 \<union> blk 0x1020 32 \<union> blk 0x1040 44) = {}"
    using far part [of 0 32] part [of "0x20" 32] part [of "0x40" 44] by (auto simp del: mem_blk)
  ultimately show ?thesis
    unfolding move_ok_def Let_def linked_mem_def placed_module placed_tables walk_metadata_def
    by (simp add: placed_rebase_ok placed_header plain_header del: mem_blk)
qed

theorem moved_module_stays_linked_witness:
  "case udynlink_relocate_module bump_host (Some placed_module) 0x30000 24 (start_world linked_mem) of (err, pm', w') \<Rightarrow>
    err = UDYNLINK_OK \<and> p_ram (the pm') = 0x30000 \<and> linked (w_mem w') (the pm') untagged_view linked_consts"
proof -
  have mem: "w_mem (start_world m) = m" for m by (simp add: start_world_def)
  have "\<exists>pm' w'. udynlink_relocate_module bump_host (Some placed_module) 0x30000 24 (start_world linked_mem)
      = (UDYNLINK_OK, Some pm', w') \<and> p_ram pm' = 0x30000"
    using placed_untagged
    by (auto simp: udynlink_relocate_module_def relocate_main_block_def relocate_untagged_def mem linked_mem_def
        placed_ram_size placed_module Let_def)
  then obtain pm' w' where r: "udynlink_relocate_module bump_host (Some placed_module) 0x30000 24 (start_world linked_mem)
      = (UDYNLINK_OK, Some pm', w')" and p: "p_ram pm' = 0x30000" by blast
  have n: "udynlink_get_ram_size linked_mem placed_module = 24" by (simp add: linked_mem_def placed_ram_size)
  show ?thesis
    using moved_module_stays_linked [OF r, of untagged_view linked_consts] linked_mem_move_ok
      linked_mem_linked linked_mem_overrides by (simp add: r p mem n)
qed

end
