(* ===== verification/LinkSpec.thy ===== *)
theory LinkSpec
  imports RelocateSpec
begin

text \<open>
  The load as a whole, for images without section table: a load that succeeds leaves a linked
  module, and an image in order loads on a host that provides the RAM and the symbols. The words a
  relocation table names are located in the block the load fills, which gives the walk theorem of
  \<open>RelocSpec\<close> its hypotheses from conditions on the image.
\<close>

section \<open>Well-formed images\<close>

definition image_rels :: "mem \<Rightarrow> addr \<Rightarrow> addr" where
  "image_rels m hp = hp + get_header_size (read_header m hp)"

definition image_syms :: "mem \<Rightarrow> addr \<Rightarrow> addr" where
  "image_syms m hp = image_rels m hp + ucast (h_num_rels (read_header m hp)) * 2 * 4"

definition known_kind :: "udynlink_sym_t \<Rightarrow> bool" where
  "known_kind s \<longleftrightarrow> s_type s = UDYNLINK_SYM_TYPE_INTERNAL \<or> s_type s = UDYNLINK_SYM_TYPE_EXPORTED
     \<or> s_type s = UDYNLINK_SYM_TYPE_WEAK \<or> s_type s = UDYNLINK_SYM_TYPE_EXTERN"

text \<open>An untagged image whose sizes do not wrap, whose relocation entries name different words, and
  whose referenced symbols are of the four linkable kinds.\<close>

definition image_ok :: "mem \<Rightarrow> addr \<Rightarrow> bool" where
  "image_ok m hp \<longleftrightarrow>
     (let h = read_header m hp; n = unat (h_num_rels h); rels = image_rels m hp
      in \<not> is_sectioned h \<and> header_words_ok h
         \<and> unat (lot_size h) + unat (get_code_offset_from_header h) + unat (h_code_size h) + unat (h_data_size h)
           + unat (h_bss_size h) < 2 ^ 32
         \<and> (\<forall>i < n. \<forall>j < n. i \<noteq> j \<longrightarrow> reloc_lot_offset m rels i \<noteq> reloc_lot_offset m rels j)
         \<and> (\<forall>i < n. \<not> is_abs32 (reloc_symt_offset m rels i) \<and> \<not> is_code_base (reloc_symt_offset m rels i)
              \<longrightarrow> pred_option known_kind (get_sym_at_raw m (image_syms m hp) (reloc_symt_offset m rels i) (h_symt_size h))))"

text \<open>The loaded handle and memory before relocation, as far as linking is concerned.\<close>

definition data_offset :: "udynlink_module_header_t \<Rightarrow> udynlink_load_mode_t \<Rightarrow> u32" where
  "data_offset h md = lot_size h +
     (case md of LOAD_MODE_COPY_ALL \<Rightarrow> get_code_offset_from_header h + h_code_size h
      | LOAD_MODE_COPY_TEXT_DATA \<Rightarrow> h_code_size h | _ \<Rightarrow> 0)"

lemma filled_layout:
  assumes ok: "fill_ok m hp pm" and tab: "v_num tab = 0"
    and l: "load_untagged (udynlink_image_from_memory m hp) hp tab (LOAD_GET_MODE pm) pm m = (pm', mf)"
  defines "h \<equiv> read_header m hp" and "n \<equiv> get_ram_size_for_header m hp (LOAD_GET_MODE pm)"
  shows "p_ram pm' = p_ram pm" "LOAD_GET_MODE pm' = LOAD_GET_MODE pm"
    and "p_header pm' = (if LOAD_GET_MODE pm = LOAD_MODE_COPY_ALL then p_ram pm + lot_size h else hp)"
    and "read_header mf hp = h" "read_header mf (p_header pm') = h"
    and "get_data_pointer mf pm' = p_ram pm + data_offset h (LOAD_GET_MODE pm)"
    and "same_bytes mf (p_header pm') m hp (meta_size h)"
    and "same_bytes mf (get_data_pointer mf pm') m (hp + get_code_offset_from_header h + h_code_size h) (h_data_size h)"
    and "\<And>a. a \<notin> blk (p_ram pm) n \<Longrightarrow> mf a = m a"
proof -
  note f = untagged_filled [OF ok tab l, folded n_def] and i = fill_ok_image [OF ok, folded h_def n_def]
  obtain pm1 m1 where c: "copy_untagged (udynlink_image_from_memory m hp) hp tab (LOAD_GET_MODE pm) pm m = (pm1, m1)"
    by (metis surj_pair)
  have "pm' = pm1" using l by (auto simp: load_untagged_def c Let_def split: if_splits)
  then show pm': "p_ram pm' = p_ram pm" "LOAD_GET_MODE pm' = LOAD_GET_MODE pm"
    "p_header pm' = (if LOAD_GET_MODE pm = LOAD_MODE_COPY_ALL then p_ram pm + lot_size h else hp)"
    using c tab i(3)
    by (auto simp: copy_untagged_def Let_def load_p_temp8_def get_nonmain_bases_size_def lot_size_def h_def split: if_splits)
  show fr: "\<And>a. a \<notin> blk (p_ram pm) n \<Longrightarrow> mf a = m a" using f by blast
  have M: "32 \<le> meta_size h" using header_inside(2) [OF i(2)] by (simp add: word_le_nat_alt)
  show meta: "same_bytes mf (p_header pm') m hp (meta_size h)" and
    data: "same_bytes mf (get_data_pointer mf pm') m (hp + get_code_offset_from_header h + h_code_size h) (h_data_size h)"
    using f by (simp_all add: block_filled_def Let_def h_def)
  have "mf x = m x" if "x \<in> blk hp (meta_size h)" for x using fr i(4) subsetD [OF i(5) that] by blast
  from same_bytes_header [OF same_bytes_frame [OF same_bytes_refl this] M]
  show "read_header mf hp = h" by (simp add: h_def)
  show hd: "read_header mf (p_header pm') = h" using same_bytes_header [OF meta M] by (simp add: h_def)
  have u: "\<not> is_sectioned (read_header mf (p_header pm'))" using i(1) hd by simp
  have md: "LOAD_GET_MODE pm \<noteq> LOAD_MODE_RESERVED" using ok by (simp add: fill_ok_def Let_def)
  show "get_data_pointer mf pm' = p_ram pm + data_offset h (LOAD_GET_MODE pm)"
    unfolding untagged_pointers(2) [OF u] hd unfolding pm'
    using md by (cases "LOAD_GET_MODE pm") (simp_all add: data_offset_def lot_size_def)
qed

text \<open>The words of the offset table and of the data lie in the block, clear of the metadata.\<close>

lemma data_offset_bounds:
  assumes ok: "fill_ok m hp pm"
  defines "h \<equiv> read_header m hp" and "n \<equiv> get_ram_size_for_header m hp (LOAD_GET_MODE pm)"
  shows "unat (lot_size h) \<le> unat (data_offset h (LOAD_GET_MODE pm))"
    and "unat (data_offset h (LOAD_GET_MODE pm)) + unat (h_data_size h) \<le> unat n"
    and "LOAD_GET_MODE pm = LOAD_MODE_COPY_ALL \<Longrightarrow>
      unat (lot_size h) + unat (meta_size h) \<le> unat (data_offset h (LOAD_GET_MODE pm))"
proof -
  note p = fill_ok_parts [OF ok, folded h_def n_def] and i = fill_ok_image [OF ok, folded h_def n_def]
  show "unat (lot_size h) \<le> unat (data_offset h (LOAD_GET_MODE pm))"
    "unat (data_offset h (LOAD_GET_MODE pm)) + unat (h_data_size h) \<le> unat n"
    unfolding p(1) using p(2,3,4) by (cases "LOAD_GET_MODE pm"; simp add: data_offset_def add.assoc)+
  show "unat (lot_size h) + unat (meta_size h) \<le> unat (data_offset h (LOAD_GET_MODE pm))"
    if "LOAD_GET_MODE pm = LOAD_MODE_COPY_ALL"
    using p(2) header_inside(3) [OF i(2)] by (simp add: that data_offset_def add.assoc)
qed

text \<open>Where the word of an entry is, as an offset into the block.\<close>

definition slot_offset :: "udynlink_module_header_t \<Rightarrow> udynlink_load_mode_t \<Rightarrow> u32 \<Rightarrow> u32" where
  "slot_offset h md lo =
     (if lo < ucast (h_num_lot h) then 4 * lo else data_offset h md + 4 * (lo - ucast (h_num_lot h)))"

lemma filled_target:
  assumes ok: "fill_ok m hp pm" and tab: "v_num tab = 0"
    and l: "load_untagged (udynlink_image_from_memory m hp) hp tab (LOAD_GET_MODE pm) pm m = (pm', mf)"
    and t: "get_reloc_target mf pm' tab lo \<noteq> NULL"
  defines "h \<equiv> read_header m hp"
  shows "get_reloc_target mf pm' tab lo = p_ram pm + slot_offset h (LOAD_GET_MODE pm) lo"
    and "lo < ucast (h_num_lot h) \<or> lo - ucast (h_num_lot h) < h_data_size h div 4"
  using t tab unfolding get_reloc_target_def filled_layout(1,5,6) [OF ok tab l] h_def [symmetric]
  by (auto simp: Let_def slot_offset_def split: if_splits)

lemma unat_times_4: "4 * unat k < 4294967296 \<Longrightarrow> unat (4 * k) = 4 * unat k" for k :: u32
  by (simp add: unat_word_ariths)

lemma slot_offset_bounds:
  assumes ok: "fill_ok m hp pm"
  defines "h \<equiv> read_header m hp" and "md \<equiv> LOAD_GET_MODE pm"
  assumes lo: "lo < ucast (h_num_lot h) \<or> lo - ucast (h_num_lot h) < h_data_size h div 4"
  shows "unat (slot_offset h md lo) =
      (if lo < ucast (h_num_lot h) then 4 * unat lo else unat (data_offset h md) + 4 * (unat lo - unat (h_num_lot h)))"
    and "lo < ucast (h_num_lot h) \<Longrightarrow> unat (slot_offset h md lo) + 4 \<le> unat (lot_size h)"
    and "\<not> lo < ucast (h_num_lot h) \<Longrightarrow> unat (data_offset h md) \<le> unat (slot_offset h md lo)
      \<and> unat (slot_offset h md lo) + 4 \<le> unat (data_offset h md) + unat (h_data_size h)"
proof -
  note b = data_offset_bounds [OF ok, folded h_def md_def]
  have nb: "unat (h_num_lot h) < 65536" using unsigned_less [of "h_num_lot h"] by simp
  then have nl: "unat (ucast (h_num_lot h) :: u32) = unat (h_num_lot h)" "unat (h_num_lot h) < 65536"
    by (simp_all add: unsigned_ucast_eq take_bit_nat_eq_self)
  have L: "unat (lot_size h) = 4 * unat (h_num_lot h)" using nl by (simp add: lot_size_def unat_word_ariths)
  have lot: "unat (4 * lo) = 4 * unat lo \<and> unat lo < unat (h_num_lot h)" if "lo < ucast (h_num_lot h)"
  proof -
    have "unat lo < unat (h_num_lot h)" using that nl by (simp add: word_less_nat_alt)
    with nl show ?thesis by (simp add: unat_word_ariths)
  qed
  have dat: "unat (4 * (lo - ucast (h_num_lot h))) = 4 * (unat lo - unat (h_num_lot h))
      \<and> 4 * (unat lo - unat (h_num_lot h)) + 4 \<le> unat (h_data_size h)"
    if "\<not> lo < ucast (h_num_lot h)"
  proof -
    have s: "unat (lo - ucast (h_num_lot h)) = unat lo - unat (h_num_lot h)"
      using that nl by (simp add: unat_sub word_less_nat_alt word_le_nat_alt)
    have "lo - ucast (h_num_lot h) < h_data_size h div 4" using lo that by blast
    then have "unat lo - unat (h_num_lot h) < unat (h_data_size h) div 4" by (simp add: word_less_nat_alt unat_div s)
    then have k: "4 * (unat lo - unat (h_num_lot h)) + 4 \<le> unat (h_data_size h)" by linarith
    then have "unat (4 * (lo - ucast (h_num_lot h))) = 4 * (unat lo - unat (h_num_lot h))"
      using unat_u32_less [of "h_data_size h"] by (subst unat_times_4) (simp_all add: s)
    with k show ?thesis by blast
  qed
  have so: "unat (data_offset h md + 4 * (lo - ucast (h_num_lot h))) = unat (data_offset h md) + 4 * (unat lo - unat (h_num_lot h))"
    if "\<not> lo < ucast (h_num_lot h)"
    by (subst unat_plus_no_wrap) (use dat [OF that] b(2) unat_u32_less [of "get_ram_size_for_header m hp (LOAD_GET_MODE pm)"]
        in \<open>simp_all add: md_def h_def\<close>)
  show "unat (slot_offset h md lo) =
      (if lo < ucast (h_num_lot h) then 4 * unat lo else unat (data_offset h md) + 4 * (unat lo - unat (h_num_lot h)))"
    using lot so by (simp add: slot_offset_def)
  show "unat (slot_offset h md lo) + 4 \<le> unat (lot_size h)" if "lo < ucast (h_num_lot h)"
    using lot [OF that] that L by (simp add: slot_offset_def)
  show "unat (data_offset h md) \<le> unat (slot_offset h md lo)
      \<and> unat (slot_offset h md lo) + 4 \<le> unat (data_offset h md) + unat (h_data_size h)" if "\<not> lo < ucast (h_num_lot h)"
    using dat [OF that] so [OF that] that by (simp add: slot_offset_def)
qed

lemma word_offsets_apart:
  fixes p q n :: u32
  assumes "unat p + 4 \<le> unat q \<or> unat q + 4 \<le> unat p" and "unat p + 4 \<le> unat n" "unat q + 4 \<le> unat n"
  shows "blk (r + p) 4 \<inter> blk (r + q) 4 = {}"
proof -
  have n: "unat p + unat (4 :: u32) < 2 ^ 32" "unat q + unat (4 :: u32) < 2 ^ 32"
    using assms(2,3) unat_u32_less [of n] by simp_all
  from assms(1) show ?thesis
  proof
    assume "unat p + 4 \<le> unat q"
    then show ?thesis by (intro disjoint_sub_blks n(2)) simp
  next
    assume "unat q + 4 \<le> unat p"
    then have "blk (r + q) 4 \<inter> blk (r + p) 4 = {}" by (intro disjoint_sub_blks n(1)) simp
    then show ?thesis by (simp only: Int_commute)
  qed
qed

text \<open>The same metadata at another place reads the same.\<close>

lemma same_rd32:
  assumes "same_bytes m' a m s n" and "unat off + 4 \<le> unat n"
  shows "rd32 m' (a + off) = rd32 m (s + off)"
proof -
  have "same_bytes m' (a + off) m (s + off) 4" by (rule same_bytes_sub [OF assms(1)]) (use assms(2) in simp)
  then have b: "m' (a + off + k) = m (s + off + k)" if "k < 4" for k using that by (simp add: same_bytes_def)
  have "m' (a + off) = m (s + off)" using b [of 0] by simp
  then show ?thesis using b by (simp add: rd32_def)
qed

lemma entry_offset:
  assumes "i < unat (n :: u16)" and "d \<le> 1"
  shows "unat (4 * (of_nat i * 2 + of_nat d) :: u32) = 8 * i + 4 * d"
proof -
  have n: "unat n < 65536" using unsigned_less [of n] by simp
  have "unat (of_nat i * 2 + of_nat d :: u32) = 2 * i + d"
    using assms n by (simp add: unat_word_ariths)
  then show ?thesis using assms n by (simp add: unat_word_ariths)
qed

lemma table_sizes:
  shows "unat (ucast (h_num_rels h) * 2 * 4 :: u32) = 8 * unat (h_num_rels h)"
    and "unat (8 * ucast (h_num_rels h) :: u32) = 8 * unat (h_num_rels h)"
    and "unat (get_header_size h + ucast (h_num_rels h) * 2 * 4) = unat (get_header_size h) + 8 * unat (h_num_rels h)"
proof -
  have nr: "unat (h_num_rels h) < 65536" using unsigned_less [of "h_num_rels h"] by simp
  then have u: "unat (ucast (h_num_rels h) :: u32) = unat (h_num_rels h)"
    by (simp add: unsigned_ucast_eq take_bit_nat_eq_self)
  show a: "unat (ucast (h_num_rels h) * 2 * 4 :: u32) = 8 * unat (h_num_rels h)"
    and "unat (8 * ucast (h_num_rels h) :: u32) = 8 * unat (h_num_rels h)"
    using nr u by (simp_all add: unat_word_ariths)
  show "unat (get_header_size h + ucast (h_num_rels h) * 2 * 4) = unat (get_header_size h) + 8 * unat (h_num_rels h)"
    by (subst unat_plus_no_wrap) (use a nr in \<open>simp_all add: get_header_size_def\<close>)
qed

text \<open>The tables a relocation walk reads lie in the metadata at the header they belong to.\<close>

lemma walk_metadata_inside:
  assumes "header_words_ok (read_header m b)"
  defines "h \<equiv> read_header m b"
  shows "walk_metadata m pm b (b + get_header_size h) (b + get_header_size h + ucast (h_num_rels h) * 2 * 4)
    \<subseteq> blk b (meta_size h) \<union> blk (p_header pm) (meta_size h)"
proof -
  note M = header_inside [OF assms(1), folded h_def] and n = table_sizes [of h]
  have "blk x 32 \<subseteq> blk x (meta_size h)" for x by (rule sub_blk_start) (use M(2) in \<open>simp add: word_le_nat_alt\<close>)
  moreover have "blk (b + get_header_size h) (8 * ucast (h_num_rels h)) \<subseteq> blk b (meta_size h)"
    by (rule sub_blk) (use M(1) n(2) in simp)
  moreover have "blk (b + get_header_size h + ucast (h_num_rels h) * 2 * 4) (h_symt_size h) \<subseteq> blk b (meta_size h)"
    unfolding add.assoc by (rule sub_blk) (use M(1) n(3) in \<open>simp add: add.assoc\<close>)
  ultimately show ?thesis unfolding walk_metadata_def h_def [symmetric] by blast
qed

lemma same_entries:
  assumes "same_bytes m' a m hp (meta_size h)" and h: "h = read_header m hp" and "header_words_ok h"
    and i: "i < unat (h_num_rels h)"
  shows "reloc_lot_offset m' (a + get_header_size h) i = reloc_lot_offset m (image_rels m hp) i"
    and "reloc_symt_offset m' (a + get_header_size h) i = reloc_symt_offset m (image_rels m hp) i"
proof -
  note M = header_inside(1) [OF assms(3)]
  have hs: "unat (get_header_size h) \<le> 36" by (simp add: get_header_size_def)
  have nr: "unat (h_num_rels h) < 65536" using unsigned_less [of "h_num_rels h"] by simp
  have w: "rd32 m' (a + get_header_size h + 4 * (of_nat i * 2 + of_nat d)) =
      rd32 m (hp + get_header_size h + 4 * (of_nat i * 2 + of_nat d))" if d: "d \<le> 1" for d
  proof -
    have "unat (get_header_size h + 4 * (of_nat i * 2 + of_nat d)) = unat (get_header_size h) + (8 * i + 4 * d)"
      using hs nr i d entry_offset [OF i d] by (subst unat_plus_no_wrap) simp_all
    then have "rd32 m' (a + (get_header_size h + 4 * (of_nat i * 2 + of_nat d))) =
        rd32 m (hp + (get_header_size h + 4 * (of_nat i * 2 + of_nat d)))"
      using i d M by (intro same_rd32 [OF assms(1)]) simp
    then show ?thesis by (simp add: add.assoc)
  qed
  show "reloc_lot_offset m' (a + get_header_size h) i = reloc_lot_offset m (image_rels m hp) i"
    "reloc_symt_offset m' (a + get_header_size h) i = reloc_symt_offset m (image_rels m hp) i"
    using w [of 0] w [of 1] by (simp_all add: reloc_lot_offset_def reloc_symt_offset_def image_rels_def h [symmetric])
qed

lemma same_symbol_table:
  assumes "same_bytes m' a m hp (meta_size h)" and h: "h = read_header m hp" and ok: "header_words_ok h"
  shows "same_bytes m' (a + get_header_size h + ucast (h_num_rels h) * 2 * 4) m (image_syms m hp) (h_symt_size h)"
proof -
  have "same_bytes m' (a + (get_header_size h + ucast (h_num_rels h) * 2 * 4)) m
      (hp + (get_header_size h + ucast (h_num_rels h) * 2 * 4)) (h_symt_size h)"
    by (rule same_bytes_sub [OF assms(1)]) (use header_inside(1) [OF ok] table_sizes(3) [of h] in simp)
  then show ?thesis by (simp add: image_syms_def image_rels_def h [symmetric] add.assoc)
qed

text \<open>A copied symbol table gives the same symbols, names aside, which lie in the copy.\<close>

lemma same_symbols:
  assumes b: "same_bytes m' p' m p sz" and i: "unat i < 2 ^ 31 - 1"
  shows "rel_option same_symbol (get_sym_at_raw m' p' i sz) (get_sym_at_raw m p i sz)"
proof (cases "sz div 4 < 1")
  case True
  then show ?thesis by (simp add: get_sym_at_raw_def)
next
  case False
  then have "4 \<le> unat sz" using div_less [of "unat sz" 4] by (simp add: word_less_nat_alt unat_div not_less)
  then have c: "rd32 m' p' = rd32 m p" using same_rd32 [OF b, of 0] by simp
  show ?thesis
  proof (cases "i * 2 + 2 \<ge> sz div 4")
    case True
    then show ?thesis using False by (simp add: get_sym_at_raw_def c Let_def)
  next
    case wide: False
    have u: "unat (i * 2 + 2) = 2 * unat i + 2" using i by (simp add: unat_word_ariths)
    then have lt: "2 * unat i + 2 < unat sz div 4" using wide by (simp add: word_le_nat_alt unat_div)
    have k: "rd32 m' (p' + 4 * (i * 2 + d)) = rd32 m (p + 4 * (i * 2 + d))" if d: "d = 1 \<or> d = 2" for d
    proof (rule same_rd32 [OF b])
      have "unat (i * 2 + d) = 2 * unat i + unat d" using i d by (auto simp: unat_word_ariths)
      then have "unat (4 * (i * 2 + d)) = 4 * (2 * unat i + unat d)"
        using lt unat_u32_less [of sz] d by (subst unat_times_4) auto
      then show "unat (4 * (i * 2 + d)) + 4 \<le> unat sz" using lt d by auto
    qed
    show ?thesis using False wide k [of 1] k [of 2] by (simp add: get_sym_at_raw_def c Let_def same_symbol_def)
  qed
qed

lemma offsets_apart:
  assumes ok: "fill_ok m hp pm"
  defines "h \<equiv> read_header m hp" and "md \<equiv> LOAD_GET_MODE pm"
  assumes lo: "lo < ucast (h_num_lot h) \<or> lo - ucast (h_num_lot h) < h_data_size h div 4"
    and lo': "lo' < ucast (h_num_lot h) \<or> lo' - ucast (h_num_lot h) < h_data_size h div 4" and ne: "lo \<noteq> lo'"
  shows "unat (slot_offset h md lo) + 4 \<le> unat (slot_offset h md lo')
    \<or> unat (slot_offset h md lo') + 4 \<le> unat (slot_offset h md lo)"
proof -
  have nb: "unat (h_num_lot h) < 65536" using unsigned_less [of "h_num_lot h"] by simp
  then have nl: "unat (ucast (h_num_lot h) :: u32) = unat (h_num_lot h)"
    by (simp add: unsigned_ucast_eq take_bit_nat_eq_self)
  note b = slot_offset_bounds [OF ok, folded h_def md_def, OF lo] and b' = slot_offset_bounds [OF ok, folded h_def md_def, OF lo']
  note d = data_offset_bounds(1) [OF ok, folded h_def md_def]
  have "unat lo \<noteq> unat lo'" using ne by (simp add: word_unat_eq_iff)
  then show ?thesis
    using b b' d nl by (cases "lo < ucast (h_num_lot h)"; cases "lo' < ucast (h_num_lot h)") (auto simp: word_less_nat_alt)
qed

lemma slot_in_block:
  assumes ok: "fill_ok m hp pm"
  defines "h \<equiv> read_header m hp" and "md \<equiv> LOAD_GET_MODE pm" and "n \<equiv> get_ram_size_for_header m hp (LOAD_GET_MODE pm)"
  assumes lo: "lo < ucast (h_num_lot h) \<or> lo - ucast (h_num_lot h) < h_data_size h div 4"
  shows "unat (slot_offset h md lo) + 4 \<le> unat n"
    and "blk (p_ram pm + slot_offset h md lo) 4 \<subseteq> blk (p_ram pm) n"
    and "blk (p_ram pm + slot_offset h md lo) 4 \<inter> blk hp (meta_size h) = {}"
    and "md = LOAD_MODE_COPY_ALL \<Longrightarrow> blk (p_ram pm + slot_offset h md lo) 4 \<inter> blk (p_ram pm + lot_size h) (meta_size h) = {}"
proof -
  note i = fill_ok_image [OF ok, folded h_def n_def]
  note b = slot_offset_bounds [OF ok, folded h_def md_def, OF lo] and d = data_offset_bounds [OF ok, folded h_def md_def n_def]
  show n: "unat (slot_offset h md lo) + 4 \<le> unat n" using b d by (cases "lo < ucast (h_num_lot h)") auto
  show sub: "blk (p_ram pm + slot_offset h md lo) 4 \<subseteq> blk (p_ram pm) n"
    by (rule sub_blk) (use n in simp)
  show "blk (p_ram pm + slot_offset h md lo) 4 \<inter> blk hp (meta_size h) = {}"
    using sub i(4) i(5) by blast
  show "blk (p_ram pm + slot_offset h md lo) 4 \<inter> blk (p_ram pm + lot_size h) (meta_size h) = {}"
    if md: "md = LOAD_MODE_COPY_ALL"
  proof (cases "lo < ucast (h_num_lot h)")
    case True
    have "unat (lot_size h) + unat (meta_size h) < 2 ^ 32"
      using d(2,3) md unat_u32_less [of n] by (simp add: md_def)
    then show ?thesis by (intro disjoint_sub_blks) (use b(2) [OF True] in simp_all)
  next
    case False
    have "blk (p_ram pm + lot_size h) (meta_size h) \<inter> blk (p_ram pm + slot_offset h md lo) 4 = {}"
      by (rule disjoint_sub_blks)
        (use b(3) [OF False] d(3) md n unat_u32_less [of n] in \<open>simp_all add: md_def\<close>)
    then show ?thesis by (simp only: Int_commute)
  qed
qed

lemma filled_slots_ok:
  assumes ok: "fill_ok m hp pm" and tab: "v_num tab = 0"
    and l: "load_untagged (udynlink_image_from_memory m hp) hp tab (LOAD_GET_MODE pm) pm m = (pm', mf)"
    and im: "image_ok m hp" and b: "b = hp \<or> b = p_header pm'"
  defines "h \<equiv> read_header m hp"
  defines "rels \<equiv> b + get_header_size h"
  shows "same_bytes mf b m hp (meta_size h)" and "read_header mf b = h"
    and "slots_ok mf pm' tab b rels (rels + ucast (h_num_rels h) * 2 * 4)"
proof -
  note f = filled_layout [OF ok tab l, folded h_def] and i = fill_ok_image [OF ok, folded h_def]
  let ?n = "get_ram_size_for_header m hp (LOAD_GET_MODE pm)" and ?num = "unat (h_num_rels h)"
  have refl: "same_bytes mf hp m hp (meta_size h)"
    by (rule same_bytes_frame [OF same_bytes_refl]) (use f(9) i(4) i(5) in blast)
  show same: "same_bytes mf b m hp (meta_size h)" using b refl f(7) by auto
  show hb: "read_header mf b = h" using b f(4,5) by auto
  have dist: "reloc_lot_offset mf rels j \<noteq> reloc_lot_offset mf rels k" if "j < ?num" "k < ?num" "j \<noteq> k" for j k
    using im that same_entries(1) [OF same h_def [THEN meta_eq_to_obj_eq] i(2)]
    by (simp add: image_ok_def Let_def h_def [symmetric] rels_def)
  have t: "slot_target mf pm' tab rels j = p_ram pm + slot_offset h (LOAD_GET_MODE pm) (reloc_lot_offset mf rels j)"
    "reloc_lot_offset mf rels j < ucast (h_num_lot h) \<or> reloc_lot_offset mf rels j - ucast (h_num_lot h) < h_data_size h div 4"
    if "slot_target mf pm' tab rels j \<noteq> NULL" for j
    using filled_target [OF ok tab l, folded h_def] that by (simp_all add: slot_target_def)
  have meta: "walk_metadata mf pm' b rels (rels + ucast (h_num_rels h) * 2 * 4)
      \<subseteq> blk b (meta_size h) \<union> blk (p_header pm') (meta_size h)"
    using walk_metadata_inside [of mf b pm', unfolded hb, OF i(2)] by (simp add: rels_def)
  have clear: "slots mf pm' tab rels ?num \<inter> (blk b (meta_size h) \<union> blk (p_header pm') (meta_size h)) = {}"
  proof -
    have "blk (slot_target mf pm' tab rels j) 4 \<inter> (blk b (meta_size h) \<union> blk (p_header pm') (meta_size h)) = {}"
      if "slot_target mf pm' tab rels j \<noteq> NULL" for j
    proof -
      note s = slot_in_block [OF ok, folded h_def, OF t(2) [OF that]]
      have "b = hp \<or> b = p_header pm'" and "p_header pm' = (if LOAD_GET_MODE pm = LOAD_MODE_COPY_ALL then p_ram pm + lot_size h else hp)"
        by (rule b, rule f(3))
      then show ?thesis unfolding t(1) [OF that] using s(3,4) by (cases "LOAD_GET_MODE pm = LOAD_MODE_COPY_ALL") auto
    qed
    then show ?thesis unfolding slots_def by blast
  qed
  have apart: "blk (slot_target mf pm' tab rels j) 4 \<inter> blk (slot_target mf pm' tab rels k) 4 = {}"
    if "j < ?num" "k < ?num" "j \<noteq> k" "slot_target mf pm' tab rels j \<noteq> NULL" "slot_target mf pm' tab rels k \<noteq> NULL" for j k
    unfolding t(1) [OF that(4)] t(1) [OF that(5)]
    by (rule word_offsets_apart [OF offsets_apart [OF ok, folded h_def, OF t(2) [OF that(4)] t(2) [OF that(5)] dist [OF that(1-3)]]
          slot_in_block(1) [OF ok, folded h_def, OF t(2) [OF that(4)]] slot_in_block(1) [OF ok, folded h_def, OF t(2) [OF that(5)]]])
  show "slots_ok mf pm' tab b rels (rels + ucast (h_num_rels h) * 2 * 4)"
    unfolding slots_ok_def Let_def hb f(5) using i(1) tab meta clear apart by blast
qed

section \<open>Loaded modules are linked\<close>

text \<open>The constant part of each word, from the image and the host's addresses \<open>f\<close>.\<close>

definition image_word :: "mem \<Rightarrow> addr \<Rightarrow> u32 \<Rightarrow> u32" where
  "image_word m hp lo =
     (let h = read_header m hp
      in rd32 m (hp + get_code_offset_from_header h + h_code_size h + 4 * (lo - ucast (h_num_lot h))))"

definition image_consts :: "(cname \<Rightarrow> u32) \<Rightarrow> mem \<Rightarrow> addr \<Rightarrow> nat \<Rightarrow> u32" where
  "image_consts f m hp i =
     (let so = reloc_symt_offset m (image_rels m hp) i; lo = reloc_lot_offset m (image_rels m hp) i
      in if is_abs32 so then image_word m hp lo - (so AND 0x7FFFFFFF)
         else if is_code_base so then image_word m hp lo
         else case get_sym_at_raw m (image_syms m hp) so (h_symt_size (read_header m hp)) of
             None \<Rightarrow> 0
           | Some s \<Rightarrow> if s_type s \<noteq> UDYNLINK_SYM_TYPE_EXTERN \<and> s_type s \<noteq> UDYNLINK_SYM_TYPE_WEAK
               \<or> f (s_name s) = UDYNLINK_SYM_DEFERRED then 0 else f (s_name s))"

lemma header_tables:
  "get_relocs_pointer m pm = p_header pm + get_header_size (read_header m (p_header pm))"
  "get_sym_table_pointer m hp = hp + get_header_size (read_header m hp) + ucast (h_num_rels (read_header m hp)) * 2 * 4"
  by (simp_all add: get_relocs_pointer_def get_sym_table_pointer_def Let_def header_size_words distrib_left mult.commute)

lemma target_any_view:
  assumes "v_num tab = 0" and "v_num tab' = 0"
  shows "get_reloc_target m pm tab lo = get_reloc_target m pm tab' lo" "slot_target m pm tab rels i = slot_target m pm tab' rels i"
    "slots_ok m pm tab hp rels st = slots_ok m pm tab' hp rels st"
proof -
  show 1: "get_reloc_target m pm tab lo = get_reloc_target m pm tab' lo" for lo
    using assms by (simp add: get_reloc_target_def Let_def)
  show 2: "slot_target m pm tab rels i = slot_target m pm tab' rels i" for i by (simp add: slot_target_def 1)
  show "slots_ok m pm tab hp rels st = slots_ok m pm tab' hp rels st"
    using assms by (simp add: slots_ok_def slots_def 2 del: mem_blk)
qed

lemma image_ok_kind:
  assumes "image_ok m hp" and "i < unat (h_num_rels (read_header m hp))"
    and "\<not> (is_abs32 (reloc_symt_offset m (image_rels m hp) i) \<or> is_code_base (reloc_symt_offset m (image_rels m hp) i))"
    and "get_sym_at_raw m (image_syms m hp) (reloc_symt_offset m (image_rels m hp) i) (h_symt_size (read_header m hp)) = Some s"
  shows "known_kind s"
proof -
  have "pred_option known_kind (get_sym_at_raw m (image_syms m hp) (reloc_symt_offset m (image_rels m hp) i)
      (h_symt_size (read_header m hp)))"
    using assms(1-3) unfolding image_ok_def Let_def by blast
  then show ?thesis by (simp add: assms(4))
qed

lemma filled_symbol:
  assumes ok: "fill_ok m hp pm" and tab: "v_num tab = 0"
    and l: "load_untagged (udynlink_image_from_memory m hp) hp tab (LOAD_GET_MODE pm) pm m = (pm', mf)"
    and im: "image_ok m hp" and so: "unat so < 2 ^ 31 - 1"
  shows "get_sym_at_raw mf (image_syms m hp) so (h_symt_size (read_header m hp))
    = get_sym_at_raw m (image_syms m hp) so (h_symt_size (read_header m hp))"
proof (rule get_sym_at_raw_cong [OF _ so])
  fix x assume x: "x \<in> blk (image_syms m hp) (h_symt_size (read_header m hp))"
  have "same_bytes mf (image_syms m hp) m (image_syms m hp) (h_symt_size (read_header m hp))"
    using same_symbol_table [OF filled_slots_ok(1) [OF ok tab l im disjI1 [OF refl]] refl fill_ok_image(2) [OF ok]]
    by (simp add: image_syms_def image_rels_def)
  then show "mf x = m x" using x by (auto simp: same_bytes_def dest: spec [of _ "x - image_syms m hp"])
qed

text \<open>An entry's effect on the filled block is the word a linked module has there.\<close>

lemma effect_is_link_word:
  assumes ok: "fill_ok m hp pm" and tab: "v_num tab = 0"
    and l: "load_untagged (udynlink_image_from_memory m hp) hp tab (LOAD_GET_MODE pm) pm m = (pm', mf)"
    and im: "image_ok m hp" and i: "i < unat (h_num_rels (read_header m hp))"
    and e: "slot_effect f mf pm' tab hp (image_rels m hp) (image_syms m hp) i = Inr r"
  shows "r = Some (slot_target mf pm' tab (image_rels m hp) i, link_word mf pm' (image_consts f m hp) i)"
proof -
  define h where "h = read_header m hp"
  note lay = filled_layout [OF ok tab l, folded h_def] and io = fill_ok_image [OF ok, folded h_def]
  note A = filled_slots_ok [OF ok tab l im disjI1 [OF refl], folded h_def]
    and B = filled_slots_ok [OF ok tab l im disjI2 [OF refl], folded h_def]
  note en = same_entries [OF A(1) h_def io(2), folded image_rels_def [of m hp, folded h_def]]
    and en' = same_entries [OF B(1) h_def io(2)]
  let ?rels = "image_rels m hp" and ?st = "image_syms m hp"
  let ?so = "reloc_symt_offset m ?rels i" and ?lo = "reloc_lot_offset m ?rels i" and ?p = "slot_target mf pm' tab ?rels i"
  have i': "i < unat (h_num_rels h)" using i by (simp add: h_def)
  have rels': "get_relocs_pointer mf pm' = p_header pm' + get_header_size h" by (simp add: header_tables lay(5))
  have st': "get_sym_table_pointer mf (p_header pm') = p_header pm' + get_header_size h + ucast (h_num_rels h) * 2 * 4"
    by (simp add: header_tables lay(5))
  note so = en(2) [OF i'] en'(2) [OF i'] and lo = en(1) [OF i']
  have word: "rd32 mf ?p = image_word m hp ?lo" if nn: "?p \<noteq> NULL" and nl: "\<not> ?lo < ucast (h_num_lot h)"
  proof -
    have tg: "?p = get_data_pointer mf pm' + 4 * (?lo - ucast (h_num_lot h))"
      and k: "?lo - ucast (h_num_lot h) < h_data_size h div 4"
      using nn nl tab by (auto simp: slot_target_def get_reloc_target_def lo lay(5) Let_def split: if_splits)
    have "4 * unat (?lo - ucast (h_num_lot h)) + 4 \<le> unat (h_data_size h)"
      using k by (simp add: word_less_nat_alt unat_div)
    then show ?thesis unfolding tg image_word_def h_def [symmetric] Let_def
      using unat_u32_less [of "h_data_size h"] by (intro same_rd32 [OF lay(8)], subst unat_times_4) simp_all
  qed
  show ?thesis
  proof (cases "is_abs32 ?so \<or> is_code_base ?so")
    case True
    then show ?thesis using e word
      by (auto simp: slot_effect_def link_word_def image_consts_def rels' so lo lay(4) Let_def h_def [symmetric] split: if_splits)
  next
    case False
    then have k: "unat ?so < 2 ^ 31 - 1" by (intro not_base_form_index) auto
    note raw = filled_symbol [OF ok tab l im k, folded h_def]
    have sm: "rel_option same_symbol (get_sym_at mf (p_header pm') ?so) (get_sym_at_raw m ?st ?so (h_symt_size h))"
      unfolding get_sym_at_def st' lay(5) by (rule same_symbols [OF same_symbol_table [OF B(1) h_def io(2)] k])
    from e False raw obtain s where s: "get_sym_at_raw m ?st ?so (h_symt_size h) = Some s"
      by (auto simp: slot_effect_def so lo lay(4) Let_def split: option.splits)
    then obtain s' where s': "get_sym_at mf (p_header pm') ?so = Some s'" "same_symbol s' s"
      using sm by (auto simp: option_rel_Some2)
    have kk: "known_kind s" by (rule image_ok_kind [OF im i]) (use False s in \<open>simp_all add: h_def\<close>)
    have u: "\<not> is_sectioned (read_header mf (p_header pm'))" using io(1) lay(5) by simp
    have own: "s_val (offset_sym mf pm' s) = (if s_location s = UDYNLINK_SYM_LOCATION_CODE then get_code_pointer mf pm'
        else get_data_pointer mf pm') + s_val s"
      if "s_type s = UDYNLINK_SYM_TYPE_INTERNAL \<or> s_type s = UDYNLINK_SYM_TYPE_EXPORTED \<or> s_type s = UDYNLINK_SYM_TYPE_WEAK"
      using that u by (auto simp: offset_sym_def add.commute)
    show ?thesis
      using e False raw s s' kk own
      by (auto simp: slot_effect_def link_word_def image_consts_def rels' so lo lay(4) Let_def h_def [symmetric]
          same_symbol_def known_kind_def sym_kinds split: if_splits)
  qed
qed

definition plain_resolver :: "'h externals \<Rightarrow> (cname \<Rightarrow> u32) \<Rightarrow> bool" where
  "plain_resolver x f \<longleftrightarrow> (\<forall>pm nm w. x_resolve x pm nm w = (f nm, w))"

lemma linked_words:
  assumes ok: "fill_ok m hp pm" and tab: "v_num tab = 0"
    and l: "load_untagged (udynlink_image_from_memory m hp) hp tab (LOAD_GET_MODE pm) pm m = (pm', mf)"
    and im: "image_ok m hp" and x: "plain_resolver x f" and w1: "w_mem w1 = mf"
    and r: "udynlink_load_apply_relocations x pm' hp (image_rels m hp) (image_syms m hp) w1 = (UDYNLINK_OK, w')"
  defines "n \<equiv> unat (h_num_rels (read_header m hp))" and "rels \<equiv> image_rels m hp"
  shows "i < n \<Longrightarrow> rd32 (w_mem w') (slot_target mf pm' tab rels i) = link_word mf pm' (image_consts f m hp) i"
    and "agree_off (slots mf pm' tab rels n) mf (w_mem w')"
proof -
  obtain err t2 where st: "get_sectab mf hp False = (err, t2)" by (metis surj_pair)
  note lay = filled_layout [OF ok tab l] and io = fill_ok_image [OF ok]
  have u: "\<not> is_sectioned (read_header mf hp)" using io(1) lay(4) by simp
  then have t2: "v_num t2 = 0" using untagged_view [OF u, of False] st by simp
  note A = filled_slots_ok [OF ok tab l im disjI1 [OF refl]]
  have eqs: "image_rels m hp = hp + get_header_size (read_header m hp)"
    "image_syms m hp = hp + get_header_size (read_header m hp) + ucast (h_num_rels (read_header m hp)) * 2 * 4"
    by (simp_all add: image_rels_def image_syms_def)
  have so: "slots_ok (w_mem w1) pm' t2 hp rels (image_syms m hp)"
    using A(3) unfolding w1 rels_def eqs target_any_view(3) [OF t2 tab] .
  have res: "resolves_to x f pm' w1" using x by (simp add: resolves_to_def plain_resolver_def)
  let ?e = "slot_effect f mf pm' t2 hp rels (image_syms m hp)"
  note rel = untagged_relocation [OF _ _ so res r [folded rels_def], unfolded w1 Let_def lay(4), OF io(1) st, folded n_def]
  have none: "find (\<lambda>i. \<exists>er. ?e i = Inl er) [0..<n] = None"
    using rel by (auto split: option.splits)
  have tv: "slot_target mf pm' t2 rels i = slot_target mf pm' tab rels i" for i by (rule target_any_view [OF t2 tab])
  show "agree_off (slots mf pm' tab rels n) mf (w_mem w')"
    using rel tv unfolding agree_off_def slots_def by simp
  show "rd32 (w_mem w') (slot_target mf pm' tab rels i) = link_word mf pm' (image_consts f m hp) i" if i: "i < n"
  proof -
    obtain v where v: "?e i = Inr v" using none i by (auto simp: find_upt_None) (metis sum.exhaust)
    have e2: "slot_effect f mf pm' tab hp rels (image_syms m hp) i = Inr v"
      using v by (simp add: slot_effect_def tv)
    note effect_is_link_word [OF ok tab l im i [unfolded n_def] e2 [unfolded rels_def]]
    then have "?e i = Inr (Some (slot_target mf pm' tab rels i, link_word mf pm' (image_consts f m hp) i))"
      using v by (simp add: rels_def)
    then show ?thesis using rel none i by simp
  qed
qed

lemma loaded_linked:
  assumes ok: "fill_ok m hp pm" and tab: "v_num tab = 0"
    and l: "load_untagged (udynlink_image_from_memory m hp) hp tab (LOAD_GET_MODE pm) pm m = (pm', mf)"
    and im: "image_ok m hp" and x: "plain_resolver x f" and w1: "w_mem w1 = mf"
    and r: "udynlink_load_apply_relocations x pm' hp (image_rels m hp) (image_syms m hp) w1 = (UDYNLINK_OK, w')"
  shows "linked (w_mem w') pm' tab (image_consts f m hp)"
proof (cases "unat (h_num_rels (read_header m hp)) = 0")
  case True
  note w = linked_words(2) [OF ok tab l im x w1 r]
  have "w_mem w' = mf" using w True by (auto simp: agree_off_def slots_def)
  then show ?thesis using True filled_layout(5) [OF ok tab l] by (simp add: linked_def)
next
  case False
  define h where "h = read_header m hp"
  note lay = filled_layout [OF ok tab l, folded h_def] and io = fill_ok_image [OF ok, folded h_def]
  note A = filled_slots_ok [OF ok tab l im disjI1 [OF refl], folded h_def]
    and B = filled_slots_ok [OF ok tab l im disjI2 [OF refl], folded h_def]
  note w = linked_words [OF ok tab l im x w1 r, folded h_def]
  let ?n = "unat (h_num_rels h)" and ?rels = "p_header pm' + get_header_size h" and ?m' = "w_mem w'"
  have tg: "slot_target mf pm' tab ?rels i = slot_target mf pm' tab (image_rels m hp) i" if "i < ?n" for i
    using same_entries(1) [OF A(1) h_def io(2) that] same_entries(1) [OF B(1) h_def io(2) that]
    by (simp add: slot_target_def image_rels_def h_def [symmetric])
  have "slots mf pm' tab ?rels ?n = slots mf pm' tab (image_rels m hp) ?n"
    unfolding slots_def by (rule SUP_cong) (auto simp: tg simp del: mem_blk)
  then have ag: "agree_off (slots mf pm' tab ?rels (unat (h_num_rels (read_header mf (p_header pm'))))) mf ?m'"
    using w(2) lay(5) by simp
  note wa = walk_agree [OF B(3) ag, unfolded lay(5)]
  have hd: "read_header ?m' (p_header pm') = h" using wa(1) [of 0] False by (simp add: h_def)
  have u: "\<not> is_sectioned (read_header mf (p_header pm'))" using io(1) lay(5) by simp
  note cg = untagged_cong [of ?m' pm' mf tab, OF _ u tab, unfolded hd lay(5), OF refl]
  show ?thesis unfolding linked_def hd header_tables(1)
  proof (intro allI impI)
    fix i assume i: "i < ?n"
    have "slot_target ?m' pm' tab ?rels i = slot_target mf pm' tab (image_rels m hp) i"
      using tg [OF i] by (simp add: slot_target_def wa(3) [OF i] cg(3))
    moreover have "link_word mf pm' (image_consts f m hp) i = link_word ?m' pm' (image_consts f m hp) i"
      by (rule link_word_cong)
        (use wa(4,5) [OF i] cg(1,2) hd lay(5) in \<open>auto simp: header_tables get_sym_at_def dest: not_base_form_index\<close>)
    ultimately show "rd32 ?m' (slot_target ?m' pm' tab ?rels i) = link_word ?m' pm' (image_consts f m hp) i"
      using w(1) [OF i] by simp
  qed
qed

section \<open>Whole loads\<close>

lemma mode_set [simp]: "LOAD_GET_MODE (LOAD_SET_MODE md pm) = md"
proof -
  have "((v AND NOT 3) OR load_mode_bits md) AND 3 = load_mode_bits md" for v :: u8
    by (cases md) (simp_all add: bit.conj_disj_distrib2 and.assoc acc_defs)
  then show ?thesis by (cases md) (simp_all add: LOAD_GET_MODE_def LOAD_SET_MODE_def acc_defs)
qed

lemma mode_named [simp]: "LOAD_GET_MODE (pm\<lparr>num_named_syms := k\<rparr>) = LOAD_GET_MODE pm"
  by (simp add: LOAD_GET_MODE_def)

lemma linked_named: "linked m (pm\<lparr>num_named_syms := k\<rparr>) tab c = linked m pm tab c"
proof -
  have p: "get_code_pointer m (pm\<lparr>num_named_syms := k\<rparr>) = get_code_pointer m pm"
    "get_data_pointer m (pm\<lparr>num_named_syms := k\<rparr>) = get_data_pointer m pm"
    by (simp_all add: get_code_pointer_def get_data_pointer_def get_section_base_idx_def Let_def
        split: prod.splits udynlink_load_mode_t.splits)
  have "get_reloc_target m (pm\<lparr>num_named_syms := k\<rparr>) tab lo = get_reloc_target m pm tab lo" for lo
    using p by (simp add: get_reloc_target_def get_section_base_idx_def [abs_def] Let_def split: option.splits)
  then show ?thesis
    by (simp add: linked_def link_word_def slot_target_def get_relocs_pointer_def p Let_def)
qed

lemma checks_untagged:
  assumes u: "\<not> is_sectioned (read_header m hp)" and c: "load_checks m hp md = (UDYNLINK_OK, tab, al, n)"
  shows "v_num tab = 0" "al = 4" "n = get_ram_size_for_header m hp md"
proof -
  obtain e t where t: "get_sectab m hp True = (e, t)" by (metis surj_pair)
  have "v_num t = 0" using untagged_view [OF u, of True] t by simp
  then show "v_num tab = 0" "al = 4" "n = get_ram_size_for_header m hp md"
    using c by (auto simp: load_checks_def t Let_def split: if_splits)
qed

lemma provision_untagged:
  assumes "v_num tab = 0" and "load_provision_ram x hp tab al n la ls pm w = (UDYNLINK_OK, pm1, w1)"
  shows "p_header pm1 = p_header pm" "LOAD_GET_MODE pm1 = LOAD_GET_MODE pm" "w_mem w1 = w_mem w"
  using assms by (auto simp: load_provision_ram_def udynlink_external_malloc_def Let_def split: if_splits prod.splits)

lemma load_untagged_steps:
  assumes u: "\<not> is_sectioned (read_header (w_mem w) hp)"
    and r: "udynlink_load_module x (Some pm0) hp la ls md w = (UDYNLINK_OK, Some pm', w')"
  obtains tab pm1 w1 pm2 mf k where "v_num tab = 0" "p_header pm1 = hp" "LOAD_GET_MODE pm1 = md" "w_mem w1 = w_mem w"
    "load_untagged (udynlink_image_from_memory (w_mem w) hp) hp tab md pm1 (w_mem w) = (pm2, mf)"
    "udynlink_load_apply_relocations x pm2 hp (image_rels (w_mem w) hp) (image_syms (w_mem w) hp) (w1\<lparr>w_mem := mf\<rparr>)
       = (UDYNLINK_OK, w')"
    "pm' = pm2\<lparr>num_named_syms := k\<rparr>"
proof -
  note img = untagged_image [OF u refl]
  obtain res tab al n where c: "load_checks (w_mem w) hp md = (res, tab, al, n)" by (metis surj_pair)
  let ?pm = "LOAD_SET_MODE md (pm0\<lparr>p_header := hp\<rparr>)"
  obtain res1 pm1 w1 where p: "load_provision_ram x hp tab al n la ls ?pm w = (res1, pm1, w1)" by (metis surj_pair)
  note r' = r [unfolded udynlink_load_module_def udynlink_load_module_image_def option.case img(1) Let_def c prod.case p]
  have ok: "res = UDYNLINK_OK" "res1 = UDYNLINK_OK"
    and f: "load_fill x (udynlink_image_from_memory (w_mem w) hp) hp tab md pm1 w1 = (UDYNLINK_OK, pm', w')"
    using r' by (auto simp: load_exit_def Let_def split: if_splits prod.splits)
  note ch = checks_untagged [OF u c [unfolded ok]]
  note pr = provision_untagged [OF ch(1) p [unfolded ok]]
  obtain pm2 mf where l: "load_untagged (udynlink_image_from_memory (w_mem w) hp) hp tab md pm1 (w_mem w) = (pm2, mf)"
    by (metis surj_pair)
  have eqs: "i_relocations (udynlink_image_from_memory (w_mem w) hp) = image_rels (w_mem w) hp"
    "i_symtab (udynlink_image_from_memory (w_mem w) hp) = image_syms (w_mem w) hp"
    by (simp_all add: img image_rels_def image_syms_def)
  have "udynlink_load_apply_relocations x pm2 hp (image_rels (w_mem w) hp) (image_syms (w_mem w) hp) (w1\<lparr>w_mem := mf\<rparr>)
       = (UDYNLINK_OK, w')" "\<exists>k. pm' = pm2\<lparr>num_named_syms := k\<rparr>"
    using f ch(1) by (auto simp: load_fill_def pr l eqs split: if_splits prod.splits)
  then show thesis using that [OF ch(1) _ _ pr(3) l] pr by auto
qed

text \<open>C1: loading a well-formed untagged image leaves a linked module: in every load mode, whether the
  host or the caller provides the RAM, a successful load makes every word the relocation table names
  hold what its entry asks for at the addresses the module now has: own code and data, sums with the
  bases, the address the host gives an extern symbol (0 while it is deferred), the host's or the
  module's own definition of a weak one. The RAM block must not meet the image.\<close>

theorem loaded_module_is_linked:
  assumes r: "udynlink_load_module x (Some pm0) hp la ls md w = (UDYNLINK_OK, Some pm', w')"
    and im: "image_ok (w_mem w) hp" and md: "md \<noteq> LOAD_MODE_RESERVED" and x: "plain_resolver x f"
    and apart: "let h = read_header (w_mem w) hp
      in blk hp (get_code_offset_from_header h + h_code_size h + h_data_size h)
           \<inter> blk (p_ram pm') (get_ram_size_for_header (w_mem w) hp md) = {}"
  shows "linked (w_mem w') pm' untagged_view (image_consts f (w_mem w) hp) \<and> LOAD_GET_MODE pm' = md"
proof -
  let ?m = "w_mem w"
  have u: "\<not> is_sectioned (read_header ?m hp)" using im by (simp add: image_ok_def Let_def)
  obtain tab pm1 w1 pm2 mf k where s: "v_num tab = 0" "p_header pm1 = hp" "LOAD_GET_MODE pm1 = md" "w_mem w1 = ?m"
    "load_untagged (udynlink_image_from_memory ?m hp) hp tab md pm1 ?m = (pm2, mf)"
    "udynlink_load_apply_relocations x pm2 hp (image_rels ?m hp) (image_syms ?m hp) (w1\<lparr>w_mem := mf\<rparr>) = (UDYNLINK_OK, w')"
    "pm' = pm2\<lparr>num_named_syms := k\<rparr>"
    by (rule load_untagged_steps [OF u r]) blast
  have ram: "p_ram pm2 = p_ram pm1"
    using s(1,5) by (auto simp: load_untagged_def copy_untagged_def Let_def split: if_splits prod.splits)
  have ok: "fill_ok ?m hp pm1"
    using im md apart s(2,3,7) ram by (simp add: fill_ok_def image_ok_def Let_def lot_size_def del: mem_blk)
  note l = s(5) [folded s(3)]
  have "linked (w_mem w') pm2 tab (image_consts f ?m hp)"
    by (rule loaded_linked [OF ok s(1) l im x _ s(6)]) simp
  then have "linked (w_mem w') pm2 untagged_view (image_consts f ?m hp)"
    by (simp add: linked_def target_any_view(2) [OF s(1), of untagged_view] untagged_view_def)
  then show ?thesis using filled_layout(2) [OF ok s(1) l] s(3,7) by (simp add: linked_named)
qed

section \<open>Loads that succeed\<close>

text \<open>An entry that can be linked: its word exists, an in-place sum is not in the offset table, a symbol
  reference is to an entry of the table, and the host knows an extern symbol or defers it.\<close>

definition linkable :: "(cname \<Rightarrow> u32) \<Rightarrow> mem \<Rightarrow> addr \<Rightarrow> nat \<Rightarrow> bool" where
  "linkable f m hp i \<longleftrightarrow>
     (let h = read_header m hp; so = reloc_symt_offset m (image_rels m hp) i; lo = reloc_lot_offset m (image_rels m hp) i;
          lot = lo < ucast (h_num_lot h)
      in (lot \<or> lo - ucast (h_num_lot h) < h_data_size h div 4)
         \<and> (if is_abs32 so \<or> is_code_base so then \<not> lot
            else case get_sym_at_raw m (image_syms m hp) so (h_symt_size h) of
                None \<Rightarrow> False | Some s \<Rightarrow> s_type s = UDYNLINK_SYM_TYPE_EXTERN \<longrightarrow> f (s_name s) \<noteq> 0))"

lemma linkable_target:
  assumes ok: "fill_ok m hp pm" and tab: "v_num tab = 0"
    and l: "load_untagged (udynlink_image_from_memory m hp) hp tab (LOAD_GET_MODE pm) pm m = (pm', mf)"
    and lk: "linkable f m hp i" and i: "i < unat (h_num_rels (read_header m hp))"
    and ram: "get_ram_size_for_header m hp (LOAD_GET_MODE pm) > 0 \<Longrightarrow> p_ram pm \<noteq> NULL
      \<and> unat (p_ram pm) + unat (get_ram_size_for_header m hp (LOAD_GET_MODE pm)) \<le> 2 ^ 32"
  shows "slot_target mf pm' tab (image_rels m hp) i \<noteq> NULL"
    and "reloc_lot_offset mf (image_rels m hp) i = reloc_lot_offset m (image_rels m hp) i"
    and "reloc_symt_offset mf (image_rels m hp) i = reloc_symt_offset m (image_rels m hp) i"
proof -
  define h where "h = read_header m hp"
  note lay = filled_layout [OF ok tab l, folded h_def] and io = fill_ok_image [OF ok, folded h_def]
  have i': "i < unat (h_num_rels h)" using i by (simp add: h_def)
  have same: "same_bytes mf hp m hp (meta_size h)"
    by (rule same_bytes_frame [OF same_bytes_refl]) (use lay(9) io(4) io(5) in blast)
  note en = same_entries [OF same h_def io(2) i', folded image_rels_def [of m hp, folded h_def]]
  show lo: "reloc_lot_offset mf (image_rels m hp) i = reloc_lot_offset m (image_rels m hp) i" by (rule en(1))
  show "reloc_symt_offset mf (image_rels m hp) i = reloc_symt_offset m (image_rels m hp) i" by (rule en(2))
  let ?lo = "reloc_lot_offset m (image_rels m hp) i" and ?n = "get_ram_size_for_header m hp (LOAD_GET_MODE pm)"
  have k: "?lo < ucast (h_num_lot h) \<or> ?lo - ucast (h_num_lot h) < h_data_size h div 4"
    using lk by (simp add: linkable_def Let_def h_def)
  note s = slot_in_block [OF ok, folded h_def, OF k]
  have "?n > 0" using s(1) by (auto simp: word_gt_0)
  then have nn: "NULL \<notin> blk (p_ram pm) ?n" using null_outside ram by blast
  have "p_ram pm + slot_offset h (LOAD_GET_MODE pm) ?lo \<in> blk (p_ram pm) ?n" by (rule subsetD [OF s(2)]) simp
  then have "p_ram pm + slot_offset h (LOAD_GET_MODE pm) ?lo \<noteq> NULL" using nn by metis
  moreover have "slot_target mf pm' tab (image_rels m hp) i = p_ram pm + slot_offset h (LOAD_GET_MODE pm) ?lo"
    using k ram \<open>?n > 0\<close> tab unfolding slot_target_def lo get_reloc_target_def lay(5) lay(6)
    by (auto simp: Let_def slot_offset_def lay(1))
  ultimately show "slot_target mf pm' tab (image_rels m hp) i \<noteq> NULL" by simp
qed

lemma linkable_effect:
  assumes ok: "fill_ok m hp pm" and tab: "v_num tab = 0"
    and l: "load_untagged (udynlink_image_from_memory m hp) hp tab (LOAD_GET_MODE pm) pm m = (pm', mf)"
    and im: "image_ok m hp" and lk: "linkable f m hp i" and i: "i < unat (h_num_rels (read_header m hp))"
    and ram: "get_ram_size_for_header m hp (LOAD_GET_MODE pm) > 0 \<Longrightarrow> p_ram pm \<noteq> NULL
      \<and> unat (p_ram pm) + unat (get_ram_size_for_header m hp (LOAD_GET_MODE pm)) \<le> 2 ^ 32"
  shows "slot_effect f mf pm' tab hp (image_rels m hp) (image_syms m hp) i \<noteq> Inl er"
proof -
  note t = linkable_target [OF ok tab l lk i ram] and hd = filled_layout(4) [OF ok tab l]
  let ?so = "reloc_symt_offset m (image_rels m hp) i" and ?h = "read_header m hp"
  show ?thesis
  proof (cases "is_abs32 ?so \<or> is_code_base ?so")
    case True
    then show ?thesis using lk t by (auto simp: slot_effect_def linkable_def hd Let_def)
  next
    case False
    then have k: "unat ?so < 2 ^ 31 - 1" by (intro not_base_form_index) auto
    have raw: "get_sym_at_raw mf (image_syms m hp) ?so (h_symt_size ?h) = get_sym_at_raw m (image_syms m hp) ?so (h_symt_size ?h)"
      by (rule filled_symbol [OF ok tab l im k])
    obtain s where s: "get_sym_at_raw m (image_syms m hp) ?so (h_symt_size ?h) = Some s"
      and f: "s_type s = UDYNLINK_SYM_TYPE_EXTERN \<Longrightarrow> f (s_name s) \<noteq> 0"
      using lk False by (auto simp: linkable_def Let_def split: option.splits)
    have "known_kind s" by (rule image_ok_kind [OF im i False s])
    then show ?thesis using False t f
      by (auto simp: slot_effect_def hd raw s known_kind_def sym_kinds Let_def)
  qed
qed

lemma relocations_succeed:
  assumes ok: "fill_ok m hp pm" and tab: "v_num tab = 0"
    and l: "load_untagged (udynlink_image_from_memory m hp) hp tab (LOAD_GET_MODE pm) pm m = (pm', mf)"
    and im: "image_ok m hp" and x: "plain_resolver x f" and w1: "w_mem w1 = mf"
    and lk: "\<And>i. i < unat (h_num_rels (read_header m hp)) \<Longrightarrow> linkable f m hp i"
    and ram: "get_ram_size_for_header m hp (LOAD_GET_MODE pm) > 0 \<Longrightarrow> p_ram pm \<noteq> NULL
      \<and> unat (p_ram pm) + unat (get_ram_size_for_header m hp (LOAD_GET_MODE pm)) \<le> 2 ^ 32"
  shows "fst (udynlink_load_apply_relocations x pm' hp (image_rels m hp) (image_syms m hp) w1) = UDYNLINK_OK"
proof -
  obtain err t2 where st: "get_sectab mf hp False = (err, t2)" by (metis surj_pair)
  obtain res w' where r: "udynlink_load_apply_relocations x pm' hp (image_rels m hp) (image_syms m hp) w1 = (res, w')"
    by (metis surj_pair)
  note lay = filled_layout [OF ok tab l] and io = fill_ok_image [OF ok]
  have u: "\<not> is_sectioned (read_header mf hp)" using io(1) lay(4) by simp
  then have t2: "v_num t2 = 0" using untagged_view [OF u, of False] st by simp
  have so: "slots_ok (w_mem w1) pm' t2 hp (image_rels m hp) (image_syms m hp)"
    using filled_slots_ok(3) [OF ok tab l im disjI1 [OF refl]]
    unfolding w1 image_syms_def image_rels_def target_any_view(3) [OF t2 tab] .
  have res: "resolves_to x f pm' w1" using x by (simp add: resolves_to_def plain_resolver_def)
  note rel = untagged_relocation [OF _ _ so res r, unfolded w1 Let_def lay(4), OF io(1) st]
  have "slot_effect f mf pm' t2 hp (image_rels m hp) (image_syms m hp) i \<noteq> Inl er"
    if "i < unat (h_num_rels (read_header m hp))" for i er
    using linkable_effect [OF ok tab l im lk [OF that] that ram]
    by (simp add: slot_effect_def target_any_view(2) [OF t2 tab])
  then have "find (\<lambda>i. \<exists>er. slot_effect f mf pm' t2 hp (image_rels m hp) (image_syms m hp) i = Inl er)
      [0..<unat (h_num_rels (read_header m hp))] = None"
    by (auto simp: find_upt_None)
  then show ?thesis using rel by (simp add: r)
qed

text \<open>RAM for a block of \<open>n\<close> bytes at \<open>p\<close>, from the caller or from the host's allocator.\<close>

definition ram_for :: "'h externals \<Rightarrow> addr \<Rightarrow> u32 \<Rightarrow> 'h world \<Rightarrow> u32 \<Rightarrow> addr \<Rightarrow> bool" where
  "ram_for x la ls w n p \<longleftrightarrow> p \<noteq> NULL \<and> p AND 3 = 0 \<and> unat p + unat n \<le> 2 ^ 32
     \<and> (if la = NULL then fst (x_malloc x w n NULL 4 0) = p else la = p \<and> n \<le> ls)"

lemma provision_succeeds:
  assumes "v_num tab = 0" and "n > 0 \<Longrightarrow> ram_for x la ls w n p"
  obtains pm1 w1 where "load_provision_ram x hp tab 4 n la ls pm w = (UDYNLINK_OK, pm1, w1)"
    "p_ram pm1 = (if n > 0 then p else NULL)"
proof (cases "n > 0")
  case True
  note a = assms(2) [OF True, unfolded ram_for_def]
  have "\<exists>pm1 w1. load_provision_ram x hp tab 4 n la ls pm w = (UDYNLINK_OK, pm1, w1) \<and> p_ram pm1 = p"
    using a True assms(1)
    by (cases "la = NULL") (auto simp: load_provision_ram_def udynlink_external_malloc_def Let_def not_less split: prod.splits)
  then show thesis using that True by auto
next
  case False
  then have "load_provision_ram x hp tab 4 n la ls pm w = (UDYNLINK_OK, pm\<lparr>p_ram := NULL\<rparr>, w)"
    by (simp add: load_provision_ram_def)
  then show thesis using that False by auto
qed

lemma image_loads:
  assumes im: "image_ok (w_mem w) hp" and md: "md \<noteq> LOAD_MODE_RESERVED" and x: "plain_resolver x f"
    and lk: "\<And>i. i < unat (h_num_rels (read_header (w_mem w) hp)) \<Longrightarrow> linkable f (w_mem w) hp i"
    and c: "load_checks (w_mem w) hp md = (UDYNLINK_OK, tab, al, n)"
    and ram: "n > 0 \<Longrightarrow> ram_for x la ls w n p"
    and apart: "let h = read_header (w_mem w) hp
      in blk hp (get_code_offset_from_header h + h_code_size h + h_data_size h) \<inter> blk p n = {}"
  shows "\<exists>pm' w'. udynlink_load_module x (Some pm0) hp la ls md w = (UDYNLINK_OK, Some pm', w')
    \<and> p_ram pm' = (if n > 0 then p else NULL)"
proof -
  let ?m = "w_mem w" and ?pm = "LOAD_SET_MODE md (pm0\<lparr>p_header := hp\<rparr>)"
  have u: "\<not> is_sectioned (read_header ?m hp)" using im by (simp add: image_ok_def Let_def)
  note img = untagged_image [OF u refl] and ch = checks_untagged [OF u c]
  obtain pm1 w1 where p: "load_provision_ram x hp tab 4 n la ls ?pm w = (UDYNLINK_OK, pm1, w1)"
    "p_ram pm1 = (if n > 0 then p else NULL)"
    by (rule provision_succeeds [OF ch(1) ram])
  note pr = provision_untagged [OF ch(1) p(1)]
  have pm1: "p_header pm1 = hp" "LOAD_GET_MODE pm1 = md" using pr by simp_all
  obtain pm2 mf where l: "load_untagged (udynlink_image_from_memory ?m hp) hp tab md pm1 ?m = (pm2, mf)"
    by (metis surj_pair)
  have "blk (p_ram pm1) n \<subseteq> blk p n" using p(2) by (auto simp: word_gt_0 simp del: mem_blk)
  then have ok: "fill_ok ?m hp pm1"
    using im md apart pm1 ch(3) unfolding fill_ok_def image_ok_def Let_def lot_size_def by blast
  note l' = l [folded pm1(2)]
  have "fst (udynlink_load_apply_relocations x pm2 hp (image_rels ?m hp) (image_syms ?m hp) (w1\<lparr>w_mem := mf\<rparr>)) = UDYNLINK_OK"
    by (rule relocations_succeed [OF ok ch(1) l' im x _ lk]) (use p(2) ram in \<open>auto simp: ch(3) pm1 ram_for_def\<close>)
  then obtain w' where r: "udynlink_load_apply_relocations x pm2 hp (image_rels ?m hp) (image_syms ?m hp) (w1\<lparr>w_mem := mf\<rparr>)
      = (UDYNLINK_OK, w')" by (metis prod.collapse)
  have eqs: "i_relocations (udynlink_image_from_memory ?m hp) = image_rels ?m hp"
    "i_symtab (udynlink_image_from_memory ?m hp) = image_syms ?m hp"
    by (simp_all add: img image_rels_def image_syms_def)
  have "load_fill x (udynlink_image_from_memory ?m hp) hp tab md pm1 w1
      = (UDYNLINK_OK, pm2\<lparr>num_named_syms := compute_num_named_syms (w_mem w') (p_header pm2)\<rparr>, w')"
    using ch(1) by (simp add: load_fill_def pr l eqs r)
  then have "udynlink_load_module x (Some pm0) hp la ls md w
      = (UDYNLINK_OK, Some (pm2\<lparr>num_named_syms := compute_num_named_syms (w_mem w') (p_header pm2)\<rparr>), w')"
    using p(1) by (simp add: udynlink_load_module_def udynlink_load_module_image_def img(1) c ch(2) load_exit_def)
  moreover have "p_ram pm2 = p_ram pm1" by (rule filled_layout(1) [OF ok ch(1) l'])
  ultimately show ?thesis using p(2) by simp
qed

text \<open>C2: an untagged image that passes the loader's checks and whose every entry can be linked loads: given a
  big enough aligned block from the caller or the allocator, and a host that resolves or defers every
  extern symbol, the load returns success and the handle holds that block.\<close>

theorem linkable_image_loads:
  assumes "image_ok (w_mem w) hp" and "md \<noteq> LOAD_MODE_RESERVED" and "plain_resolver x f"
    and "\<And>i. i < unat (h_num_rels (read_header (w_mem w) hp)) \<Longrightarrow> linkable f (w_mem w) hp i"
    and "load_checks (w_mem w) hp md = (UDYNLINK_OK, tab, al, n)"
    and "n > 0 \<Longrightarrow> ram_for x la ls w n p"
    and "let h = read_header (w_mem w) hp
      in blk hp (get_code_offset_from_header h + h_code_size h + h_data_size h) \<inter> blk p n = {}"
  shows "\<exists>pm' w'. udynlink_load_module x (Some pm0) hp la ls md w = (UDYNLINK_OK, Some pm', w')
    \<and> p_ram pm' = (if n > 0 then p else NULL)"
  by (rule image_loads [OF assms])

section \<open>The example image copied into RAM\<close>

lemma plain_rels:
  "reloc_lot_offset plain_mem 0x1020 0 = 0" "reloc_lot_offset plain_mem 0x1020 (Suc 0) = 1"
  "reloc_lot_offset plain_mem 0x1020 2 = 2" "reloc_lot_offset plain_mem 0x1020 3 = 3"
  "reloc_symt_offset plain_mem 0x1020 0 = 1" "reloc_symt_offset plain_mem 0x1020 (Suc 0) = 3"
  "reloc_symt_offset plain_mem 0x1020 2 = 0x80000008" "reloc_symt_offset plain_mem 0x1020 3 = 0x40000000"
  by (simp_all add: reloc_lot_offset_def reloc_symt_offset_def plain_mem_def words_eval plain_image_def)

lemma plain_symbols:
  "get_sym_at_raw plain_mem 0x1040 1 44 = Some \<lparr>s_name = In_memory 0x1066, s_val = 4, s_type = 1, s_location = 0\<rparr>"
  "get_sym_at_raw plain_mem 0x1040 3 44 = Some \<lparr>s_name = In_memory 0x106A, s_val = 0, s_type = 2, s_location = 1\<rparr>"
  by (simp_all add: get_sym_at_raw_def plain_mem_def words_eval plain_image_def sym_type_of_def sym_location_of_def
      acc_defs Let_def word_le_nat_alt word_less_nat_alt)

lemma plain_tables: "image_rels plain_mem 0x1000 = 0x1020" "image_syms plain_mem 0x1000 = 0x1040"
  by (simp_all add: image_rels_def image_syms_def plain_header get_header_size_def acc_defs)

lemma plain_image_ok: "image_ok plain_mem 0x1000"
proof -
  have "\<not> is_sectioned (read_header plain_mem 0x1000)" by (simp add: plain_header is_sectioned_def acc_defs)
  then show ?thesis
    by (simp add: image_ok_def plain_tables plain_code_offset Let_def)
       (auto simp: plain_header header_words_ok_def lot_size_def less_4 plain_rels plain_symbols
        known_kind_def sym_kinds is_abs32_def is_code_base_def)
qed

lemma plain_linkable: "i < 4 \<Longrightarrow> linkable (\<lambda>_. 0x777) plain_mem 0x1000 i"
  by (auto simp: less_4 linkable_def plain_tables plain_rels plain_header plain_symbols is_abs32_def is_code_base_def
      sym_kinds Let_def word_less_nat_alt word_le_nat_alt)

lemma plain_checks_ram: "load_checks plain_mem 0x1000 LOAD_MODE_COPY_ALL =
    (UDYNLINK_OK, \<lparr>v_entries = NULL, v_pool = 0x1040, v_num = 0\<rparr>, 4, 140)"
  by (simp add: load_checks_def plain_valid plain_sectab plain_code_offset plain_ram_size)
   (simp add: plain_header plain_ram_size acc_defs Let_def)

lemma plain_ram_for: "ram_for bump_host NULL 0 (start_world m) 140 0x20000"
  by (simp add: ram_for_def bump_host_def start_world_def)

lemma plain_resolver_bump: "plain_resolver bump_host (\<lambda>_. 0x777)"
  by (simp add: plain_resolver_def bump_host_def)

lemma plain_apart: "let h = read_header plain_mem 0x1000
    in blk 0x1000 (get_code_offset_from_header h + h_code_size h + h_data_size h) \<inter> blk 0x20000 140 = {}"
  using ram_fill_ok by (simp add: fill_ok_def ram_mode plain_ram_size Let_def del: mem_blk)

lemma start_mem: "w_mem (start_world m) = m"
  by (simp add: start_world_def)

theorem linkable_image_loads_witness:
  "\<exists>pm' w'. udynlink_load_module bump_host (Some empty_module) 0x1000 NULL 0 LOAD_MODE_COPY_ALL (start_world plain_mem)
      = (UDYNLINK_OK, Some pm', w') \<and> p_ram pm' = 0x20000"
  using linkable_image_loads [of "start_world plain_mem" "0x1000" LOAD_MODE_COPY_ALL bump_host "\<lambda>_. 0x777" _ 4 140
      NULL 0 "0x20000" empty_module, unfolded start_mem,
      OF plain_image_ok _ plain_resolver_bump _ plain_checks_ram plain_ram_for plain_apart]
    plain_linkable by (simp add: plain_header)

theorem loaded_module_is_linked_witness:
  "\<exists>pm' w'. udynlink_load_module bump_host (Some empty_module) 0x1000 NULL 0 LOAD_MODE_COPY_ALL (start_world plain_mem)
      = (UDYNLINK_OK, Some pm', w') \<and> linked (w_mem w') pm' untagged_view (image_consts (\<lambda>_. 0x777) plain_mem 0x1000)"
proof -
  have "\<exists>pm' w'. udynlink_load_module bump_host (Some empty_module) 0x1000 NULL 0 LOAD_MODE_COPY_ALL (start_world plain_mem)
      = (UDYNLINK_OK, Some pm', w') \<and> p_ram pm' = (if (140 :: u32) > 0 then 0x20000 else NULL)"
    by (rule image_loads [of "start_world plain_mem", unfolded start_mem, OF plain_image_ok _ plain_resolver_bump _
          plain_checks_ram plain_ram_for plain_apart]) (use plain_linkable in \<open>simp_all add: plain_header\<close>)
  then obtain pm' w' where r: "udynlink_load_module bump_host (Some empty_module) 0x1000 NULL 0 LOAD_MODE_COPY_ALL
      (start_world plain_mem) = (UDYNLINK_OK, Some pm', w')" and p: "p_ram pm' = 0x20000" by auto
  have "linked (w_mem w') pm' untagged_view (image_consts (\<lambda>_. 0x777) plain_mem 0x1000)"
    using loaded_module_is_linked [OF r, unfolded start_mem, OF plain_image_ok _ plain_resolver_bump] plain_apart
    by (simp add: p plain_ram_size del: mem_blk)
  with r show ?thesis by blast
qed

end
