(* ===== verification/RelinkSpec.thy ===== *)
theory RelinkSpec
  imports LinkSpec
begin

text \<open>
  Linking after the load: re-resolving the extern words of a loaded untagged module, all of them or
  those still empty, and setting the words of one symbol by name.
\<close>

section \<open>Resolving extern words again\<close>

text \<open>The symbol a relocation entry refers to, and whether it is extern.\<close>

definition entry_symbol :: "mem \<Rightarrow> udynlink_module_t \<Rightarrow> nat \<Rightarrow> udynlink_sym_t option" where
  "entry_symbol m pm i =
     (let so = reloc_symt_offset m (get_relocs_pointer m pm) i
      in if is_abs32 so \<or> is_code_base so then None else get_sym_at m (p_header pm) so)"

definition extern_entry :: "mem \<Rightarrow> udynlink_module_t \<Rightarrow> nat \<Rightarrow> bool" where
  "extern_entry m pm i \<longleftrightarrow>
     (case entry_symbol m pm i of None \<Rightarrow> False | Some s \<Rightarrow> s_type s = UDYNLINK_SYM_TYPE_EXTERN)"

definition host_word :: "(cname \<Rightarrow> u32) \<Rightarrow> mem \<Rightarrow> udynlink_module_t \<Rightarrow> nat \<Rightarrow> u32" where
  "host_word f m pm i =
     (case entry_symbol m pm i of None \<Rightarrow> 0
      | Some s \<Rightarrow> if f (s_name s) = UDYNLINK_SYM_DEFERRED then 0 else f (s_name s))"

text \<open>The constants of the module afterwards: incremental linking only asks for words that are 0.\<close>

definition relinked_consts :: "(cname \<Rightarrow> u32) \<Rightarrow> bool \<Rightarrow> mem \<Rightarrow> udynlink_module_t \<Rightarrow> (nat \<Rightarrow> u32) \<Rightarrow> nat \<Rightarrow> u32" where
  "relinked_consts f incremental m pm c i =
     (if extern_entry m pm i \<and> \<not> (incremental \<and> c i \<noteq> 0) then host_word f m pm i else c i)"

definition relink_effect ::
  "(cname \<Rightarrow> u32) \<Rightarrow> bool \<Rightarrow> mem \<Rightarrow> udynlink_module_t \<Rightarrow> sect_view_t \<Rightarrow> nat \<Rightarrow> unit + (addr \<times> u32) option" where
  "relink_effect f incremental m pm tab i =
     (let p = slot_target m pm tab (get_relocs_pointer m pm) i
      in if extern_entry m pm i \<and> p \<noteq> NULL \<and> \<not> (incremental \<and> rd32 m p \<noteq> 0)
         then Inr (Some (p, host_word f m pm i)) else Inr None)"

lemma relink_to_slots: "to_slots (relink_effect f inc m pm tab) m pm tab (get_relocs_pointer m pm)"
  by (auto simp: to_slots_def relink_effect_def Let_def)

text \<open>The view the entry is read through stays the same while only slots change.\<close>

lemma entry_kept:
  assumes ok: "slots_ok m pm tab (p_header pm) (get_relocs_pointer m pm) (get_sym_table_pointer m (p_header pm))"
    and ag: "agree_off (slots m pm tab (get_relocs_pointer m pm) (unat (h_num_rels (read_header m (p_header pm))))) m m'"
    and i: "i < unat (h_num_rels (read_header m (p_header pm)))"
  shows "get_relocs_pointer m' pm = get_relocs_pointer m pm" "entry_symbol m' pm i = entry_symbol m pm i"
    and "get_reloc_target m' pm tab lo = get_reloc_target m pm tab lo"
    and "slot_target m' pm tab (get_relocs_pointer m pm) i = slot_target m pm tab (get_relocs_pointer m pm) i"
    and "link_word m' pm c i = link_word m pm c i"
proof -
  note w = walk_agree [OF ok ag i]
  have u: "\<not> is_sectioned (read_header m (p_header pm))" "v_num tab = 0" using ok by (simp_all add: slots_ok_def Let_def)
  note cg = untagged_cong [of m' pm m tab, OF w(1) u]
  show r: "get_relocs_pointer m' pm = get_relocs_pointer m pm" by (simp add: get_relocs_pointer_def w(1))
  have st: "get_sym_table_pointer m' (p_header pm) = get_sym_table_pointer m (p_header pm)"
    by (simp add: get_sym_table_pointer_def w(1))
  have sym: "get_sym_at m' (p_header pm) so = get_sym_at m (p_header pm) so" if "unat so < 2 ^ 31 - 1" for so
    using w(5) [OF that] by (simp add: get_sym_at_def st w(1))
  show "entry_symbol m' pm i = entry_symbol m pm i"
    using w(4) sym by (auto simp: entry_symbol_def r Let_def dest: not_base_form_index)
  show "get_reloc_target m' pm tab lo = get_reloc_target m pm tab lo" by (rule cg(3))
  then show "slot_target m' pm tab (get_relocs_pointer m pm) i = slot_target m pm tab (get_relocs_pointer m pm) i"
    by (simp add: slot_target_def w(3) cg(3))
  show "link_word m' pm c i = link_word m pm c i"
    using w(4) sym by (intro link_word_cong [symmetric]) (auto simp: r cg(1,2) dest: not_base_form_index)
qed

lemma extern_step_effect:
  assumes ok: "slots_ok m pm tab (p_header pm) (get_relocs_pointer m pm) (get_sym_table_pointer m (p_header pm))"
    and res: "resolves_to x f pm w" and v: "v_num t = 0"
    and ag: "agree_off (slots m pm tab (get_relocs_pointer m pm) (unat (h_num_rels (read_header m (p_header pm))))) m m'"
    and i: "i < unat (h_num_rels (read_header m (p_header pm)))"
    and unread: "slot_target m pm tab (get_relocs_pointer m pm) i \<noteq> NULL \<Longrightarrow>
      rd32 m' (slot_target m pm tab (get_relocs_pointer m pm) i) = rd32 m (slot_target m pm tab (get_relocs_pointer m pm) i)"
  shows "extern_step x pm (get_relocs_pointer m pm) t inc i (w\<lparr>w_mem := m'\<rparr>) =
    (case relink_effect f inc m pm tab i of Inl _ \<Rightarrow> w | Inr None \<Rightarrow> w\<lparr>w_mem := m'\<rparr>
     | Inr (Some (p, v)) \<Rightarrow> w\<lparr>w_mem := wr32 m' p v\<rparr>)"
proof -
  let ?rels = "get_relocs_pointer m pm"
  have vt: "v_num tab = 0" using ok by (simp add: slots_ok_def Let_def)
  note e = entry_kept [OF ok ag i] and w = walk_agree(3,4) [OF ok ag i]
  have tg: "get_reloc_target m' pm t (reloc_lot_offset m ?rels i) = slot_target m pm tab ?rels i"
    using e(3) target_any_view(1) [OF v vt] by (simp add: slot_target_def)
  have rs: "resolve_symbol x pm nm (w\<lparr>w_mem := mm\<rparr>) = (f nm, w\<lparr>w_mem := mm\<rparr>)" for nm mm
    using res by (simp add: resolves_to_def resolve_symbol_eq)
  have sy: "entry_symbol m pm i = (if is_abs32 (reloc_symt_offset m ?rels i) \<or> is_code_base (reloc_symt_offset m ?rels i)
      then None else get_sym_at m' (p_header pm) (reloc_symt_offset m ?rels i))"
    using e(2) by (simp add: entry_symbol_def e(1) w Let_def)
  show ?thesis
  proof (cases "entry_symbol m pm i")
    case None
    then show ?thesis using sy by (auto simp: extern_step_def relink_effect_def extern_entry_def w Let_def)
  next
    case (Some s)
    then have g: "\<not> is_abs32 (reloc_symt_offset m ?rels i)" "\<not> is_code_base (reloc_symt_offset m ?rels i)"
      "get_sym_at m' (p_header pm) (reloc_symt_offset m ?rels i) = Some s"
      using sy by (auto split: if_splits)
    then have "extern_step x pm ?rels t inc i (w\<lparr>w_mem := m'\<rparr>) =
        (let p = slot_target m pm tab ?rels i
         in if s_type s \<noteq> UDYNLINK_SYM_TYPE_EXTERN \<or> p = NULL \<or> inc \<and> rd32 m' p \<noteq> 0 then w\<lparr>w_mem := m'\<rparr>
            else set_word p (if f (s_name s) = UDYNLINK_SYM_DEFERRED then 0 else f (s_name s)) (w\<lparr>w_mem := m'\<rparr>))"
      by (auto simp: extern_step_def w tg rs Let_def word_gt_0)
    then show ?thesis using unread
      by (auto simp: relink_effect_def extern_entry_def host_word_def Some Let_def set_word_def)
  qed
qed

lemma relink_walk:
  assumes ok: "slots_ok (w_mem w) pm tab (p_header pm) (get_relocs_pointer (w_mem w) pm) (get_sym_table_pointer (w_mem w) (p_header pm))"
    and res: "resolves_to x f pm w"
  shows "apply_extern_relocations_impl x pm inc w =
    w\<lparr>w_mem := written (relink_effect f inc (w_mem w) pm tab) (unat (h_num_rels (read_header (w_mem w) (p_header pm)))) (w_mem w)\<rparr>"
proof -
  let ?m = "w_mem w" and ?rels = "get_relocs_pointer (w_mem w) pm" and ?e = "relink_effect f inc (w_mem w) pm tab"
  let ?n = "unat (h_num_rels (read_header (w_mem w) (p_header pm)))"
  obtain err t where t: "get_sectab ?m (p_header pm) False = (err, t)" by (metis surj_pair)
  have "\<not> is_sectioned (read_header ?m (p_header pm))" using ok by (simp add: slots_ok_def Let_def)
  from untagged_view [OF this, of False] have v: "v_num t = 0" using t by simp
  have nl: "?e i \<noteq> Inl er" for i er by (simp add: relink_effect_def Let_def)
  have "for_u16 (\<lambda>w. h_num_rels (read_header (w_mem w) (p_header pm))) (\<lambda>_. False) (extern_step x pm ?rels t inc) 0
      ((\<lambda>m. w\<lparr>w_mem := m\<rparr>) ?m) =
    (case find (\<lambda>i. \<exists>er. ?e i = Inl er) [0..<?n] of
       None \<Rightarrow> (\<lambda>m. w\<lparr>w_mem := m\<rparr>) (written ?e ?n ?m) | Some k \<Rightarrow> (\<lambda>er m. w) (projl (?e k)) (written ?e k ?m))"
    by (rule walk_loop [OF relink_to_slots ok]) (use extern_step_effect [OF ok res v] nl in simp_all)
  moreover have "find (\<lambda>i. \<exists>er. ?e i = Inl er) [0..<?n] = None" by (simp add: find_upt_None nl)
  ultimately show ?thesis by (simp add: apply_extern_relocations_impl_def t Let_def)
qed

lemma extern_link_word:
  assumes "extern_entry m pm i"
  shows "link_word m pm c i = c i"
  using assms by (auto simp: extern_entry_def entry_symbol_def link_word_def sym_kinds Let_def split: option.splits if_splits)

lemma link_word_const: "c i = d i \<Longrightarrow> link_word m pm c i = link_word m pm d i"
  by (simp add: link_word_def Let_def split: option.splits)

definition extern_slots :: "mem \<Rightarrow> udynlink_module_t \<Rightarrow> sect_view_t \<Rightarrow> addr set" where
  "extern_slots m pm tab =
     (\<Union>i\<in>{i. i < unat (h_num_rels (read_header m (p_header pm))) \<and> extern_entry m pm i}.
        blk (slot_target m pm tab (get_relocs_pointer m pm) i) 4)"

text \<open>C7: linking again after the load. On a linked untagged module, \<open>udynlink_relink_all\<close> asks the host
  again for every extern symbol and \<open>udynlink_link_incremental\<close> only for those whose word is 0; the
  module is then linked with the new addresses (0 for a symbol the host still defers or does not
  know), every other word keeps what it held, and nothing outside the extern words changes.\<close>

theorem relinking_correct:
  fixes pm w defines "m \<equiv> w_mem w"
  assumes ok: "rebase_ok m pm tab" and link: "linked m pm tab c" and res: "resolves_to x f pm w" and h: "p_header pm \<noteq> NULL"
    and r: "(if incremental then udynlink_link_incremental else udynlink_relink_all) x (Some pm) w = (err, w')"
  shows "err = UDYNLINK_OK \<and> linked (w_mem w') pm tab (relinked_consts f incremental m pm c)
    \<and> (\<forall>a. a \<notin> extern_slots m pm tab \<longrightarrow> w_mem w' a = m a) \<and> w_calls w' = w_calls w"
proof -
  define n where "n = unat (h_num_rels (read_header m (p_header pm)))"
  define e where "e = relink_effect f incremental m pm tab"
  let ?rels = "get_relocs_pointer m pm" and ?c = "relinked_consts f incremental m pm c"
  have sok: "slots_ok m pm tab (p_header pm) ?rels (get_sym_table_pointer m (p_header pm))"
    and nn: "\<And>i. i < n \<Longrightarrow> slot_target m pm tab ?rels i \<noteq> NULL"
    using ok by (auto simp: rebase_ok_def Let_def n_def)
  have t: "to_slots e m pm tab ?rels" unfolding e_def by (rule relink_to_slots)
  have "err = UDYNLINK_OK \<and> w' = apply_extern_relocations_impl x pm incremental w"
    using r h by (auto simp: udynlink_link_incremental_def udynlink_relink_all_def split: if_splits)
  then have w': "err = UDYNLINK_OK" "w' = w\<lparr>w_mem := written e n m\<rparr>"
    using relink_walk [OF sok [unfolded m_def] res, of incremental] by (simp_all add: e_def n_def m_def)
  have word: "rd32 (written e n m) (slot_target m pm tab ?rels i) = link_word m pm ?c i" if i: "i < n" for i
  proof (cases "e i = Inr None")
    case True
    then have "rd32 (written e n m) (slot_target m pm tab ?rels i) = rd32 m (slot_target m pm tab ?rels i)"
      using walk_slot_kept [OF t sok i [unfolded n_def] nn [OF i]] by (simp add: n_def)
    also have "\<dots> = link_word m pm c i" using link i by (simp add: linked_def n_def)
    also have "\<dots> = link_word m pm ?c i"
      using True nn [OF i] calculation extern_link_word [of m pm i c] link i
      by (intro link_word_const) (auto simp: e_def relink_effect_def relinked_consts_def linked_def n_def Let_def split: if_splits)
    finally show ?thesis .
  next
    case False
    then have ei: "extern_entry m pm i" "\<not> (incremental \<and> rd32 m (slot_target m pm tab ?rels i) \<noteq> 0)"
      "e i = Inr (Some (slot_target m pm tab ?rels i, host_word f m pm i))"
      by (auto simp: e_def relink_effect_def Let_def split: if_splits)
    have "rd32 m (slot_target m pm tab ?rels i) = c i"
      using link i extern_link_word [OF ei(1)] by (simp add: linked_def n_def)
    then show ?thesis
      using walk_slot_written [OF t sok i [unfolded n_def] ei(3)] ei extern_link_word [OF ei(1)]
      by (simp add: n_def relinked_consts_def)
  qed
  note ag = walk_frame [OF t order_refl, of n]
  have "linked (written e n m) pm tab ?c"
  proof (cases n)
    case 0
    then show ?thesis by (simp add: linked_def n_def)
  next
    case (Suc k)
    note kept = entry_kept [OF sok ag [unfolded n_def], folded n_def] and hd = walk_agree(1) [OF sok ag [unfolded n_def], folded n_def]
    have "read_header (written e n m) (p_header pm) = read_header m (p_header pm)" by (rule hd [of 0]) (simp add: Suc)
    then show ?thesis using word kept(1) [of 0] kept(4,5) Suc by (simp add: linked_def n_def)
  qed
  moreover have "written e n m a = m a" if "a \<notin> extern_slots m pm tab" for a
    by (rule written_frame) (use that in \<open>auto simp: e_def relink_effect_def extern_slots_def n_def Let_def simp del: mem_blk split: if_splits\<close>)
  ultimately show ?thesis by (simp add: w')
qed

section \<open>Setting a symbol by name\<close>

lemma cstr_n_cong:
  assumes "length (cstr_n m a n) < n" and "\<And>k. k \<le> length (cstr_n m a n) \<Longrightarrow> m' (a + of_nat k) = m (a + of_nat k)"
  shows "cstr_n m' a n = cstr_n m a n"
  using assms
proof (induction n arbitrary: a)
  case (Suc n)
  have h: "m' a = m a" using Suc.prems(2) [of 0] by simp
  show ?case
  proof (cases "m a = 0")
    case True
    then show ?thesis using h by (simp add: cstr_n.simps [of m' a "Suc n"] cstr_n.simps [of m a "Suc n"])
  next
    case False
    then have u: "cstr_n m a (Suc n) = m a # cstr_n m (a + 1) n" by (simp add: cstr_n.simps [of m a "Suc n"])
    have "cstr_n m' (a + 1) n = cstr_n m (a + 1) n"
    proof (rule Suc.IH)
      show "length (cstr_n m (a + 1) n) < n" using Suc.prems(1) u by simp
      show "m' (a + 1 + of_nat k) = m (a + 1 + of_nat k)" if "k \<le> length (cstr_n m (a + 1) n)" for k
        using Suc.prems(2) [of "Suc k"] that u by (simp add: add.assoc)
    qed
    then show ?thesis using False h u by (simp add: cstr_n.simps [of m' a "Suc n"])
  qed
qed simp

text \<open>The names the entries refer to are terminated, and lie outside the relocated words.\<close>

definition names_apart :: "mem \<Rightarrow> udynlink_module_t \<Rightarrow> sect_view_t \<Rightarrow> bool" where
  "names_apart m pm tab \<longleftrightarrow>
     (let n = unat (h_num_rels (read_header m (p_header pm)))
      in \<forall>i < n. \<forall>s a. entry_symbol m pm i = Some s \<longrightarrow> s_name s = In_memory a \<longrightarrow>
           length (cstr m a) < 4294967296 \<and>
           (\<forall>k \<le> length (cstr m a). a + of_nat k \<notin> slots m pm tab (get_relocs_pointer m pm) n))"

lemma name_kept:
  assumes "names_apart m pm tab"
    and ag: "agree_off (slots m pm tab (get_relocs_pointer m pm) (unat (h_num_rels (read_header m (p_header pm))))) m m'"
    and i: "i < unat (h_num_rels (read_header m (p_header pm)))" and s: "entry_symbol m pm i = Some s"
  shows "name_bytes m' (s_name s) = name_bytes m (s_name s)"
proof (cases "s_name s")
  case (In_memory a)
  with assms(1) i s have "length (cstr m a) < 4294967296"
    "\<And>k. k \<le> length (cstr m a) \<Longrightarrow> a + of_nat k \<notin> slots m pm tab (get_relocs_pointer m pm) (unat (h_num_rels (read_header m (p_header pm))))"
    unfolding names_apart_def Let_def by blast+
  then have "cstr m' a = cstr m a"
    using ag unfolding cstr_def agree_off_def by (intro cstr_n_cong) auto
  with In_memory show ?thesis by simp
qed simp

text \<open>The entries that refer to the symbol called \<open>nm\<close>.\<close>

definition entry_named :: "mem \<Rightarrow> udynlink_module_t \<Rightarrow> u8 list \<Rightarrow> nat \<Rightarrow> bool" where
  "entry_named m pm nm i \<longleftrightarrow>
     (case entry_symbol m pm i of None \<Rightarrow> False
      | Some s \<Rightarrow> s_name s \<noteq> In_memory NULL \<and> name_bytes m (s_name s) = nm)"

definition link_effect ::
  "mem \<Rightarrow> udynlink_module_t \<Rightarrow> sect_view_t \<Rightarrow> u8 list \<Rightarrow> u32 \<Rightarrow> nat \<Rightarrow> unit + (addr \<times> u32) option" where
  "link_effect m pm tab nm v i =
     (let p = slot_target m pm tab (get_relocs_pointer m pm) i
      in if entry_named m pm nm i \<and> p \<noteq> NULL then Inr (Some (p, v)) else Inr None)"

lemma link_to_slots: "to_slots (link_effect m pm tab nm v) m pm tab (get_relocs_pointer m pm)"
  by (auto simp: to_slots_def link_effect_def Let_def)

lemma link_step_effect:
  assumes ok: "slots_ok m pm tab (p_header pm) (get_relocs_pointer m pm) (get_sym_table_pointer m (p_header pm))"
    and na: "names_apart m pm tab" and v: "v_num t = 0"
    and ag: "agree_off (slots m pm tab (get_relocs_pointer m pm) (unat (h_num_rels (read_header m (p_header pm))))) m m'"
    and i: "i < unat (h_num_rels (read_header m (p_header pm)))"
  shows "link_step pm (get_relocs_pointer m pm) t nm val i (b, m') =
    (case link_effect m pm tab nm val i of Inl _ \<Rightarrow> (b, m') | Inr None \<Rightarrow> (b, m')
     | Inr (Some (p, u)) \<Rightarrow> (True, wr32 m' p u))"
proof -
  let ?rels = "get_relocs_pointer m pm"
  have vt: "v_num tab = 0" using ok by (simp add: slots_ok_def Let_def)
  note e = entry_kept [OF ok ag i] and w = walk_agree(3,4) [OF ok ag i]
  have tg: "get_reloc_target m' pm t (reloc_lot_offset m ?rels i) = slot_target m pm tab ?rels i"
    using e(3) target_any_view(1) [OF v vt] by (simp add: slot_target_def)
  have sy: "entry_symbol m pm i = (if is_abs32 (reloc_symt_offset m ?rels i) \<or> is_code_base (reloc_symt_offset m ?rels i)
      then None else get_sym_at m' (p_header pm) (reloc_symt_offset m ?rels i))"
    using e(2) by (simp add: entry_symbol_def e(1) w Let_def)
  show ?thesis
  proof (cases "entry_symbol m pm i")
    case None
    then show ?thesis using sy by (auto simp: link_step_def link_effect_def entry_named_def w Let_def)
  next
    case (Some s)
    then have "\<not> is_abs32 (reloc_symt_offset m ?rels i)" "\<not> is_code_base (reloc_symt_offset m ?rels i)"
      "get_sym_at m' (p_header pm) (reloc_symt_offset m ?rels i) = Some s"
      using sy by (auto split: if_splits)
    then show ?thesis
      by (simp add: link_step_def link_effect_def entry_named_def Some w tg name_kept [OF na ag i Some] Let_def)
  qed
qed

lemma link_walk:
  fixes m pm tab nm val
  assumes ok: "slots_ok m pm tab (p_header pm) (get_relocs_pointer m pm) (get_sym_table_pointer m (p_header pm))"
    and na: "names_apart m pm tab" and v: "v_num t = 0"
  defines "e \<equiv> link_effect m pm tab nm val" and "n \<equiv> unat (h_num_rels (read_header m (p_header pm)))"
  shows "for_u16 (\<lambda>st. h_num_rels (read_header (snd st) (p_header pm))) (\<lambda>_. False)
      (link_step pm (get_relocs_pointer m pm) t nm val) 0 (False, m) = (\<exists>j < n. e j \<noteq> Inr None, written e n m)"
proof -
  note t = link_to_slots [of m pm tab nm val, folded e_def]
  note ag = walk_frame [OF t]
  have n: "unat (h_num_rels (read_header (written e k m) (p_header pm))) = n" if "k \<le> n" for k
    using walk_agree(1) [OF ok ag, of k 0] that by (cases n) (simp_all add: n_def)
  let ?I = "\<lambda>i st. i \<le> n \<and> st = (\<exists>j < i. e j \<noteq> Inr None, written e i m)"
  have step: "?I (Suc i) (link_step pm (get_relocs_pointer m pm) t nm val i st)"
    if I: "?I i st" and lt: "i < unat (h_num_rels (read_header (snd st) (p_header pm)))" for i st
  proof -
    have i: "i < n" using I lt n [of i] by auto
    have no: "e i \<noteq> Inl er" for er by (simp add: e_def link_effect_def Let_def)
    have "link_step pm (get_relocs_pointer m pm) t nm val i (\<exists>j < i. e j \<noteq> Inr None, written e i m) =
      (case e i of Inl _ \<Rightarrow> (\<exists>j < i. e j \<noteq> Inr None, written e i m) | Inr None \<Rightarrow> (\<exists>j < i. e j \<noteq> Inr None, written e i m)
       | Inr (Some (p, u)) \<Rightarrow> (True, wr32 (written e i m) p u))"
      unfolding e_def by (rule link_step_effect [OF ok na v ag [folded n_def, unfolded e_def] i [unfolded n_def]])
        (use i in \<open>simp_all add: n_def\<close>)
    then show ?thesis using I i no by (auto simp: less_Suc_eq split: sum.splits option.splits)
  qed
  obtain j where "?I j (for_u16 (\<lambda>st. h_num_rels (read_header (snd st) (p_header pm))) (\<lambda>_. False)
      (link_step pm (get_relocs_pointer m pm) t nm val) 0 (False, m))"
    and "unat (h_num_rels (read_header (snd (for_u16 (\<lambda>st. h_num_rels (read_header (snd st) (p_header pm))) (\<lambda>_. False)
      (link_step pm (get_relocs_pointer m pm) t nm val) 0 (False, m))) (p_header pm))) \<le> j"
    using for_u16_inv [of ?I 0 "(False, m)" "\<lambda>_. False" "\<lambda>st. h_num_rels (read_header (snd st) (p_header pm))"
        "link_step pm (get_relocs_pointer m pm) t nm val"] step by auto
  then show ?thesis using n [of j] by auto
qed

text \<open>C8: \<open>udynlink_link_symbol\<close> on a loaded untagged module sets exactly the words whose entries refer to
  a symbol of the given name, whatever the symbol's kind, and changes nothing else; it succeeds when
  there is such an entry, and otherwise reports an unknown symbol.\<close>

theorem link_symbol_correct:
  assumes ok: "rebase_ok m pm tab" and na: "names_apart m pm tab" and h: "p_header pm \<noteq> NULL"
    and r: "udynlink_link_symbol (Some pm) (Some nm) val m = (err, m')"
  shows "let n = unat (h_num_rels (read_header m (p_header pm))); tgt = slot_target m pm tab (get_relocs_pointer m pm)
    in err = (if \<exists>i < n. entry_named m pm nm i then UDYNLINK_OK else ERR_LOAD_UNKNOWN_SYMBOL)
      \<and> (\<forall>i < n. rd32 m' (tgt i) = (if entry_named m pm nm i then val else rd32 m (tgt i)))
      \<and> (\<forall>a. (\<forall>i < n. entry_named m pm nm i \<longrightarrow> a \<notin> blk (tgt i) 4) \<longrightarrow> m' a = m a)"
proof -
  define n where "n = unat (h_num_rels (read_header m (p_header pm)))"
  define e where "e = link_effect m pm tab nm val"
  let ?rels = "get_relocs_pointer m pm"
  have sok: "slots_ok m pm tab (p_header pm) ?rels (get_sym_table_pointer m (p_header pm))"
    and nn: "\<And>i. i < n \<Longrightarrow> slot_target m pm tab ?rels i \<noteq> NULL"
    using ok by (auto simp: rebase_ok_def Let_def n_def)
  obtain er t where t: "get_sectab m (p_header pm) False = (er, t)" by (metis surj_pair)
  have "\<not> is_sectioned (read_header m (p_header pm))" using sok by (simp add: slots_ok_def Let_def)
  from untagged_view [OF this, of False] have v: "v_num t = 0" using t by simp
  have ei: "e i = (if entry_named m pm nm i then Inr (Some (slot_target m pm tab ?rels i, val)) else Inr None)" if "i < n" for i
    using nn [OF that] by (simp add: e_def link_effect_def)
  have m': "m' = written e n m" and err: "err = (if \<exists>j < n. e j \<noteq> Inr None then UDYNLINK_OK else ERR_LOAD_UNKNOWN_SYMBOL)"
    using r h link_walk [OF sok na v, of nm val]
    by (simp_all add: udynlink_link_symbol_def t e_def n_def Let_def)
  note ts = link_to_slots [of m pm tab nm val, folded e_def]
  have "rd32 m' (slot_target m pm tab ?rels i) = (if entry_named m pm nm i then val else rd32 m (slot_target m pm tab ?rels i))"
    if i: "i < n" for i
    using walk_slot_written [OF ts sok i [unfolded n_def], folded n_def] walk_slot_kept [OF ts sok i [unfolded n_def] nn [OF i], folded n_def]
      ei [OF i] by (simp add: m')
  moreover have "m' a = m a" if "\<forall>i < n. entry_named m pm nm i \<longrightarrow> a \<notin> blk (slot_target m pm tab ?rels i) 4" for a
    unfolding m' by (rule written_frame) (use that ei in \<open>auto simp del: mem_blk split: if_splits\<close>)
  moreover have "(\<exists>j < n. e j \<noteq> Inr None) \<longleftrightarrow> (\<exists>i < n. entry_named m pm nm i)"
    using ei by (auto split: if_splits)
  ultimately show ?thesis using err by (simp add: n_def Let_def del: mem_blk)
qed

section \<open>The linked example image\<close>

lemma linked_entries:
  "entry_symbol linked_mem placed_module 0 = Some \<lparr>s_name = In_memory 0x1066, s_val = 4, s_type = 1, s_location = 0\<rparr>"
  "entry_symbol linked_mem placed_module (Suc 0) = Some \<lparr>s_name = In_memory 0x106A, s_val = 0, s_type = 2, s_location = 1\<rparr>"
  "entry_symbol linked_mem placed_module 2 = None" "entry_symbol linked_mem placed_module 3 = None"
  by (simp_all add: entry_symbol_def linked_mem_def placed_tables placed_rels get_sym_at_def placed_module placed_header
      plain_header placed_syms is_abs32_def is_code_base_def Let_def)

lemma linked_num: "unat (h_num_rels (read_header linked_mem (p_header placed_module))) = 4"
  by (simp add: linked_mem_def placed_module placed_header plain_header)

lemma linked_rebase_ok: "rebase_ok linked_mem placed_module untagged_view"
  unfolding linked_mem_def by (rule placed_rebase_ok)

lemma linked_names: "cstr linked_mem 0x1066 = [0x66]" "cstr linked_mem 0x106A = [0x78]"
proof -
  have b: "map linked_mem [0x1066, 0x1067, 0x106A, 0x106B] = [0x66, 0, 0x78, 0]"
    by (simp add: linked_mem_def placed_with_def mem_words_def plain_image_def Let_def)
  then have "cstr_n linked_mem 0x1066 (Suc (Suc n)) = [0x66]" "cstr_n linked_mem 0x106A (Suc (Suc n)) = [0x78]" for n
    by (simp_all add: cstr_n.simps [of linked_mem])
  from this [of 4294967294] show "cstr linked_mem 0x1066 = [0x66]" "cstr linked_mem 0x106A = [0x78]"
    by (simp_all add: cstr_def)
qed

lemma linked_names_apart: "names_apart linked_mem placed_module untagged_view"
proof -
  have o: "x \<notin> slots linked_mem placed_module untagged_view 0x1020 4" if "x = 0x1066 \<or> x = 0x1067 \<or> x = 0x106A \<or> x = 0x106B" for x
  proof
    assume "x \<in> slots linked_mem placed_module untagged_view 0x1020 4"
    then obtain i where "i < 4" "x \<in> blk (slot_target linked_mem placed_module untagged_view 0x1020 i) 4"
      unfolding slots_def by blast
    then show False using that by (auto simp: less_4 linked_mem_def placed_targets)
  qed
  have k: "k \<le> Suc 0 \<longleftrightarrow> k = 0 \<or> k = Suc 0" for k by auto
  have r: "get_relocs_pointer linked_mem placed_module = 0x1020" by (simp add: linked_mem_def placed_tables)
  show ?thesis
    unfolding names_apart_def Let_def linked_num r
    by (auto simp: less_4 linked_entries linked_names k o)
qed

text \<open>A host that has moved every symbol to \<open>0x888\<close>.\<close>

theorem relinking_correct_witness:
  "\<exists>w'. udynlink_relink_all (bump_host\<lparr>x_resolve := \<lambda>pm nm w. (0x888, w)\<rparr>) (Some placed_module) (start_world linked_mem)
      = (UDYNLINK_OK, w')
    \<and> linked (w_mem w') placed_module untagged_view (relinked_consts (\<lambda>_. 0x888) False linked_mem placed_module linked_consts)
    \<and> map (relinked_consts (\<lambda>_. 0x888) False linked_mem placed_module linked_consts) [0, 1, 2, 3] = [0, 0x888, 0, 2]"
proof -
  let ?x = "bump_host\<lparr>x_resolve := \<lambda>pm nm w. (0x888, w)\<rparr>" and ?f = "\<lambda>_ :: cname. 0x888 :: u32"
  obtain err w' where r: "udynlink_relink_all ?x (Some placed_module) (start_world linked_mem) = (err, w')" by (metis surj_pair)
  have res: "resolves_to ?x ?f placed_module (start_world linked_mem)" by (simp add: resolves_to_def)
  have "map (relinked_consts ?f False linked_mem placed_module linked_consts) [0, 1, 2, 3] = [0, 0x888, 0, 2]"
    by (simp add: relinked_consts_def extern_entry_def host_word_def linked_entries linked_consts_def sym_kinds)
  then show ?thesis
    using relinking_correct [of "start_world linked_mem" placed_module untagged_view linked_consts ?x ?f False err w',
        unfolded start_mem, OF linked_rebase_ok linked_mem_linked res] r
    by (simp add: placed_module)
qed

theorem link_symbol_correct_witness:
  "case udynlink_link_symbol (Some placed_module) (Some [0x78]) 0x999 linked_mem of (err, m') \<Rightarrow>
    err = UDYNLINK_OK \<and> map (rd32 m') [0x107C, 0x1080, 0x1084, 0x1088] = [0x1070, 0x999, 0x1084, 0x106E]"
proof -
  obtain err m' where r: "udynlink_link_symbol (Some placed_module) (Some [0x78]) 0x999 linked_mem = (err, m')" by (metis surj_pair)
  have w: "rd32 linked_mem 0x107C = 0x1070" "rd32 linked_mem 0x1084 = 0x1084" "rd32 linked_mem 0x1088 = 0x106E"
    by (simp_all add: linked_mem_def placed_with_def words_eval plain_image_def)
  have tg: "slot_target linked_mem placed_module untagged_view (get_relocs_pointer linked_mem placed_module) i = 0x107C + 4 * of_nat i"
    if "i < 4" for i
    using that by (auto simp: less_4 linked_mem_def placed_tables placed_targets)
  have nm: "entry_named linked_mem placed_module [0x78] i \<longleftrightarrow> i = 1" if "i < 4" for i
    using that by (auto simp: less_4 entry_named_def linked_entries linked_names)
  have a: "err = (if \<exists>i < 4. entry_named linked_mem placed_module [0x78] i then UDYNLINK_OK else ERR_LOAD_UNKNOWN_SYMBOL)"
    "\<And>i. i < 4 \<Longrightarrow> rd32 m' (0x107C + 4 * of_nat i) = (if i = 1 then 0x999 else rd32 linked_mem (0x107C + 4 * of_nat i))"
    using link_symbol_correct [OF linked_rebase_ok linked_names_apart _ r, unfolded linked_num Let_def] tg nm
    by (simp_all add: placed_module del: mem_blk)
  have "\<exists>i < 4. entry_named linked_mem placed_module [0x78] i" by (rule exI [of _ 1]) (simp add: nm)
  then have "err = UDYNLINK_OK" using a(1) by simp
  then show ?thesis using a(2) [of 0] a(2) [of 1] a(2) [of 2] a(2) [of 3] w by (simp add: r)
qed

end
