(* ===== verification/MoveSpec.thy ===== *)
theory MoveSpec
  imports LinkSpec
begin

text \<open>
  Loading and then moving: a module loaded by \<open>udynlink_load_module\<close> is one the theorem on moves
  applies to, so that a load followed by a move leaves it linked at its new place, in every load
  mode; and that theorem's instance on an image copied whole.
\<close>

section \<open>Relocated words aside, the tables stay\<close>

lemma rebase_ok_agree:
  assumes ok: "rebase_ok m pm tab"
    and ag: "agree_off (slots m pm tab (get_relocs_pointer m pm) (unat (h_num_rels (read_header m (p_header pm))))) m m'"
  shows "rebase_ok m' pm tab" and "read_header m' (p_header pm) = read_header m (p_header pm)"
    and "slots m' pm tab (get_relocs_pointer m' pm) (unat (h_num_rels (read_header m (p_header pm))))
      = slots m pm tab (get_relocs_pointer m pm) (unat (h_num_rels (read_header m (p_header pm))))"
proof -
  let ?rels = "get_relocs_pointer m pm" and ?st = "get_sym_table_pointer m (p_header pm)"
  let ?h = "read_header m (p_header pm)" let ?n = "unat (h_num_rels ?h)"
  have sok: "slots_ok m pm tab (p_header pm) ?rels ?st" using ok by (simp add: rebase_ok_def Let_def)
  then have u: "\<not> is_sectioned ?h" and v: "v_num tab = 0" by (simp_all add: slots_ok_def Let_def)
  have all: "rebase_ok m' pm tab \<and> read_header m' (p_header pm) = ?h
      \<and> slots m' pm tab (get_relocs_pointer m' pm) ?n = slots m pm tab ?rels ?n"
  proof (cases "?n = 0")
    case True
    then have "m' = m" using ag by (auto simp: agree_off_def slots_def)
    then show ?thesis using ok by simp
  next
    case False
    note w = walk_agree [OF sok ag]
    have h: "read_header m' (p_header pm) = ?h" using w(1) [of 0] False by simp
    have p: "get_relocs_pointer m' pm = ?rels" "get_sym_table_pointer m' (p_header pm) = ?st"
      by (simp_all add: get_relocs_pointer_def get_sym_table_pointer_def h)
    have t: "slot_target m' pm tab ?rels i = slot_target m pm tab ?rels i" if "i < ?n" for i
      by (simp add: slot_target_def w(3) [OF that] untagged_cong(3) [OF h u v])
    have s: "slots m' pm tab ?rels ?n = slots m pm tab ?rels ?n"
      unfolding slots_def by (rule SUP_cong) (auto simp: t simp del: mem_blk)
    have "walk_metadata m' pm (p_header pm) ?rels ?st = walk_metadata m pm (p_header pm) ?rels ?st"
      by (simp add: walk_metadata_def h del: mem_blk)
    then show ?thesis
      using ok t w(4) unfolding rebase_ok_def slots_ok_def Let_def h p s by (simp add: s w(3) del: mem_blk)
  qed
  then show "rebase_ok m' pm tab" "read_header m' (p_header pm) = ?h"
    "slots m' pm tab (get_relocs_pointer m' pm) ?n = slots m pm tab ?rels ?n" by blast+
qed

section \<open>A loaded module can be moved\<close>

lemma filled_rebase_ok:
  assumes ok: "fill_ok m hp pm" and tab: "v_num tab = 0"
    and l: "load_untagged (udynlink_image_from_memory m hp) hp tab (LOAD_GET_MODE pm) pm m = (pm', mf)"
    and im: "image_ok m hp" and lk: "\<And>i. i < unat (h_num_rels (read_header m hp)) \<Longrightarrow> linkable f m hp i"
    and ram: "get_ram_size_for_header m hp (LOAD_GET_MODE pm) > 0 \<Longrightarrow> p_ram pm \<noteq> NULL
      \<and> unat (p_ram pm) + unat (get_ram_size_for_header m hp (LOAD_GET_MODE pm)) \<le> 2 ^ 32"
  defines "h \<equiv> read_header m hp" and "n \<equiv> get_ram_size_for_header m hp (LOAD_GET_MODE pm)"
  shows "rebase_ok mf pm' tab"
    and "slots mf pm' tab (get_relocs_pointer mf pm') (unat (h_num_rels h))
      = slots mf pm' tab (image_rels m hp) (unat (h_num_rels h))"
    and "slots mf pm' tab (get_relocs_pointer mf pm') (unat (h_num_rels h)) \<subseteq> blk (p_ram pm) n"
proof -
  note lay = filled_layout [OF ok tab l, folded h_def n_def] and io = fill_ok_image [OF ok, folded h_def n_def]
  note A = filled_slots_ok [OF ok tab l im disjI1 [OF refl], folded h_def]
    and B = filled_slots_ok [OF ok tab l im disjI2 [OF refl], folded h_def]
  let ?rels = "p_header pm' + get_header_size h"
  note en = same_entries [OF A(1) h_def [THEN meta_eq_to_obj_eq] io(2), folded image_rels_def [of m hp, folded h_def]]
    and en' = same_entries [OF B(1) h_def [THEN meta_eq_to_obj_eq] io(2)]
  have tg: "slot_target mf pm' tab ?rels i = slot_target mf pm' tab (image_rels m hp) i" if "i < unat (h_num_rels h)" for i
    using en(1) [OF that] en'(1) [OF that] by (simp add: slot_target_def)
  have nn: "slot_target mf pm' tab ?rels i \<noteq> NULL" if "i < unat (h_num_rels h)" for i
    unfolding tg [OF that] by (rule linkable_target(1) [OF ok tab l lk _ ram]) (use that in \<open>simp_all add: h_def\<close>)
  have lot: "\<not> reloc_lot_offset mf ?rels i < ucast (h_num_lot h)"
    if "i < unat (h_num_rels h)" "is_abs32 (reloc_symt_offset mf ?rels i) \<or> is_code_base (reloc_symt_offset mf ?rels i)" for i
    using lk [OF that(1) [unfolded h_def]] that by (simp add: linkable_def Let_def h_def [symmetric] en'(1,2) [OF that(1)])
  show "rebase_ok mf pm' tab"
    unfolding rebase_ok_def Let_def header_tables lay(5) using B(3) nn lot by blast
  show eq: "slots mf pm' tab (get_relocs_pointer mf pm') (unat (h_num_rels h))
      = slots mf pm' tab (image_rels m hp) (unat (h_num_rels h))"
    unfolding slots_def header_tables lay(5) by (rule SUP_cong) (auto simp: tg simp del: mem_blk)
  have "blk (slot_target mf pm' tab (image_rels m hp) i) 4 \<subseteq> blk (p_ram pm) n"
    if "slot_target mf pm' tab (image_rels m hp) i \<noteq> NULL" for i
  proof -
    note t = filled_target [OF ok tab l that [unfolded slot_target_def], folded h_def]
    show ?thesis unfolding slot_target_def t(1) by (rule slot_in_block(2) [OF ok, folded h_def n_def, OF t(2)])
  qed
  then show "slots mf pm' tab (get_relocs_pointer mf pm') (unat (h_num_rels h)) \<subseteq> blk (p_ram pm) n"
    unfolding eq unfolding slots_def by blast
qed

lemma loaded_move_ok:
  assumes ok: "fill_ok m hp pm" and tab: "v_num tab = 0"
    and l: "load_untagged (udynlink_image_from_memory m hp) hp tab (LOAD_GET_MODE pm) pm m = (pm', mf)"
    and im: "image_ok m hp" and lk: "\<And>i. i < unat (h_num_rels (read_header m hp)) \<Longrightarrow> linkable f m hp i"
    and ag: "agree_off (slots mf pm' tab (image_rels m hp) (unat (h_num_rels (read_header m hp)))) mf m'"
  defines "h \<equiv> read_header m hp" and "n \<equiv> get_ram_size_for_header m hp (LOAD_GET_MODE pm)"
  assumes ram: "p_ram pm \<noteq> NULL" "unat (p_ram pm) + unat n \<le> 2 ^ 32"
    and dest: "dest \<noteq> NULL" "unat dest + unat n \<le> 2 ^ 32" "blk dest n \<inter> blk (p_ram pm) n = {}"
      "LOAD_GET_MODE pm \<noteq> LOAD_MODE_COPY_ALL \<Longrightarrow> blk dest n \<inter> blk hp (meta_size h) = {}"
  shows "move_ok m' pm' tab dest n" and "read_header m' (p_header pm') = h"
proof -
  note lay = filled_layout [OF ok tab l, folded h_def n_def] and io = fill_ok_image [OF ok, folded h_def n_def]
  note d = data_offset_bounds [OF ok, folded h_def n_def]
  note rb = filled_rebase_ok [OF ok tab l im lk, folded h_def n_def, OF _ conjI [OF ram]]
  have ag': "agree_off (slots mf pm' tab (get_relocs_pointer mf pm') (unat (h_num_rels (read_header mf (p_header pm'))))) mf m'"
    using ag rb(2) unfolding lay(5) h_def by simp
  note r = rebase_ok_agree [OF rb(1) ag', unfolded lay(5)]
  show hd: "read_header m' (p_header pm') = h" by (rule r(2))
  have md: "LOAD_GET_MODE pm \<noteq> LOAD_MODE_RESERVED" using ok by (simp add: fill_ok_def Let_def)
  have meta: "walk_metadata m' pm' (p_header pm') (get_relocs_pointer m' pm') (get_sym_table_pointer m' (p_header pm'))
      \<subseteq> blk (p_header pm') (meta_size h)"
    using walk_metadata_inside [of m' "p_header pm'" pm', unfolded hd, OF io(2)] by (simp add: header_tables hd del: mem_blk)
  have inside: "blk (p_header pm') (meta_size h) \<subseteq> blk (p_ram pm) n" if "LOAD_GET_MODE pm = LOAD_MODE_COPY_ALL"
    using that d unfolding lay(3) by (simp add: sub_blk del: mem_blk)
  have sub: "slots m' pm' tab (get_relocs_pointer m' pm') (unat (h_num_rels h)) \<subseteq> blk (p_ram pm) n"
    using r(3) rb(3) by simp
  have place: "if LOAD_GET_MODE pm = LOAD_MODE_COPY_ALL
      then p_header pm' = p_ram pm + lot_size h
        \<and> walk_metadata m' pm' (p_header pm') (get_relocs_pointer m' pm') (get_sym_table_pointer m' (p_header pm')) \<subseteq> blk (p_ram pm) n
      else blk dest n \<inter> walk_metadata m' pm' (p_header pm') (get_relocs_pointer m' pm') (get_sym_table_pointer m' (p_header pm')) = {}"
  proof (cases "LOAD_GET_MODE pm = LOAD_MODE_COPY_ALL")
    case True
    then show ?thesis using lay(3) subset_trans [OF meta inside [OF True]] by simp
  next
    case False
    then have "p_header pm' = hp" using lay(3) by simp
    then show ?thesis using dest(4) [OF False] meta False by (simp del: mem_blk) blast
  qed
  show "move_ok m' pm' tab dest n"
    unfolding move_ok_def Let_def lay(1,2) hd by (intro conjI r(1) md ram dest(1,2,3) sub place)
qed

text \<open>A load followed by a move.\<close>

lemma named_tables:
  "get_code_pointer m (pm\<lparr>num_named_syms := k\<rparr>) = get_code_pointer m pm"
  "get_data_pointer m (pm\<lparr>num_named_syms := k\<rparr>) = get_data_pointer m pm"
  "get_reloc_target m (pm\<lparr>num_named_syms := k\<rparr>) tab lo = get_reloc_target m pm tab lo"
  "get_relocs_pointer m (pm\<lparr>num_named_syms := k\<rparr>) = get_relocs_pointer m pm"
  "slot_target m (pm\<lparr>num_named_syms := k\<rparr>) tab rels i = slot_target m pm tab rels i"
proof -
  show p: "get_code_pointer m (pm\<lparr>num_named_syms := k\<rparr>) = get_code_pointer m pm"
    "get_data_pointer m (pm\<lparr>num_named_syms := k\<rparr>) = get_data_pointer m pm"
    by (simp_all add: get_code_pointer_def get_data_pointer_def get_section_base_idx_def Let_def
        split: prod.splits udynlink_load_mode_t.splits)
  show t: "get_reloc_target m (pm\<lparr>num_named_syms := k\<rparr>) tab lo = get_reloc_target m pm tab lo" for lo
    using p by (simp add: get_reloc_target_def get_section_base_idx_def [abs_def] Let_def split: option.splits)
  show "get_relocs_pointer m (pm\<lparr>num_named_syms := k\<rparr>) = get_relocs_pointer m pm"
    by (simp add: get_relocs_pointer_def)
  show "slot_target m (pm\<lparr>num_named_syms := k\<rparr>) tab rels i = slot_target m pm tab rels i"
    by (simp add: slot_target_def t)
qed

lemma move_ok_named: "move_ok m (pm\<lparr>num_named_syms := k\<rparr>) tab dest n = move_ok m pm tab dest n"
  by (simp add: move_ok_def rebase_ok_def slots_ok_def slots_def walk_metadata_def named_tables del: mem_blk)

lemma move_ok_any_view: "v_num tab = 0 \<Longrightarrow> v_num tab' = 0 \<Longrightarrow> move_ok m pm tab dest n = move_ok m pm tab' dest n"
  by (simp add: move_ok_def rebase_ok_def slots_def target_any_view(2,3) [of tab tab'] del: mem_blk)

lemma loaded_entries:
  assumes ok: "fill_ok m hp pm" and tab: "v_num tab = 0"
    and l: "load_untagged (udynlink_image_from_memory m hp) hp tab (LOAD_GET_MODE pm) pm m = (pm', mf)"
    and im: "image_ok m hp" and lk: "\<And>i. i < unat (h_num_rels (read_header m hp)) \<Longrightarrow> linkable f m hp i"
    and ag: "agree_off (slots mf pm' tab (image_rels m hp) (unat (h_num_rels (read_header m hp)))) mf m'"
    and ram: "get_ram_size_for_header m hp (LOAD_GET_MODE pm) > 0 \<Longrightarrow> p_ram pm \<noteq> NULL
      \<and> unat (p_ram pm) + unat (get_ram_size_for_header m hp (LOAD_GET_MODE pm)) \<le> 2 ^ 32"
    and i: "i < unat (h_num_rels (read_header m hp))"
  defines "h \<equiv> read_header m hp"
  shows "reloc_symt_offset m' (get_relocs_pointer m' pm') i = reloc_symt_offset m (image_rels m hp) i"
    and "unat so < 2 ^ 31 - 1 \<Longrightarrow> rel_option same_symbol (get_sym_at m' (p_header pm') so)
      (get_sym_at_raw m (image_syms m hp) so (h_symt_size h))"
proof -
  note lay = filled_layout [OF ok tab l, folded h_def] and io = fill_ok_image [OF ok, folded h_def]
  note B = filled_slots_ok [OF ok tab l im disjI2 [OF refl], folded h_def]
  note rb = filled_rebase_ok [OF ok tab l im lk ram, folded h_def]
  have i': "i < unat (h_num_rels h)" using i by (simp add: h_def)
  have ag': "agree_off (slots mf pm' tab (get_relocs_pointer mf pm') (unat (h_num_rels (read_header mf (p_header pm'))))) mf m'"
    using ag rb(2) unfolding lay(5) h_def by simp
  have sok: "slots_ok mf pm' tab (p_header pm') (get_relocs_pointer mf pm') (get_sym_table_pointer mf (p_header pm'))"
    using rb(1) by (simp add: rebase_ok_def Let_def)
  note w = walk_agree [OF sok ag', unfolded lay(5), OF i']
  have p: "get_relocs_pointer m' pm' = get_relocs_pointer mf pm'"
    "get_sym_table_pointer m' (p_header pm') = get_sym_table_pointer mf (p_header pm')"
    by (simp_all add: header_tables w(1) lay(5))
  show "reloc_symt_offset m' (get_relocs_pointer m' pm') i = reloc_symt_offset m (image_rels m hp) i"
    unfolding p w(4) using same_entries(2) [OF B(1) h_def [THEN meta_eq_to_obj_eq] io(2) i'] by (simp add: header_tables lay(5))
  show "rel_option same_symbol (get_sym_at m' (p_header pm') so) (get_sym_at_raw m (image_syms m hp) so (h_symt_size h))"
    if "unat so < 2 ^ 31 - 1"
  proof -
    have "get_sym_at m' (p_header pm') so = get_sym_at_raw mf (get_sym_table_pointer mf (p_header pm')) so (h_symt_size h)"
      unfolding get_sym_at_def p w(1) by (rule w(5) [OF that])
    then show ?thesis
      using same_symbols [OF same_symbol_table [OF B(1) h_def [THEN meta_eq_to_obj_eq] io(2)] that]
      by (simp add: header_tables lay(5))
  qed
qed

text \<open>A load followed by a move leaves the module linked at its new place, for an image that refers to
  no weak symbol (or any image whose overrides differ from the module's own definitions).\<close>

definition no_weak :: "mem \<Rightarrow> addr \<Rightarrow> bool" where
  "no_weak m hp \<longleftrightarrow>
     (\<forall>i < unat (h_num_rels (read_header m hp)). let so = reloc_symt_offset m (image_rels m hp) i
        in \<not> is_abs32 so \<and> \<not> is_code_base so \<longrightarrow>
           pred_option (\<lambda>s. s_type s \<noteq> UDYNLINK_SYM_TYPE_WEAK)
             (get_sym_at_raw m (image_syms m hp) so (h_symt_size (read_header m hp))))"

lemma loaded_then_moved:
  fixes w hp md defines "m \<equiv> w_mem w" and "h \<equiv> read_header (w_mem w) hp" and "n \<equiv> get_ram_size_for_header (w_mem w) hp md"
  assumes r: "udynlink_load_module x (Some pm0) hp la ls md w = (UDYNLINK_OK, Some pm', w')"
    and im: "image_ok m hp" and md: "md \<noteq> LOAD_MODE_RESERVED" and x: "plain_resolver x f"
    and lk: "\<And>i. i < unat (h_num_rels h) \<Longrightarrow> linkable f m hp i"
    and weak: "no_weak m hp \<or> overrides_differ (w_mem w') pm' (image_consts f m hp)"
    and apart: "blk hp (get_code_offset_from_header h + h_code_size h + h_data_size h) \<inter> blk (p_ram pm') n = {}"
    and ram: "p_ram pm' \<noteq> NULL" "unat (p_ram pm') + unat n \<le> 2 ^ 32" "n > 0"
    and mv: "udynlink_relocate_module x2 (Some pm') new_ram new_size w' = (UDYNLINK_OK, Some pm2, w2)"
    and dest: "p_ram pm2 \<noteq> NULL" "unat (p_ram pm2) + unat n \<le> 2 ^ 32" "blk (p_ram pm2) n \<inter> blk (p_ram pm') n = {}"
      "md \<noteq> LOAD_MODE_COPY_ALL \<Longrightarrow> blk (p_ram pm2) n \<inter> blk hp (meta_size h) = {}"
  shows "linked (w_mem w2) pm2 untagged_view (image_consts f m hp)"
proof -
  have u: "\<not> is_sectioned h" using im by (simp add: image_ok_def Let_def h_def m_def)
  obtain tab pm1 w1 pm3 mf k where s: "v_num tab = 0" "p_header pm1 = hp" "LOAD_GET_MODE pm1 = md" "w_mem w1 = m"
    "load_untagged (udynlink_image_from_memory m hp) hp tab md pm1 m = (pm3, mf)"
    "udynlink_load_apply_relocations x pm3 hp (image_rels m hp) (image_syms m hp) (w1\<lparr>w_mem := mf\<rparr>) = (UDYNLINK_OK, w')"
    "pm' = pm3\<lparr>num_named_syms := k\<rparr>"
    using load_untagged_steps [OF u [unfolded h_def] r] unfolding m_def by metis
  have p3: "p_ram pm3 = p_ram pm1"
    using s(1,5) by (auto simp: load_untagged_def copy_untagged_def Let_def split: if_splits prod.splits)
  have ok: "fill_ok m hp pm1"
    using im md apart s(2,3,7) p3 unfolding m_def h_def n_def by (simp add: fill_ok_def image_ok_def Let_def lot_size_def del: mem_blk)
  note l = s(5) [folded s(3)]
  have pm': "p_ram pm' = p_ram pm1" "p_header pm' = p_header pm3" "LOAD_GET_MODE pm' = md"
    using s(3,7) p3 filled_layout(2) [OF ok s(1) l] by simp_all
  have n: "n = get_ram_size_for_header m hp (LOAD_GET_MODE pm1)" by (simp add: n_def m_def s(3))
  have lk': "\<And>i. i < unat (h_num_rels (read_header m hp)) \<Longrightarrow> linkable f m hp i" using lk by (simp add: h_def m_def)
  have ag: "agree_off (slots mf pm3 tab (image_rels m hp) (unat (h_num_rels (read_header m hp)))) mf (w_mem w')"
    by (rule linked_words(2) [OF ok s(1) l im x _ s(6)]) simp
  have mok: "move_ok (w_mem w') pm3 tab (p_ram pm2) n" and hd: "read_header (w_mem w') (p_header pm3) = h"
    using loaded_move_ok [OF ok s(1) l im lk' ag, folded n, of "p_ram pm2"] ram dest pm' s(3)
    by (simp_all add: h_def m_def del: mem_blk)
  have mok': "move_ok (w_mem w') pm' untagged_view (p_ram pm2) n"
    using mok unfolding s(7) move_ok_named by (simp add: move_ok_any_view [OF s(1), of untagged_view] untagged_view_def)
  have size: "udynlink_get_ram_size (w_mem w') pm' = n"
    using u hd pm' untagged_view [of m hp False]
    by (simp add: udynlink_get_ram_size_def get_ram_size_for_header_def n_def m_def h_def Let_def case_prod_beta')
  have link: "linked (w_mem w') pm' untagged_view (image_consts f m hp)"
    using loaded_linked [OF ok s(1) l im x _ s(6)] unfolding s(7) linked_named
    by (simp add: linked_def target_any_view(2) [OF s(1), of untagged_view] untagged_view_def)
  have differ: "overrides_differ (w_mem w') pm' (image_consts f m hp)"
  proof (cases "no_weak m hp")
    case True
    have "\<not> weak_entry (w_mem w') pm' (reloc_symt_offset (w_mem w') (get_relocs_pointer (w_mem w') pm') i)"
      if i: "i < unat (h_num_rels h)" for i
    proof -
      let ?so = "reloc_symt_offset m (image_rels m hp) i"
      note en = loaded_entries [OF ok s(1) l im lk' ag _ i [unfolded h_def, folded m_def], folded n]
      have so: "reloc_symt_offset (w_mem w') (get_relocs_pointer (w_mem w') pm') i = ?so"
        using en(1) ram pm' unfolding s(7) named_tables by simp
      have "s_type t \<noteq> UDYNLINK_SYM_TYPE_WEAK"
        if nb: "\<not> is_abs32 ?so" "\<not> is_code_base ?so" and t: "get_sym_at (w_mem w') (p_header pm') ?so = Some t" for t
      proof -
        have "rel_option same_symbol (get_sym_at (w_mem w') (p_header pm') ?so)
            (get_sym_at_raw m (image_syms m hp) ?so (h_symt_size (read_header m hp)))"
        proof -
          have "unat ?so < 2 ^ 31 - 1" using nb by (intro not_base_form_index) auto
          then show ?thesis using en(2) [of ?so] ram pm' by simp
        qed
        moreover have "pred_option (\<lambda>s. s_type s \<noteq> UDYNLINK_SYM_TYPE_WEAK)
            (get_sym_at_raw m (image_syms m hp) ?so (h_symt_size (read_header m hp)))"
          using True i nb by (simp add: no_weak_def Let_def h_def m_def)
        ultimately show ?thesis by (auto simp: t option_rel_Some1 same_symbol_def)
      qed
      then show ?thesis by (auto simp: so weak_entry_def)
    qed
    then show ?thesis using hd pm' by (simp add: overrides_differ_def)
  qed (use weak in simp)
  show ?thesis
    by (rule moved_linked [OF mv _ _ link differ]) (use size ram mok' in simp_all)
qed

section \<open>The example image, copied whole and moved\<close>

lemma plain_no_weak: "no_weak plain_mem 0x1000"
  by (simp add: no_weak_def plain_tables Let_def)
    (auto simp: plain_header less_4 plain_rels plain_symbols is_abs32_def is_code_base_def sym_kinds)

lemma copied_image_moves:
  assumes load: "udynlink_load_module bump_host (Some empty_module) 0x1000 NULL 0 LOAD_MODE_COPY_ALL (start_world plain_mem)
      = (UDYNLINK_OK, Some pm', w')" and p: "p_ram pm' = 0x20000"
    and mv: "udynlink_relocate_module bump_host (Some pm') 0x30000 140 w' = (UDYNLINK_OK, Some pm2, w2)" "p_ram pm2 = 0x30000"
  shows "linked (w_mem w2) pm2 untagged_view (image_consts (\<lambda>_. 0x777) plain_mem 0x1000)"
proof -
  have far: "blk 0x30000 140 \<inter> blk 0x20000 140 = {}"
    using disjoint_sub_blks [of 0 140 "0x10000" 140 "0x20000"] by (simp add: Int_commute del: mem_blk)
  show ?thesis
    using loaded_then_moved [OF load, unfolded start_mem, OF plain_image_ok _ plain_resolver_bump _ _ _ _ _ _ mv(1)]
      plain_linkable plain_no_weak plain_apart far by (simp add: p mv(2) plain_header plain_ram_size Let_def del: mem_blk)
qed

end
