(* ===== verification/Thunk.thy ===== *)
theory Thunk
  imports Lookup
begin

text \<open>
  Call thunks (\<open>udynlink/udynlink_thunk.c\<close>): the Thumb-2 encoders and decoders of
  MOVW/MOVT/B, the byte writers of the 18-byte gateway and the 10-byte stub, and the pool
  that allocates stubs upwards from its start and gateways downwards from its end.
\<close>

section \<open>Decoders\<close>

definition read_le16 :: "mem \<Rightarrow> addr \<Rightarrow> u16" where
  "read_le16 m p = ucast (m p) OR push_bit 8 (ucast (m (p + 1)))"

text \<open>The immediate scattered over the two halfwords of MOVW/MOVT.\<close>

definition mov_imm16 :: "u16 \<Rightarrow> u16 \<Rightarrow> u16" where
  "mov_imm16 hw0 hw1 =
     (let i = drop_bit 10 hw0 AND 1; imm4 = hw0 AND 0xF;
          imm3 = drop_bit 12 hw1 AND 0x7; imm8 = hw1 AND 0xFF
      in push_bit 11 i OR push_bit 12 imm4 OR push_bit 8 imm3 OR imm8)"

definition decode_movw_ip_imm16 :: "mem \<Rightarrow> addr \<Rightarrow> u16 option" where
  "decode_movw_ip_imm16 m stub =
     (let hw0 = read_le16 m stub; hw1 = read_le16 m (stub + 2)
      in if hw0 AND 0xFBF0 \<noteq> 0xF240 then None
         else if hw1 AND 0x0F00 \<noteq> 0x0C00 then None
         else Some (mov_imm16 hw0 hw1))"

definition decode_movt_ip_imm16 :: "mem \<Rightarrow> addr \<Rightarrow> u16 option" where
  "decode_movt_ip_imm16 m stub =
     (let hw0 = read_le16 m stub; hw1 = read_le16 m (stub + 2)
      in if hw0 AND 0xFBF0 \<noteq> 0xF2C0 then None
         else if hw1 AND 0x0F00 \<noteq> 0x0C00 then None
         else Some (mov_imm16 hw0 hw1))"

definition decode_mov_imm :: "mem \<Rightarrow> addr \<Rightarrow> u16" where
  "decode_mov_imm m src =
     mov_imm16 (ucast (m src) OR push_bit 8 (ucast (m (src + 1))))
               (ucast (m (src + 2)) OR push_bit 8 (ucast (m (src + 3))))"

section \<open>Encoders\<close>

definition mov_hw0 :: "bool \<Rightarrow> u16 \<Rightarrow> u16" where
  "mov_hw0 topp imm16 =
     (let i = drop_bit 11 imm16 AND 1; imm4 = drop_bit 12 imm16 AND 0xF
      in (if topp then 0xF2C0 else 0xF240) OR push_bit 10 i OR imm4)"

definition mov_hw1 :: "u16 \<Rightarrow> u16 \<Rightarrow> u16" where
  "mov_hw1 rd imm16 =
     (let imm3 = drop_bit 8 imm16 AND 0x7; imm8 = imm16 AND 0xFF
      in push_bit 12 imm3 OR push_bit 8 (rd AND 0xF) OR imm8)"

definition encode_mov_imm :: "mem \<Rightarrow> addr \<Rightarrow> u16 \<Rightarrow> u16 \<Rightarrow> bool \<Rightarrow> mem" where
  "encode_mov_imm m dst rd imm16 topp =
     (let hw0 = mov_hw0 topp imm16; hw1 = mov_hw1 rd imm16
      in m(dst := ucast (hw0 AND 0xFF), dst + 1 := ucast (drop_bit 8 hw0),
           dst + 2 := ucast (hw1 AND 0xFF), dst + 3 := ucast (drop_bit 8 hw1)))"

definition encode_movw_ip :: "mem \<Rightarrow> addr \<Rightarrow> u16 \<Rightarrow> mem" where
  "encode_movw_ip m dst imm16 = encode_mov_imm m dst 12 imm16 False"

definition encode_movt_ip :: "mem \<Rightarrow> addr \<Rightarrow> u16 \<Rightarrow> mem" where
  "encode_movt_ip m dst imm16 = encode_mov_imm m dst 12 imm16 True"

text \<open>The signed halfword offset is a 16-bit word; the masking keeps its low eleven bits.\<close>

definition encode_b_n :: "mem \<Rightarrow> addr \<Rightarrow> u16 \<Rightarrow> mem" where
  "encode_b_n m dst offset_halfwords =
     (let hw = 0xE000 OR (offset_halfwords AND 0x7FF)
      in m(dst := ucast (hw AND 0xFF), dst + 1 := ucast (drop_bit 8 hw)))"

section \<open>The pool\<close>

definition UDYNLINK_GATEWAY_SIZE :: u32 where
  [acc_defs]: "UDYNLINK_GATEWAY_SIZE = 18"

definition UDYNLINK_STUB_SIZE :: u32 where
  [acc_defs]: "UDYNLINK_STUB_SIZE = 10"

record udynlink_thunk_pool_t =
  tp_base :: addr
  tp_size :: u32
  tp_used :: u32
  tp_gateway_top :: u32

definition udynlink_thunk_pool_init :: "addr \<Rightarrow> u32 \<Rightarrow> udynlink_thunk_pool_t" where
  "udynlink_thunk_pool_init buf sz =
     (let misalign = buf AND 3;
          skip = 4 - misalign;
          (base, size1) = (if misalign \<noteq> 0 then
                             (if skip \<ge> sz then (buf + sz, 0) else (buf + skip, sz - skip))
                           else (buf, sz));
          size2 = size1 AND NOT 3
      in \<lparr>tp_base = base, tp_size = size2, tp_used = 0, tp_gateway_top = size2\<rparr>)"

text \<open>\<open>NULL\<close> when the pool is full.\<close>

definition udynlink_thunk_alloc :: "udynlink_thunk_pool_t \<Rightarrow> u32 \<Rightarrow> addr \<times> udynlink_thunk_pool_t" where
  "udynlink_thunk_alloc pool n =
     (if tp_used pool + n > tp_gateway_top pool then (NULL, pool)
      else (tp_base pool + tp_used pool, pool\<lparr>tp_used := tp_used pool + n\<rparr>))"

section \<open>Byte writers\<close>

definition gateway_template :: "u8 list" where
  "gateway_template =
     [0x2D, 0xE9, 0x00, 0x42, 0x40, 0xF2, 0x00, 0x09, 0xC0, 0xF2, 0x00, 0x09,
      0xE0, 0x47, 0xBD, 0xE8, 0x00, 0x82]"

definition GATEWAY_MOVW_OFF :: u32 where
  [acc_defs]: "GATEWAY_MOVW_OFF = 4"

definition GATEWAY_MOVT_OFF :: u32 where
  [acc_defs]: "GATEWAY_MOVT_OFF = 8"

definition udynlink_thunk_write_gateway :: "mem \<Rightarrow> addr \<Rightarrow> u32 \<Rightarrow> mem" where
  "udynlink_thunk_write_gateway m dst ram_base =
     (let m1 = wr_bytes m dst gateway_template;
          m2 = encode_mov_imm m1 (dst + GATEWAY_MOVW_OFF) 9 (ucast (ram_base AND 0xFFFF)) False
      in encode_mov_imm m2 (dst + GATEWAY_MOVT_OFF) 9 (ucast (drop_bit 16 ram_base)) True)"

text \<open>C's division of a signed integer by two rounds towards zero.\<close>

definition half_toward_zero :: "int \<Rightarrow> int" where
  "half_toward_zero b = (if b \<ge> 0 then b div 2 else - ((- b) div 2))"

text \<open>The halfword distance of the branch, cast to \<open>int16_t\<close>.\<close>

definition branch_hw_offset :: "addr \<Rightarrow> addr \<Rightarrow> u16" where
  "branch_hw_offset dst gateway_addr =
     word_of_int (half_toward_zero (sint (gateway_addr - (dst + 12))))"

definition udynlink_thunk_write_stub :: "mem \<Rightarrow> addr \<Rightarrow> u32 \<Rightarrow> addr \<Rightarrow> u32 \<times> mem" where
  "udynlink_thunk_write_stub m dst func_addr gateway_addr =
     (let m1 = encode_movw_ip m dst (ucast (func_addr AND 0xFFFF));
          m2 = encode_movt_ip m1 (dst + 4) (ucast (drop_bit 16 func_addr AND 0xFFFF));
          hw_offset = branch_hw_offset dst gateway_addr
      in if sint hw_offset < - 1024 \<or> sint hw_offset > 1023 then (0, m2)
         else (dst OR 1, encode_b_n m2 (dst + 8) hw_offset))"

section \<open>Allocation and search\<close>

text \<open>The default \<open>udynlink_external_find_stub\<close>: scan the stubs from the last to the first.\<close>

function find_stub_loop :: "mem \<Rightarrow> addr \<Rightarrow> u32 \<Rightarrow> u32 \<Rightarrow> u32" where
  "find_stub_loop m base func_addr pos =
     (if pos \<ge> UDYNLINK_STUB_SIZE then
        let pos' = pos - UDYNLINK_STUB_SIZE; candidate = base + pos'
        in case (decode_movw_ip_imm16 m candidate, decode_movt_ip_imm16 m (candidate + 4)) of
             (Some lo16, Some hi16) \<Rightarrow>
               if (push_bit 16 (ucast hi16) OR ucast lo16 :: u32) = func_addr then candidate OR 1
               else find_stub_loop m base func_addr pos'
           | _ \<Rightarrow> find_stub_loop m base func_addr pos'
      else 0)"
  by pat_completeness auto
termination
proof (relation "measure (\<lambda>(m, base, func_addr, pos). unat pos)", goal_cases)
  case 1
  show ?case by simp
qed (auto simp: UDYNLINK_STUB_SIZE_def unat_sub word_le_nat_alt)

declare find_stub_loop.simps [simp del]

definition udynlink_external_find_stub :: "mem \<Rightarrow> udynlink_thunk_pool_t option \<Rightarrow> u32 \<Rightarrow> u32" where
  "udynlink_external_find_stub m pool func_addr =
     (case pool of None \<Rightarrow> 0 | Some pl \<Rightarrow>
        if tp_used pl < UDYNLINK_STUB_SIZE then 0
        else find_stub_loop m (tp_base pl) func_addr (tp_used pl))"

text \<open>The gateway scan; offsets are counted as naturals, so the loop bound does not wrap (a
  pool lies inside the 32-bit address space).\<close>

function find_gateway_loop :: "mem \<Rightarrow> addr \<Rightarrow> nat \<Rightarrow> u32 \<Rightarrow> nat \<Rightarrow> addr" where
  "find_gateway_loop m base sz ram_base off =
     (if off + 18 \<le> sz then
        let g = base + of_nat off;
            g_ram_base = ucast (decode_mov_imm m (g + GATEWAY_MOVW_OFF))
                         OR push_bit 16 (ucast (decode_mov_imm m (g + GATEWAY_MOVT_OFF)))
        in if g_ram_base = ram_base then g else find_gateway_loop m base sz ram_base (off + 18)
      else NULL)"
  by pat_completeness auto
termination
  by (relation "measure (\<lambda>(m, base, sz, ram_base, off). sz - off)") auto

declare find_gateway_loop.simps [simp del]

definition udynlink_thunk_find_gateway :: "mem \<Rightarrow> udynlink_thunk_pool_t option \<Rightarrow> u32 \<Rightarrow> addr" where
  "udynlink_thunk_find_gateway m pool ram_base =
     (case pool of None \<Rightarrow> NULL | Some pl \<Rightarrow>
        find_gateway_loop m (tp_base pl) (unat (tp_size pl)) ram_base (unat (tp_gateway_top pl)))"

definition udynlink_thunk_alloc_gateway ::
  "mem \<Rightarrow> udynlink_thunk_pool_t \<Rightarrow> u32 \<Rightarrow> addr \<times> udynlink_thunk_pool_t \<times> mem" where
  "udynlink_thunk_alloc_gateway m pool ram_base =
     (if tp_gateway_top pool < tp_used pool + UDYNLINK_GATEWAY_SIZE then (NULL, pool, m)
      else
        let pool' = pool\<lparr>tp_gateway_top := tp_gateway_top pool - UDYNLINK_GATEWAY_SIZE\<rparr>;
            g = tp_base pool' + tp_gateway_top pool'
        in (g, pool', udynlink_thunk_write_gateway m g ram_base))"

definition udynlink_thunk_alloc_stub ::
  "mem \<Rightarrow> udynlink_thunk_pool_t \<Rightarrow> u32 \<Rightarrow> addr \<Rightarrow> u32 \<times> udynlink_thunk_pool_t \<times> mem" where
  "udynlink_thunk_alloc_stub m pool func_addr gateway_addr =
     (let (s, pool1) = udynlink_thunk_alloc pool UDYNLINK_STUB_SIZE
      in if s = NULL then (0, pool1, m)
         else let (r, m1) = udynlink_thunk_write_stub m s func_addr gateway_addr
         in if r = 0 then (0, pool1\<lparr>tp_used := tp_used pool1 - UDYNLINK_STUB_SIZE\<rparr>, m1)
            else (s OR 1, pool1, m1))"

text \<open>\<open>udynlink_thunk_make_call\<close>; a null pool, module or name gives 0 before anything runs.\<close>

definition udynlink_thunk_make_call ::
  "'h externals \<Rightarrow> udynlink_thunk_pool_t \<Rightarrow> udynlink_module_t option \<Rightarrow> cname option \<Rightarrow> 'h world
   \<Rightarrow> u32 \<times> udynlink_thunk_pool_t \<times> 'h world" where
  "udynlink_thunk_make_call x pool p_mod sym_name w =
     (case (p_mod, sym_name) of
        (Some pm, Some nm) \<Rightarrow>
          (case udynlink_lookup_symbol x (Some pm) nm w of
             (None, w1) \<Rightarrow> (0, pool, w1)
           | (Some s, w1) \<Rightarrow>
               if s_location s = UDYNLINK_SYM_LOCATION_DATA then (0, pool, w1)
               else
                 let m1 = w_mem w1; ram_base = p_ram pm; func_addr = s_val s;
                     existing = udynlink_external_find_stub m1 (Some pool) func_addr
                 in if existing \<noteq> 0 then (existing, pool, w1)
                 else
                   let g0 = udynlink_thunk_find_gateway m1 (Some pool) ram_base;
                       (gateway, pool2, m2) =
                         (if g0 = NULL then udynlink_thunk_alloc_gateway m1 pool ram_base
                          else (g0, pool, m1))
                   in if gateway = NULL then (0, pool2, w1\<lparr>w_mem := m2\<rparr>)
                   else
                     let (r, pool3, m3) = udynlink_thunk_alloc_stub m2 pool2 func_addr gateway
                     in (r, pool3, w1\<lparr>w_mem := m3\<rparr>))
      | _ \<Rightarrow> (0, pool, w))"

end
