(* ===== verification/Deps.thy ===== *)
theory Deps
  imports Thunk
begin

text \<open>
  The dependency layer (\<open>udynlink/udynlink_deps.c\<close>): the registry of loaded modules, the
  stack of modules being loaded that detects circular dependencies, the resolution of
  dependency, function and data symbols against the registered modules, the in-module
  thunks, and loading and unloading with registration. The manager, the module handles (by
  address) and the thunk pool belong to the host, so they are part of the host state: a
  resolver that loads a missing dependency changes them while an outer load is running.
\<close>

section \<open>State\<close>

definition UDYNLINK_DEP_PREFIX :: "u8 list" where
  "UDYNLINK_DEP_PREFIX =
     [0x2E, 0x75, 0x64, 0x79, 0x6E, 0x6C, 0x69, 0x6E, 0x6B, 0x2E, 0x6D, 0x6F, 0x64, 0x2E,
      0x72, 0x65, 0x71, 0x75, 0x69, 0x72, 0x65, 0x73, 0x2E]"

definition UDYNLINK_DEP_PREFIX_LEN :: nat where
  [acc_defs]: "UDYNLINK_DEP_PREFIX_LEN = 23"

definition UDYNLINK_DEP_MAX_DEPTH :: nat where
  [acc_defs]: "UDYNLINK_DEP_MAX_DEPTH = 8"

definition UDYNLINK_DEP_MAX_NAME :: nat where
  [acc_defs]: "UDYNLINK_DEP_MAX_NAME = 64"

definition UDYNLINK_THUNK_EXPORT_PREFIX :: "u8 list" where
  "UDYNLINK_THUNK_EXPORT_PREFIX =
     [0x2E, 0x75, 0x64, 0x79, 0x6E, 0x6C, 0x69, 0x6E, 0x6B, 0x2E, 0x74, 0x68, 0x75, 0x6E,
      0x6B, 0x5F, 0x65, 0x78, 0x70, 0x6F, 0x72, 0x74, 0x2E]"

definition UDYNLINK_THUNK_EXPORT_PREFIX_LEN :: nat where
  [acc_defs]: "UDYNLINK_THUNK_EXPORT_PREFIX_LEN = 23"

text \<open>The bytes of \<open>"udynlink_thunk_gateway"\<close>.\<close>

definition thunk_gateway_name :: "u8 list" where
  "thunk_gateway_name =
     [0x75, 0x64, 0x79, 0x6E, 0x6C, 0x69, 0x6E, 0x6B, 0x5F, 0x74, 0x68, 0x75, 0x6E, 0x6B,
      0x5F, 0x67, 0x61, 0x74, 0x65, 0x77, 0x61, 0x79]"

record udynlink_dep_entry_t =
  de_mod :: addr
  de_gateway :: addr

text \<open>\<open>entries\<close> holds the first \<open>count\<close> slots of the host's array, \<open>loading_stack\<close> the first
  \<open>loading_depth\<close> slots of the name stack; slots beyond are never read.\<close>

record udynlink_dep_mgr_t =
  dm_entries :: "udynlink_dep_entry_t list"
  dm_capacity :: nat
  dm_loading_stack :: "cname list"

record 'g dep_host =
  dh_mgr :: udynlink_dep_mgr_t
  dh_handles :: "addr \<Rightarrow> udynlink_module_t"
  dh_pool :: udynlink_thunk_pool_t
  dh_rest :: 'g

definition udynlink_dep_mgr_init :: "nat \<Rightarrow> udynlink_dep_mgr_t" where
  "udynlink_dep_mgr_init cap = \<lparr>dm_entries = [], dm_capacity = cap, dm_loading_stack = []\<rparr>"

text \<open>Access to the handle behind a module pointer and to the manager in a world.\<close>

definition handle_at :: "'g dep_host world \<Rightarrow> addr \<Rightarrow> udynlink_module_t option" where
  [acc_defs]: "handle_at w p = (if p = NULL then None else Some (dh_handles (w_host w) p))"

definition mgr_of :: "'g dep_host world \<Rightarrow> udynlink_dep_mgr_t" where
  [acc_defs]: "mgr_of w = dh_mgr (w_host w)"

definition set_mgr :: "udynlink_dep_mgr_t \<Rightarrow> 'g dep_host world \<Rightarrow> 'g dep_host world" where
  [acc_defs]: "set_mgr mgr w = w\<lparr>w_host := (w_host w)\<lparr>dh_mgr := mgr\<rparr>\<rparr>"

definition set_handle :: "addr \<Rightarrow> udynlink_module_t \<Rightarrow> 'g dep_host world \<Rightarrow> 'g dep_host world" where
  [acc_defs]: "set_handle p pm w =
     w\<lparr>w_host := (w_host w)\<lparr>dh_handles := (dh_handles (w_host w))(p := pm)\<rparr>\<rparr>"

section \<open>Dependency symbols\<close>

definition udynlink_dep_is_dependency :: "mem \<Rightarrow> cname option \<Rightarrow> bool" where
  "udynlink_dep_is_dependency m name =
     (case name of None \<Rightarrow> False
      | Some nm \<Rightarrow> take UDYNLINK_DEP_PREFIX_LEN (name_bytes m nm) = UDYNLINK_DEP_PREFIX)"

text \<open>The pointer advanced past the prefix.\<close>

fun advance :: "cname \<Rightarrow> nat \<Rightarrow> cname" where
  "advance (In_memory a) n = In_memory (a + of_nat n)"
| "advance (Literal bs) n = Literal (drop n bs)"

definition udynlink_dep_get_name :: "mem \<Rightarrow> cname option \<Rightarrow> cname option" where
  "udynlink_dep_get_name m name =
     (if \<not> udynlink_dep_is_dependency m name then None
      else map_option (\<lambda>nm. advance nm UDYNLINK_DEP_PREFIX_LEN) name)"

section \<open>Registry\<close>

fun dep_find_loop :: "'g dep_host world \<Rightarrow> u8 list \<Rightarrow> udynlink_dep_entry_t list \<Rightarrow> addr" where
  "dep_find_loop w name [] = NULL"
| "dep_find_loop w name (en # ens) =
     (case handle_at w (de_mod en) of
        None \<Rightarrow> dep_find_loop w name ens
      | Some pm \<Rightarrow>
          (case udynlink_get_module_name (w_mem w) pm of
             None \<Rightarrow> dep_find_loop w name ens
           | Some mod_name \<Rightarrow>
               if strcmp (name_bytes (w_mem w) mod_name) name = 0 then de_mod en
               else dep_find_loop w name ens))"

text \<open>The manager and pool pointers of the API are compared with \<open>NULL\<close> where the code does; a pointer that
  passes stands for the manager, or the pool, of the host state.\<close>

definition udynlink_dep_find :: "addr \<Rightarrow> 'g dep_host world \<Rightarrow> u8 list option \<Rightarrow> addr" where
  "udynlink_dep_find mgr w name =
     (if mgr = NULL then NULL
      else case name of None \<Rightarrow> NULL | Some nm \<Rightarrow> dep_find_loop w nm (dm_entries (mgr_of w)))"

definition register_module :: "addr \<Rightarrow> udynlink_dep_mgr_t \<Rightarrow> bool \<times> udynlink_dep_mgr_t" where
  "register_module p_mod mgr =
     (if length (dm_entries mgr) \<ge> dm_capacity mgr then (False, mgr)
      else (True, mgr\<lparr>dm_entries := dm_entries mgr @ [\<lparr>de_mod = p_mod, de_gateway = NULL\<rparr>]\<rparr>))"

definition udynlink_dep_register :: "addr \<Rightarrow> udynlink_dep_mgr_t \<Rightarrow> udynlink_dep_mgr_t" where
  "udynlink_dep_register p_mod mgr = snd (register_module p_mod mgr)"

text \<open>The index of the first entry of a module, the loop shared by the two scans below.\<close>

fun entry_index :: "udynlink_dep_entry_t list \<Rightarrow> addr \<Rightarrow> nat \<Rightarrow> nat option" where
  "entry_index [] p i = None"
| "entry_index (en # ens) p i = (if de_mod en = p then Some i else entry_index ens p (i + 1))"

text \<open>The last entry takes the place of the removed one.\<close>

definition unregister_module :: "addr \<Rightarrow> udynlink_dep_mgr_t \<Rightarrow> udynlink_dep_mgr_t" where
  "unregister_module p_mod mgr =
     (case entry_index (dm_entries mgr) p_mod 0 of
        None \<Rightarrow> mgr
      | Some i \<Rightarrow> mgr\<lparr>dm_entries := butlast ((dm_entries mgr)[i := last (dm_entries mgr)])\<rparr>)"

definition find_entry :: "udynlink_dep_mgr_t \<Rightarrow> addr \<Rightarrow> nat option" where
  "find_entry mgr p_mod = entry_index (dm_entries mgr) p_mod 0"

section \<open>The stack of modules being loaded\<close>

definition is_loading :: "mem \<Rightarrow> udynlink_dep_mgr_t \<Rightarrow> cname \<Rightarrow> bool" where
  "is_loading m mgr name =
     list_ex (\<lambda>s. strcmp (name_bytes m s) (name_bytes m name) = 0) (dm_loading_stack mgr)"

definition push_loading :: "cname \<Rightarrow> udynlink_dep_mgr_t \<Rightarrow> udynlink_dep_mgr_t" where
  "push_loading name mgr =
     (if length (dm_loading_stack mgr) < UDYNLINK_DEP_MAX_DEPTH
      then mgr\<lparr>dm_loading_stack := dm_loading_stack mgr @ [name]\<rparr> else mgr)"

definition pop_loading :: "udynlink_dep_mgr_t \<Rightarrow> udynlink_dep_mgr_t" where
  "pop_loading mgr =
     (if length (dm_loading_stack mgr) > 0
      then mgr\<lparr>dm_loading_stack := butlast (dm_loading_stack mgr)\<rparr> else mgr)"

section \<open>Resolution\<close>

text \<open>The host callback that loads a missing module: a pointer to its handle, or \<open>NULL\<close>. The
  weak default loads nothing.\<close>

type_synonym 'g dep_loader = "cname \<Rightarrow> 'g dep_host world \<Rightarrow> addr \<times> 'g dep_host world"

definition default_dep_load :: "'g dep_loader" where
  "default_dep_load name w = (NULL, w)"

definition udynlink_dep_resolve_dependency ::
  "addr \<Rightarrow> 'g dep_loader \<Rightarrow> cname option \<Rightarrow> 'g dep_host world \<Rightarrow> u32 \<times> 'g dep_host world" where
  "udynlink_dep_resolve_dependency mgr external_dep_load name w =
     (case udynlink_dep_get_name (w_mem w) name of
        None \<Rightarrow> (0, w)
      | Some dep_name \<Rightarrow>
          if is_loading (w_mem w) (mgr_of w) dep_name then (UDYNLINK_SYM_DEFERRED, w)
          else
            let p_mod = udynlink_dep_find mgr w (Some (name_bytes (w_mem w) dep_name))
            in if p_mod \<noteq> NULL then (p_mod, w)
               else let (p_mod2, w2) = external_dep_load dep_name w
                    in if p_mod2 \<noteq> NULL then (p_mod2, w2) else (0, w2))"

text \<open>One round of the export scan of \<open>udynlink_dep_generate_thunks\<close>.\<close>

definition thunk_export_step ::
  "'g dep_host externals \<Rightarrow> udynlink_module_t \<Rightarrow> addr \<Rightarrow> u32 \<Rightarrow> 'g dep_host world \<Rightarrow> 'g dep_host world" where
  "thunk_export_step x pm gateway i w =
     (case udynlink_get_symbol (w_mem w) (Some pm) i of
        None \<Rightarrow> w
      | Some s \<Rightarrow>
          if s_type s \<noteq> UDYNLINK_SYM_TYPE_EXPORTED \<or> s_location s \<noteq> UDYNLINK_SYM_LOCATION_DATA then w
          else if s_name s = In_memory NULL then w
          else if take UDYNLINK_THUNK_EXPORT_PREFIX_LEN (name_bytes (w_mem w) (s_name s))
                  \<noteq> UDYNLINK_THUNK_EXPORT_PREFIX then w
          else
            let fn = advance (s_name s) UDYNLINK_THUNK_EXPORT_PREFIX_LEN
            in case udynlink_lookup_symbol x (Some pm) fn w of
                 (None, w1) \<Rightarrow> w1
               | (Some fsym, w1) \<Rightarrow>
                   if s_location fsym \<noteq> UDYNLINK_SYM_LOCATION_CODE then w1
                   else w1\<lparr>w_mem := snd (udynlink_thunk_write_stub (w_mem w1) (s_val s)
                                          (s_val fsym) gateway)\<rparr>)"

fun thunk_export_loop ::
  "'g dep_host externals \<Rightarrow> udynlink_module_t \<Rightarrow> addr \<Rightarrow> nat list \<Rightarrow> 'g dep_host world
   \<Rightarrow> 'g dep_host world" where
  "thunk_export_loop x pm gateway [] w = w"
| "thunk_export_loop x pm gateway (i # is) w =
     thunk_export_loop x pm gateway is (thunk_export_step x pm gateway (of_nat i) w)"

definition udynlink_dep_generate_thunks ::
  "'g dep_host externals \<Rightarrow> udynlink_module_t option \<Rightarrow> 'g dep_host world \<Rightarrow> 'g dep_host world" where
  "udynlink_dep_generate_thunks x p_mod w =
     (case p_mod of None \<Rightarrow> w
      | Some pm \<Rightarrow>
          if p_header pm = NULL then w
          else case udynlink_lookup_symbol x (Some pm) (Literal thunk_gateway_name) w of
              (None, w1) \<Rightarrow> w1
            | (Some gw, w1) \<Rightarrow>
                if s_type gw \<noteq> UDYNLINK_SYM_TYPE_EXPORTED \<or> s_location gw \<noteq> UDYNLINK_SYM_LOCATION_DATA
                then w1
                else
                  let w2 = w1\<lparr>w_mem := udynlink_thunk_write_gateway (w_mem w1) (s_val gw) (p_ram pm)\<rparr>;
                      count = udynlink_get_symbol_count (w_mem w2) (Some pm)
                  in thunk_export_loop x pm (s_val gw) [0..<unat count] w2)"

text \<open>The pre-generated stub of a module for \<open>name\<close>, when its slot has been filled. The mangled
  name is built in a buffer on the stack, which the memory of the model does not include: it
  is passed on as its bytes, for this call only.\<close>

definition pregenerated_stub ::
  "'g dep_host externals \<Rightarrow> udynlink_module_t \<Rightarrow> cname \<Rightarrow> 'g dep_host world
   \<Rightarrow> u32 option \<times> 'g dep_host world" where
  "pregenerated_stub x pm name w =
     (let bytes = name_bytes (w_mem w) name; name_len = length bytes
      in if name_len > 0 \<and> name_len \<le> UDYNLINK_DEP_MAX_NAME then
        (case udynlink_lookup_symbol x (Some pm) (Literal (UDYNLINK_THUNK_EXPORT_PREFIX @ bytes)) w of
           (None, w1) \<Rightarrow> (None, w1)
         | (Some tsym, w1) \<Rightarrow>
             if s_type tsym = UDYNLINK_SYM_TYPE_EXPORTED \<and> s_location tsym = UDYNLINK_SYM_LOCATION_DATA
                \<and> rd16 (w_mem w1) (s_val tsym) \<noteq> 0
             then (Some (s_val tsym OR 1), w1) else (None, w1))
      else (None, w))"

text \<open>The dynamic pool for entry \<open>i\<close>: reuse a stub, else allocate (the module's gateway first).\<close>

definition pool_stub ::
  "nat \<Rightarrow> udynlink_module_t \<Rightarrow> u32 \<Rightarrow> 'g dep_host world \<Rightarrow> u32 \<times> 'g dep_host world" where
  "pool_stub i pm func_addr w =
     (let h = w_host w; pool = dh_pool h; m = w_mem w;
          existing = udynlink_external_find_stub m (Some pool) func_addr
      in if existing \<noteq> 0 then (existing, w)
      else
        let en = dm_entries (dh_mgr h) ! i;
            (gateway, pool2, m2) =
              (if de_gateway en = NULL then udynlink_thunk_alloc_gateway m pool (p_ram pm)
               else (de_gateway en, pool, m));
            mgr2 = (dh_mgr h)\<lparr>dm_entries := (dm_entries (dh_mgr h))[i := en\<lparr>de_gateway := gateway\<rparr>]\<rparr>
        in if gateway = NULL then (0, w\<lparr>w_host := h\<lparr>dh_mgr := mgr2, dh_pool := pool2\<rparr>, w_mem := m2\<rparr>)
        else
          let (r, pool3, m3) = udynlink_thunk_alloc_stub m2 pool2 func_addr gateway
          in (r, w\<lparr>w_host := h\<lparr>dh_mgr := mgr2, dh_pool := pool3\<rparr>, w_mem := m3\<rparr>))"

fun resolve_func_loop ::
  "'g dep_host externals \<Rightarrow> cname \<Rightarrow> nat list \<Rightarrow> 'g dep_host world \<Rightarrow> u32 \<times> 'g dep_host world" where
  "resolve_func_loop x name [] w = (0, w)"
| "resolve_func_loop x name (i # is) w =
     (if i \<ge> length (dm_entries (mgr_of w)) then (0, w)
      else case handle_at w (de_mod (dm_entries (mgr_of w) ! i)) of
        None \<Rightarrow> resolve_func_loop x name is w
      | Some pm \<Rightarrow>
          (case udynlink_lookup_symbol x (Some pm) name w of
             (None, w1) \<Rightarrow> resolve_func_loop x name is w1
           | (Some s, w1) \<Rightarrow>
               if s_location s = UDYNLINK_SYM_LOCATION_DATA then resolve_func_loop x name is w1
               else case pregenerated_stub x pm name w1 of
                   (Some r, w2) \<Rightarrow> (r, w2)
                 | (None, w2) \<Rightarrow> pool_stub i pm (s_val s) w2))"

definition udynlink_dep_resolve_func ::
  "'g dep_host externals \<Rightarrow> addr \<Rightarrow> addr \<Rightarrow> cname option \<Rightarrow> 'g dep_host world
   \<Rightarrow> u32 \<times> 'g dep_host world" where
  "udynlink_dep_resolve_func x mgr pool name w =
     (if mgr = NULL \<or> pool = NULL then (0, w)
      else case name of None \<Rightarrow> (0, w)
      | Some nm \<Rightarrow> resolve_func_loop x nm [0..<dm_capacity (mgr_of w)] w)"

fun resolve_data_loop ::
  "'g dep_host externals \<Rightarrow> cname \<Rightarrow> nat list \<Rightarrow> 'g dep_host world \<Rightarrow> u32 \<times> 'g dep_host world" where
  "resolve_data_loop x name [] w = (0, w)"
| "resolve_data_loop x name (i # is) w =
     (if i \<ge> length (dm_entries (mgr_of w)) then (0, w)
      else case handle_at w (de_mod (dm_entries (mgr_of w) ! i)) of
        None \<Rightarrow> resolve_data_loop x name is w
      | Some pm \<Rightarrow>
          (case udynlink_lookup_symbol x (Some pm) name w of
             (None, w1) \<Rightarrow> resolve_data_loop x name is w1
           | (Some s, w1) \<Rightarrow>
               if s_location s = UDYNLINK_SYM_LOCATION_DATA then (s_val s, w1)
               else resolve_data_loop x name is w1))"

definition udynlink_dep_resolve_data ::
  "'g dep_host externals \<Rightarrow> addr \<Rightarrow> cname option \<Rightarrow> 'g dep_host world \<Rightarrow> u32 \<times> 'g dep_host world" where
  "udynlink_dep_resolve_data x mgr name w =
     (if mgr = NULL then (0, w)
      else case name of None \<Rightarrow> (0, w)
      | Some nm \<Rightarrow> resolve_data_loop x nm [0..<dm_capacity (mgr_of w)] w)"

section \<open>Loading and unloading with registration\<close>

definition udynlink_dep_load ::
  "'g dep_host externals \<Rightarrow> addr \<Rightarrow> addr \<Rightarrow> addr \<Rightarrow> addr \<Rightarrow> u32 \<Rightarrow> udynlink_load_mode_t
   \<Rightarrow> 'g dep_host world \<Rightarrow> udynlink_error_t \<times> 'g dep_host world" where
  "udynlink_dep_load x mgr p_mod base_addr load_addr load_size md w =
     (if mgr = NULL \<or> p_mod = NULL \<or> base_addr = NULL then (ERR_INVALID_MODULE, w)
      else
        let mod_name = udynlink_get_module_name_from_image (w_mem w) base_addr;
            busy = (case mod_name of None \<Rightarrow> False | Some nm \<Rightarrow> is_loading (w_mem w) (mgr_of w) nm)
        in if busy then (ERR_LOAD_UNKNOWN_SYMBOL, w)
        else
          let w1 = (case mod_name of None \<Rightarrow> w | Some nm \<Rightarrow> set_mgr (push_loading nm (mgr_of w)) w);
              pop = (\<lambda>w. case mod_name of None \<Rightarrow> w | Some nm \<Rightarrow> set_mgr (pop_loading (mgr_of w)) w);
              (err, p_mod', w2) = udynlink_load_module x (handle_at w1 p_mod) base_addr load_addr
                                    load_size md w1;
              w3 = (case p_mod' of None \<Rightarrow> w2 | Some pm \<Rightarrow> set_handle p_mod pm w2)
          in if err \<noteq> UDYNLINK_OK then (err, pop w3)
          else
            let w4 = set_mgr (snd (register_module p_mod (mgr_of w3))) w3;
                w5 = udynlink_dep_generate_thunks x (handle_at w4 p_mod) w4
            in (UDYNLINK_OK, pop w5))"

definition udynlink_dep_unload ::
  "'g dep_host externals \<Rightarrow> addr \<Rightarrow> addr \<Rightarrow> 'g dep_host world \<Rightarrow> udynlink_error_t \<times> 'g dep_host world" where
  "udynlink_dep_unload x mgr p_mod w =
     (if mgr = NULL \<or> p_mod = NULL then (ERR_INVALID_MODULE, w)
      else
        let w1 = set_mgr (unregister_module p_mod (mgr_of w)) w;
            (err, p_mod', w2) = udynlink_unload_module x (handle_at w1 p_mod) w1
        in (err, case p_mod' of None \<Rightarrow> w2 | Some pm \<Rightarrow> set_handle p_mod pm w2))"

end
