(* ===== verification/DepsSpec.thy ===== *)
theory DepsSpec
  imports Deps Keeps "HOL-Library.Multiset"
begin

text \<open>
  What the dependency layer promises: the registry is a bounded multiset of modules, a search
  finds a registered module by name, the stack of modules being loaded is balanced even when
  the host's resolver loads modules through the layer itself, a circular dependency is
  deferred, and unloading undoes the registration of a load.
\<close>

section \<open>The registry as a bounded multiset\<close>

locale registry =
  fixes add :: "'k \<Rightarrow> 's \<Rightarrow> 's" and remove :: "'k \<Rightarrow> 's \<Rightarrow> 's"
    and content :: "'s \<Rightarrow> 'k multiset" and bound :: "'s \<Rightarrow> nat"
  assumes content_add: "content (add k s) = (if size (content s) < bound s then add_mset k (content s) else content s)"
    and content_remove: "content (remove k s) = content s - {#k#}"
    and bound_add: "bound (add k s) = bound s" and bound_remove: "bound (remove k s) = bound s"
begin

definition run :: "(bool \<times> 'k) list \<Rightarrow> 's \<Rightarrow> 's" where
  "run evs = fold (\<lambda>(reg, k). if reg then add k else remove k) evs"

definition abs_run :: "nat \<Rightarrow> (bool \<times> 'k) list \<Rightarrow> 'k multiset \<Rightarrow> 'k multiset" where
  "abs_run n evs = fold (\<lambda>(reg, k) M. if reg then (if size M < n then add_mset k M else M) else M - {#k#}) evs"

lemma run_simulates: "bound s = n \<Longrightarrow> content (run evs s) = abs_run n evs (content s)"
  unfolding run_def abs_run_def
  by (induction evs arbitrary: s) (auto simp: content_add content_remove bound_add bound_remove)

lemma run_bounded: "size (content s) \<le> bound s \<Longrightarrow> size (content (run evs s)) \<le> bound s"
proof (induction evs arbitrary: s)
  case (Cons ev evs)
  have "size (content (run [ev] s)) \<le> bound (run [ev] s) \<and> bound (run [ev] s) = bound s"
    using Cons.prems by (cases ev) (auto simp: run_def content_add content_remove bound_add bound_remove size_Diff_singleton_if)
  with Cons.IH [of "run [ev] s"] show ?case by (simp add: run_def)
qed (simp add: run_def)

lemma add_remove: "size (content s) < bound s \<Longrightarrow> content (remove k (add k s)) = content s"
  by (simp add: content_add content_remove)

end

definition registered :: "udynlink_dep_mgr_t \<Rightarrow> addr multiset" where
  "registered mgr = mset (map de_mod (dm_entries mgr))"

lemma entry_index_nth:
  "entry_index ens p k = (if p \<in> de_mod ` set ens then Some (k + length (takeWhile (\<lambda>en. de_mod en \<noteq> p) ens)) else None)"
  by (induction ens arbitrary: k) auto

lemma add_mset_diff_swap: "a \<in># M \<Longrightarrow> add_mset y (M - {#a#}) = add_mset y M - {#a#}"
  by (metis add_mset_commute add_mset_remove_trivial insert_DiffM)

lemma mset_butlast_update:
  "i < length xs \<Longrightarrow> mset (butlast (xs[i := last xs])) = mset xs - {#xs ! i#}"
proof (cases xs rule: rev_cases)
  case (snoc ys y)
  assume "i < length xs"
  then consider "i < length ys" | "i = length ys" using snoc by fastforce
  then show ?thesis
  proof cases
    case 1
    have "mset (butlast (xs[i := last xs])) = add_mset y (mset ys - {#ys ! i#})"
      using 1 snoc by (simp add: list_update_append mset_update)
    also have "\<dots> = mset xs - {#xs ! i#}"
      using 1 snoc add_mset_diff_swap [of "ys ! i" "mset ys" y] by (simp add: nth_append)
    finally show ?thesis .
  qed (use snoc in simp)
qed simp

lemma registered_register: "registered (udynlink_dep_register p mgr) =
    (if size (registered mgr) < dm_capacity mgr then add_mset p (registered mgr) else registered mgr)"
  by (simp add: registered_def udynlink_dep_register_def register_module_def)

lemma registered_unregister: "registered (unregister_module p mgr) = registered mgr - {#p#}"
proof (cases "p \<in> de_mod ` set (dm_entries mgr)")
  case True
  let ?ens = "dm_entries mgr"
  let ?i = "length (takeWhile (\<lambda>en. de_mod en \<noteq> p) ?ens)"
  have ex: "\<exists>en \<in> set ?ens. \<not> de_mod en \<noteq> p" using True by auto
  have i: "?i < length ?ens"
    using ex by (metis (mono_tags, lifting) length_takeWhile_less_P_nth takeWhile_eq_all_conv le_neq_implies_less length_takeWhile_le takeWhile_eq_take take_all_iff order_refl)
  have "de_mod (?ens ! ?i) = p" using i nth_length_takeWhile [OF i] by simp
  then show ?thesis
    using True i mset_butlast_update [OF i]
    by (simp add: unregister_module_def entry_index_nth registered_def image_mset_Diff)
next
  case False
  then show ?thesis by (auto simp: unregister_module_def entry_index_nth registered_def)
qed

interpretation deps: registry udynlink_dep_register unregister_module registered dm_capacity
proof (unfold_locales, goal_cases)
  case (1 k s)
  show ?case by (rule registered_register)
next
  case (2 k s)
  show ?case by (rule registered_unregister)
qed (auto simp: udynlink_dep_register_def register_module_def unregister_module_def split: option.splits)


text \<open>C27: the registry is a bounded multiset of modules: after any sequence of registrations and
  removals it holds exactly what the same sequence leaves in a multiset that ignores additions
  once the capacity is reached, and never more than its capacity.\<close>

theorem registry_refines_multiset:
  defines "mgr \<equiv> \<lambda>ops cap. fold (\<lambda>(reg, p). if reg then udynlink_dep_register p else unregister_module p) ops
    (udynlink_dep_mgr_init cap)"
  shows "registered (mgr ops cap) =
      fold (\<lambda>(reg, p) M. if reg then (if size M < cap then add_mset p M else M) else M - {#p#}) ops {#}
    \<and> length (dm_entries (mgr ops cap)) \<le> cap"
proof -
  have r: "mgr ops cap = deps.run ops (udynlink_dep_mgr_init cap)" by (simp add: mgr_def deps.run_def)
  have init: "registered (udynlink_dep_mgr_init cap) = {#}" "dm_capacity (udynlink_dep_mgr_init cap) = cap"
    by (simp_all add: registered_def udynlink_dep_mgr_init_def)
  have "length (dm_entries m) = size (registered m)" for m by (simp add: registered_def)
  then show ?thesis
    using deps.run_simulates [of "udynlink_dep_mgr_init cap" cap ops] deps.run_bounded [of "udynlink_dep_mgr_init cap" ops]
    by (simp add: r init deps.abs_run_def)
qed

section \<open>Finding a module\<close>

definition named :: "'g dep_host world \<Rightarrow> u8 list \<Rightarrow> addr \<Rightarrow> bool" where
  "named w nm p \<longleftrightarrow> p \<noteq> NULL \<and>
     (\<exists>name. udynlink_get_module_name (w_mem w) (dh_handles (w_host w) p) = Some name \<and> name_bytes (w_mem w) name = nm)"

text \<open>C29: a search by name returns a registered module of that name, and \<open>NULL\<close> exactly when
  there is none; without a manager it finds nothing.\<close>

theorem dep_find_correct:
  "if mgr = NULL then udynlink_dep_find mgr w (Some nm) = NULL
   else if udynlink_dep_find mgr w (Some nm) = NULL then \<not> (\<exists>p. p \<in># registered (mgr_of w) \<and> named w nm p)
   else udynlink_dep_find mgr w (Some nm) \<in># registered (mgr_of w) \<and> named w nm (udynlink_dep_find mgr w (Some nm))"
proof -
  have "if dep_find_loop w nm ens = NULL then \<not> (\<exists>en \<in> set ens. named w nm (de_mod en))
      else dep_find_loop w nm ens \<in> de_mod ` set ens \<and> named w nm (dep_find_loop w nm ens)" for ens
    by (induction ens) (auto simp: handle_at_def named_def split: option.splits if_splits)
  from this [of "dm_entries (mgr_of w)"] show ?thesis
    by (auto simp: udynlink_dep_find_def registered_def split: if_splits)
qed

section \<open>The stack of modules being loaded\<close>

abbreviation loading :: "'g dep_host world \<Rightarrow> cname list" where
  "loading w \<equiv> dm_loading_stack (mgr_of w)"

lemma loading_set [simp]:
  "loading (set_handle p pm w) = loading w"
  "loading (set_mgr mgr w) = dm_loading_stack mgr"
  "mgr_of (set_mgr mgr w) = mgr"
  "mgr_of (set_handle p pm w) = mgr_of w"
  by (simp_all add: acc_defs)

lemma loading_register [simp]: "dm_loading_stack (snd (register_module p mgr)) = dm_loading_stack mgr"
  by (simp add: register_module_def)

lemma export_loop_keeps:
  assumes k: "keeps x I"
  shows "I w \<Longrightarrow> I (thunk_export_loop x pm gw ks w)"
proof (induction ks arbitrary: w)
  case (Cons i ks)
  have "I (thunk_export_step x pm gw (of_nat i) w)"
    using Cons.prems by (auto simp: thunk_export_step_def Let_def intro!: writes.mem [OF keeps.axioms(1) [OF k]]
      dest: writes.lookup_eq [OF keeps.axioms(1) [OF k]] split: option.splits prod.splits)
  then show ?case using Cons.IH by simp
qed simp

lemma generate_thunks_keeps:
  assumes k: "keeps x I" and w: "I w"
  shows "I (udynlink_dep_generate_thunks x p_mod w)"
proof (cases p_mod)
  case (Some pm)
  obtain g w1 where l: "udynlink_lookup_symbol x (Some pm) (Literal thunk_gateway_name) w = (g, w1)" by fastforce
  then have "I w1" using writes.lookup [OF keeps.axioms(1) [OF k] w] by (metis snd_conv)
  then show ?thesis
    using w Some l by (auto simp: udynlink_dep_generate_thunks_def Let_def split: option.splits
      intro!: export_loop_keeps [OF k] writes.mem [OF keeps.axioms(1) [OF k]])
qed (use w in \<open>simp add: udynlink_dep_generate_thunks_def\<close>)

text \<open>What a load does between its push and its pop.\<close>

definition dep_load_core ::
  "'g dep_host externals \<Rightarrow> addr \<Rightarrow> addr \<Rightarrow> addr \<Rightarrow> u32 \<Rightarrow> udynlink_load_mode_t
   \<Rightarrow> 'g dep_host world \<Rightarrow> udynlink_error_t \<times> 'g dep_host world" where
  "dep_load_core x p base la ls md w1 =
     (let (err, p_mod', w2) = udynlink_load_module x (handle_at w1 p) base la ls md w1;
          w3 = (case p_mod' of None \<Rightarrow> w2 | Some pm \<Rightarrow> set_handle p pm w2)
      in if err \<noteq> UDYNLINK_OK then (err, w3)
         else let w4 = set_mgr (snd (register_module p (mgr_of w3))) w3
              in (UDYNLINK_OK, udynlink_dep_generate_thunks x (handle_at w4 p) w4))"

lemma dep_load_unnamed:
  assumes "mgr \<noteq> NULL" "p \<noteq> NULL" "base \<noteq> NULL" "udynlink_get_module_name_from_image (w_mem w) base = None"
  shows "udynlink_dep_load x mgr p base la ls md w = dep_load_core x p base la ls md w"
  using assms by (simp add: udynlink_dep_load_def dep_load_core_def Let_def case_prod_beta')

lemma dep_load_named:
  assumes "mgr \<noteq> NULL" "p \<noteq> NULL" "base \<noteq> NULL" "udynlink_get_module_name_from_image (w_mem w) base = Some nm"
    and "\<not> is_loading (w_mem w) (mgr_of w) nm"
  shows "udynlink_dep_load x mgr p base la ls md w =
    (let (err, w') = dep_load_core x p base la ls md (set_mgr (push_loading nm (mgr_of w)) w)
     in (err, set_mgr (pop_loading (mgr_of w')) w'))"
  using assms by (simp add: udynlink_dep_load_def dep_load_core_def Let_def case_prod_beta')

lemma dep_load_core_stack:
  assumes k: "keeps x (\<lambda>w. loading w = S)" and w: "loading w = S"
  shows "loading (snd (dep_load_core x p base la ls md w)) = S"
proof -
  obtain err pm w2 where l: "udynlink_load_module x (handle_at w p) base la ls md w = (err, pm, w2)"
    by (metis prod_cases3)
  then have w2: "loading w2 = S" using keeps.load [OF k w] by (metis snd_conv)
  moreover have "loading (udynlink_dep_generate_thunks x pm w) = S" if "loading w = S" for pm w
    using generate_thunks_keeps [OF k] that .
  ultimately show ?thesis
    by (cases pm) (simp_all add: dep_load_core_def l Let_def)
qed

lemma dep_load_stack:
  assumes room: "length (loading w) < UDYNLINK_DEP_MAX_DEPTH"
    and k: "\<And>S. length S \<le> Suc (length (loading w)) \<Longrightarrow> keeps x (\<lambda>w. loading w = S)"
  shows "loading (snd (udynlink_dep_load x mgr p base la ls md w)) = loading w"
proof -
  consider (none) "mgr = NULL \<or> p = NULL \<or> base = NULL" | (unnamed) "mgr \<noteq> NULL" "p \<noteq> NULL" "base \<noteq> NULL" "udynlink_get_module_name_from_image (w_mem w) base = None"
    | (busy) nm where "mgr \<noteq> NULL" "p \<noteq> NULL" "base \<noteq> NULL" "udynlink_get_module_name_from_image (w_mem w) base = Some nm"
        "is_loading (w_mem w) (mgr_of w) nm"
    | (named) nm where "mgr \<noteq> NULL" "p \<noteq> NULL" "base \<noteq> NULL" "udynlink_get_module_name_from_image (w_mem w) base = Some nm"
        "\<not> is_loading (w_mem w) (mgr_of w) nm"
    by blast
  then show ?thesis
  proof cases
    case unnamed
    then show ?thesis using dep_load_core_stack [OF k refl] by (simp add: dep_load_unnamed)
  next
    case named
    let ?w1 = "set_mgr (push_loading nm (mgr_of w)) w"
    have s: "loading ?w1 = loading w @ [nm]" using room by (simp add: push_loading_def)
    have "loading (snd (dep_load_core x p base la ls md ?w1)) = loading w @ [nm]"
      by (rule dep_load_core_stack [OF k s]) simp
    then show ?thesis using named by (simp add: dep_load_named case_prod_beta' Let_def pop_loading_def)
  qed (simp_all add: udynlink_dep_load_def)
qed


text \<open>A host that loads missing dependencies through the dependency layer, \<open>n\<close> loads deep:
  \<open>image_of\<close> gives the handle and the image of a module by name, \<open>x0\<close> the allocator.\<close>

fun nested_load ::
  "addr \<Rightarrow> (u8 list \<Rightarrow> (addr \<times> addr) option) \<Rightarrow> udynlink_load_mode_t \<Rightarrow> 'g dep_host externals \<Rightarrow> 'g dep_loader" where
  "nested_load mgr image_of md x nm w =
     (case image_of (name_bytes (w_mem w) nm) of
        None \<Rightarrow> (NULL, w)
      | Some (p, base) \<Rightarrow>
          let (err, w') = udynlink_dep_load x mgr p base NULL 0 md w
          in (if err = UDYNLINK_OK then p else NULL, w'))"

fun nested_host ::
  "'g dep_host externals \<Rightarrow> addr \<Rightarrow> (u8 list \<Rightarrow> (addr \<times> addr) option) \<Rightarrow> udynlink_load_mode_t \<Rightarrow> nat
   \<Rightarrow> 'g dep_host externals" where
  "nested_host x0 mgr image_of md 0 = x0\<lparr>x_resolve := (\<lambda>pm name w.
     udynlink_dep_resolve_dependency mgr default_dep_load (Some name) w)\<rparr>"
| "nested_host x0 mgr image_of md (Suc n) = x0\<lparr>x_resolve := (\<lambda>pm name w.
     udynlink_dep_resolve_dependency mgr (nested_load mgr image_of md (nested_host x0 mgr image_of md n)) (Some name) w)\<rparr>"

text \<open>An allocator that leaves the dependency manager alone.\<close>

definition allocator_ok :: "'g dep_host externals \<Rightarrow> bool" where
  "allocator_ok x0 \<longleftrightarrow>
     (\<forall>w sz s a f. dh_mgr (snd (x_malloc x0 w sz s a f)) = dh_mgr (w_host w))
     \<and> (\<forall>w p s a f. dh_mgr (x_free x0 w p s a f) = dh_mgr (w_host w))"

lemma keeps_loading:
  assumes "\<And>w sz s a f. dh_mgr (snd (x_malloc x w sz s a f)) = dh_mgr (w_host w)"
    and "\<And>w p s a f. dh_mgr (x_free x w p s a f) = dh_mgr (w_host w)"
    and "\<And>w pm name. loading w = S \<Longrightarrow> loading (snd (x_resolve x pm name w)) = S"
  shows "keeps x (\<lambda>w. loading w = S)"
  using assms
  by (unfold_locales)
    (auto simp: mgr_of_def udynlink_external_malloc_def udynlink_external_free_def case_prod_beta' Let_def)

lemma resolve_dependency_loading:
  assumes "\<And>nm. loading (snd (dl nm w)) = loading w"
  shows "loading (snd (udynlink_dep_resolve_dependency mgr dl name w)) = loading w"
  using assms by (auto simp: udynlink_dep_resolve_dependency_def Let_def case_prod_beta' split: option.splits)

lemma nested_host_keeps:
  assumes a: "allocator_ok x0" and "length S + n \<le> UDYNLINK_DEP_MAX_DEPTH"
  shows "keeps (nested_host x0 mgr image_of md n) (\<lambda>w. loading w = S)"
  using assms(2)
proof (induction n arbitrary: S)
  case 0
  then show ?case using a
    by (intro keeps_loading) (auto simp: allocator_ok_def default_dep_load_def resolve_dependency_loading)
next
  case (Suc n)
  have "loading (snd (nested_load mgr image_of md (nested_host x0 mgr image_of md n) nm w)) = loading w"
    if "loading w = S" for nm w
  proof -
    have "loading (snd (udynlink_dep_load (nested_host x0 mgr image_of md n) mgr p base NULL 0 md w)) = loading w" for p base
      by (rule dep_load_stack) (use Suc that in auto)
    then show ?thesis by (auto simp: case_prod_beta' Let_def split: option.splits)
  qed
  then show ?case using a
    by (intro keeps_loading) (auto simp: allocator_ok_def resolve_dependency_loading)
qed

text \<open>C14: the stack of modules being loaded is balanced: a load through the dependency layer
  leaves it as it found it, whether it succeeds or fails, in a host whose resolver loads missing
  dependencies through the same layer, as long as the nest of loads fits the stack.\<close>

theorem loading_stack_balanced:
  assumes "allocator_ok x0" and "length (dm_loading_stack (mgr_of w)) + n < UDYNLINK_DEP_MAX_DEPTH"
  shows "dm_loading_stack (mgr_of (snd (udynlink_dep_load (nested_host x0 mgr image_of md n) mgr p base la ls md w)))
    = dm_loading_stack (mgr_of w)"
  by (rule dep_load_stack) (use assms in \<open>auto intro: nested_host_keeps\<close>)

text \<open>An allocator for the dependency layer that hands out consecutive blocks.\<close>

definition dep_allocator :: "u32 dep_host externals" where
  "dep_allocator = \<lparr>x_malloc = (\<lambda>w sz s a f. (dh_rest (w_host w), (w_host w)\<lparr>dh_rest := (dh_rest (w_host w) + sz + 15) AND NOT 15\<rparr>)),
     x_free = (\<lambda>w p s a f. w_host w), x_resolve = (\<lambda>pm name w. (0, w))\<rparr>"

definition dep_world :: "udynlink_dep_mgr_t \<Rightarrow> u32 dep_host world" where
  "dep_world mgr = \<lparr>w_mem = plain_mem, w_host = \<lparr>dh_mgr = mgr, dh_handles = (\<lambda>_. empty_module),
     dh_pool = \<lparr>tp_base = 0x30000, tp_size = 0, tp_used = 0, tp_gateway_top = 0\<rparr>, dh_rest = 0x20000\<rparr>, w_calls = []\<rparr>"

lemma dep_allocator_ok: "allocator_ok dep_allocator"
  by (simp add: allocator_ok_def dep_allocator_def)

theorem loading_stack_balanced_witness:
  "dm_loading_stack (mgr_of (snd (udynlink_dep_load (nested_host dep_allocator 0x600 (\<lambda>nm. Some (0x500, 0x1000)) LOAD_MODE_XIP 6)
     0x600 0x400 0x1000 NULL 0 LOAD_MODE_XIP (dep_world ((udynlink_dep_mgr_init 4)\<lparr>dm_loading_stack := [Literal [0x61]]\<rparr>)))))
   = [Literal [0x61]]"
  by (subst loading_stack_balanced [OF dep_allocator_ok])
    (simp_all add: dep_world_def udynlink_dep_mgr_init_def acc_defs)

text \<open>On a full stack the push is dropped but the pop is not: the load removes the entry of an
  outer one.\<close>

lemma full_stack_loses_entry:
  assumes "length (loading w) = UDYNLINK_DEP_MAX_DEPTH" and k: "keeps x (\<lambda>w'. loading w' = loading w)"
    and "mgr \<noteq> NULL" "p \<noteq> NULL" "base \<noteq> NULL" "udynlink_get_module_name_from_image (w_mem w) base = Some nm"
    and "\<not> is_loading (w_mem w) (mgr_of w) nm"
  shows "loading (snd (udynlink_dep_load x mgr p base la ls md w)) = butlast (loading w)"
proof -
  let ?w1 = "set_mgr (push_loading nm (mgr_of w)) w"
  have "loading (snd (dep_load_core x p base la ls md ?w1)) = loading w"
    by (rule dep_load_core_stack [OF k]) (use assms(1) in \<open>simp add: push_loading_def\<close>)
  then show ?thesis using assms by (auto simp: dep_load_named case_prod_beta' Let_def pop_loading_def acc_defs)
qed


section \<open>Circular dependencies\<close>

lemma nested_host_resolve:
  "\<exists>dl. x_resolve (nested_host x0 mgr image_of md n) pm name w = udynlink_dep_resolve_dependency mgr dl (Some name) w"
  by (cases n) auto

text \<open>C15: a dependency on a module that is itself being loaded is deferred: the relocation that
  asks for it stores zero in its slot and the load goes on, and an attempt to load the module
  again is refused with nothing changed.\<close>

theorem circular_dependency_deferred:
  assumes "udynlink_dep_get_name (w_mem w) (Some (s_name s)) = Some dep"
    and busy: "is_loading (w_mem w) (mgr_of w) dep" and "s_type s = UDYNLINK_SYM_TYPE_EXTERN"
    and "udynlink_get_module_name_from_image (w_mem w) base = Some nm"
    and same: "name_bytes (w_mem w) nm = name_bytes (w_mem w) dep" and "mgr \<noteq> NULL" "p_mod \<noteq> NULL" "base \<noteq> NULL"
  shows "reloc_symbol (nested_host x0 mgr image_of md n) pm tab sectioned s p w = (UDYNLINK_OK, w\<lparr>w_mem := wr32 (w_mem w) p 0\<rparr>)
    \<and> udynlink_dep_load (nested_host x0 mgr image_of md n) mgr p_mod base la ls md w = (ERR_LOAD_UNKNOWN_SYMBOL, w)"
proof
  obtain dl where dl: "x_resolve (nested_host x0 mgr image_of md n) pm (s_name s) w =
      udynlink_dep_resolve_dependency mgr dl (Some (s_name s)) w"
    using nested_host_resolve by blast
  have "resolve_symbol (nested_host x0 mgr image_of md n) pm (s_name s) w = (UDYNLINK_SYM_DEFERRED, w)"
    unfolding resolve_symbol_eq dl using assms(1,2) by (simp add: udynlink_dep_resolve_dependency_def)
  then show "reloc_symbol (nested_host x0 mgr image_of md n) pm tab sectioned s p w = (UDYNLINK_OK, w\<lparr>w_mem := wr32 (w_mem w) p 0\<rparr>)"
    using assms(3) by (simp add: reloc_symbol_def acc_defs)
  have "is_loading (w_mem w) (mgr_of w) nm" using busy same by (simp add: is_loading_def)
  then show "udynlink_dep_load (nested_host x0 mgr image_of md n) mgr p_mod base la ls md w = (ERR_LOAD_UNKNOWN_SYMBOL, w)"
    using assms by (simp add: udynlink_dep_load_def)
qed

lemma plain_module_name: "udynlink_get_module_name_from_image plain_mem 0x1000 = Some (In_memory 0x1064)"
  by (simp add: udynlink_get_module_name_from_image_def get_sym_at_def get_sym_at_raw_def plain_pointer plain_header plain_words
    sym_type_of_def sym_location_of_def acc_defs Let_def word_le_nat_alt)

lemma plain_cstr_m: "cstr plain_mem 0x1064 = [0x6D]"
  using plain_bytes by (simp add: cstr_def cstr_n.simps [of plain_mem])

theorem circular_dependency_deferred_witness:
  "udynlink_dep_load (nested_host dep_allocator 0x600 (\<lambda>nm. None) LOAD_MODE_XIP 3) 0x600 0x400 0x1000 NULL 0 LOAD_MODE_XIP
     (dep_world ((udynlink_dep_mgr_init 4)\<lparr>dm_loading_stack := [Literal [0x6D]]\<rparr>))
   = (ERR_LOAD_UNKNOWN_SYMBOL, dep_world ((udynlink_dep_mgr_init 4)\<lparr>dm_loading_stack := [Literal [0x6D]]\<rparr>))"
proof -
  let ?w = "dep_world ((udynlink_dep_mgr_init 4)\<lparr>dm_loading_stack := [Literal [0x6D]]\<rparr>)"
  let ?s = "\<lparr>s_name = Literal (UDYNLINK_DEP_PREFIX @ [0x6D]), s_val = 0, s_type = UDYNLINK_SYM_TYPE_EXTERN,
    s_location = UDYNLINK_SYM_LOCATION_CODE\<rparr>"
  have "udynlink_dep_get_name (w_mem ?w) (Some (s_name ?s)) = Some (Literal [0x6D])"
    by (simp add: udynlink_dep_get_name_def udynlink_dep_is_dependency_def UDYNLINK_DEP_PREFIX_LEN_def UDYNLINK_DEP_PREFIX_def)
  moreover have "is_loading (w_mem ?w) (mgr_of ?w) (Literal [0x6D])"
    by (simp add: is_loading_def dep_world_def acc_defs)
  ultimately show ?thesis
    by (intro circular_dependency_deferred [where s = ?s and dep = "Literal [0x6D]" and nm = "In_memory 0x1064", THEN conjunct2])
      (simp_all add: dep_world_def plain_module_name plain_cstr_m)
qed

section \<open>Loading registers, unloading removes\<close>

text \<open>A host whose callbacks leave the dependency manager alone.\<close>

definition manager_kept :: "'g dep_host externals \<Rightarrow> bool" where
  "manager_kept x \<longleftrightarrow> (\<forall>M. keeps x (\<lambda>w. mgr_of w = M))"

lemma dep_load_core_registers:
  assumes k: "manager_kept x" and r: "dep_load_core x p base la ls md w = (err, w')"
  shows "mgr_of w' = (if err = UDYNLINK_OK then udynlink_dep_register p (mgr_of w) else mgr_of w)"
proof -
  obtain e pm w2 where l: "udynlink_load_module x (handle_at w p) base la ls md w = (e, pm, w2)"
    by (metis prod_cases3)
  have k': "keeps x (\<lambda>w. mgr_of w = M)" for M using k by (simp add: manager_kept_def)
  have "mgr_of w2 = mgr_of w" using keeps.load [OF k' refl] l by (metis snd_conv)
  moreover have "mgr_of (udynlink_dep_generate_thunks x pm w) = mgr_of w" for pm w
    by (rule generate_thunks_keeps [OF k' refl])
  ultimately show ?thesis
    using r by (cases pm) (auto simp: dep_load_core_def l Let_def udynlink_dep_register_def split: if_splits)
qed

lemma registered_stack [simp]:
  "registered (push_loading nm mgr) = registered mgr" "registered (pop_loading mgr) = registered mgr"
  "dm_capacity (push_loading nm mgr) = dm_capacity mgr"
  by (simp_all add: registered_def push_loading_def pop_loading_def)

lemma dep_load_registered:
  assumes k: "manager_kept x" and r: "udynlink_dep_load x mgr p base la ls md w = (err, w')"
  shows "registered (mgr_of w') = (if err = UDYNLINK_OK \<and> size (registered (mgr_of w)) < dm_capacity (mgr_of w)
    then add_mset p (registered (mgr_of w)) else registered (mgr_of w))"
proof -
  consider (refused) "err \<noteq> UDYNLINK_OK" "w' = w"
    | (unnamed) "dep_load_core x p base la ls md w = (err, w')"
    | (named) nm w2 where "dep_load_core x p base la ls md (set_mgr (push_loading nm (mgr_of w)) w) = (err, w2)"
        "w' = set_mgr (pop_loading (mgr_of w2)) w2"
    using r dep_load_unnamed [of mgr p base w x la ls md] dep_load_named [of mgr p base w _ x la ls md]
    by (cases "mgr = NULL \<or> p = NULL \<or> base = NULL"; cases "udynlink_get_module_name_from_image (w_mem w) base")
      (auto simp: udynlink_dep_load_def Let_def split: if_splits prod.splits)
  then show ?thesis
  proof cases
    case unnamed
    then show ?thesis using dep_load_core_registers [OF k unnamed] by (simp add: registered_register)
  next
    case named
    then show ?thesis using dep_load_core_registers [OF k named(1)] by (simp add: registered_register)
  qed simp
qed


text \<open>C28: in a host whose callbacks leave the manager alone (no load through the dependency layer
  from inside the resolver), a successful load registers the module exactly once when the registry
  has room and not at all when it is full, a failed one registers nothing, and unloading the module
  takes the registry back to what it was before the load.\<close>

theorem load_unload_registry:
  fixes w mgr p
  defines "before \<equiv> registered (mgr_of w)" and "room \<equiv> size (registered (mgr_of w)) < dm_capacity (mgr_of w)"
  assumes k: "manager_kept x"
    and l: "udynlink_dep_load x mgr p base la ls md w = (err, w1)" and p: "mgr \<noteq> NULL" "p \<noteq> NULL"
  shows "registered (mgr_of w1) = (if err = UDYNLINK_OK \<and> room then add_mset p before else before)
    \<and> registered (mgr_of (snd (udynlink_dep_unload x mgr p w1)))
      = (if err = UDYNLINK_OK \<and> room then before else before - {#p#})"
proof
  show r: "registered (mgr_of w1) = (if err = UDYNLINK_OK \<and> room then add_mset p before else before)"
    using dep_load_registered [OF k l] by (simp add: before_def room_def)
  let ?w = "set_mgr (unregister_module p (mgr_of w1)) w1"
  obtain e pm w2 where u: "udynlink_unload_module x (handle_at ?w p) ?w = (e, pm, w2)" by (metis prod_cases3)
  have "keeps x (\<lambda>w. mgr_of w = mgr_of ?w)" using k by (simp add: manager_kept_def)
  from keeps.unload [OF this refl] have "mgr_of w2 = mgr_of ?w" using u by (metis snd_conv)
  then have "mgr_of (snd (udynlink_dep_unload x mgr p w1)) = unregister_module p (mgr_of w1)"
    using u p by (cases pm) (simp_all add: udynlink_dep_unload_def Let_def)
  then show "registered (mgr_of (snd (udynlink_dep_unload x mgr p w1)))
      = (if err = UDYNLINK_OK \<and> room then before else before - {#p#})"
    using r by (simp add: registered_unregister)
qed

lemma dep_allocator_kept: "manager_kept dep_allocator"
  unfolding manager_kept_def
  by (intro allI, unfold_locales)
    (simp_all add: dep_allocator_def udynlink_external_malloc_def udynlink_external_free_def acc_defs)

theorem load_unload_registry_witness:
  "\<exists>err w1. udynlink_dep_load dep_allocator 0x600 0x400 0x1000 NULL 0 LOAD_MODE_XIP (dep_world (udynlink_dep_mgr_init 2)) = (err, w1)
    \<and> registered (mgr_of (snd (udynlink_dep_unload dep_allocator 0x600 0x400 w1))) = {#}"
proof -
  let ?w = "dep_world (udynlink_dep_mgr_init 2)"
  obtain err w1 where l: "udynlink_dep_load dep_allocator 0x600 0x400 0x1000 NULL 0 LOAD_MODE_XIP ?w = (err, w1)" by fastforce
  have "registered (mgr_of ?w) = {#}" "dm_capacity (mgr_of ?w) = 2"
    by (simp_all add: dep_world_def udynlink_dep_mgr_init_def registered_def acc_defs)
  then show ?thesis using load_unload_registry [OF dep_allocator_kept l] l by auto
qed

end
