(* ===== verification/HostTables.thy ===== *)
theory HostTables
  imports World
begin

text \<open>
  Symbol tables a host links into its resolver: the GNU-style hash table of
  \<open>udynlink/udynlink_hash.h\<close>, the trie of \<open>udynlink/udynlink_trie.h\<close>, the direct-mapped cache
  of \<open>udynlink/udynlink_host_utils.h\<close> and the C++ ABI stubs and resolver of
  \<open>udynlink/udynlink_cpp_abi.h\<close>. The arrays of the first two are read from memory; both
  walks follow links stored in the table, so they are partial: \<open>None\<close> is a walk that does
  not end.
\<close>

section \<open>Hash table\<close>

record udynlink_hash_table_t =
  ht_nbuckets :: u32
  ht_symoffset :: u32
  ht_bloom_size :: u32
  ht_bloom_shift :: u32
  ht_bloom :: addr
  ht_buckets :: addr
  ht_hash_values :: addr
  ht_sym_addrs :: addr
  ht_strtab :: addr
  ht_strtab_offsets :: addr

definition gnu_hash :: "u8 list \<Rightarrow> u32" where
  "gnu_hash name = foldl (\<lambda>h c. h * 33 + ucast c) 5381 name"

definition array32 :: "mem \<Rightarrow> addr \<Rightarrow> u32 \<Rightarrow> u32" where
  [acc_defs]: "array32 m base i = rd32 m (base + 4 * i)"

definition bloom_mask :: "udynlink_hash_table_t \<Rightarrow> u32 \<Rightarrow> u32" where
  "bloom_mask t h = push_bit (unat (h mod 32)) 1
     OR push_bit (unat (drop_bit (unat (ht_bloom_shift t)) h mod 32)) 1"

partial_function (option) hash_chain ::
  "mem \<Rightarrow> udynlink_hash_table_t \<Rightarrow> u32 \<Rightarrow> u8 list \<Rightarrow> u32 \<Rightarrow> addr option" where
  "hash_chain m t h name idx =
     (let hv = array32 m (ht_hash_values t) (idx - ht_symoffset t)
      in if hv OR 1 = h OR 1
            \<and> strcmp (cstr m (ht_strtab t + array32 m (ht_strtab_offsets t) idx)) name = 0
         then Some (array32 m (ht_sym_addrs t) idx)
         else if hv AND 1 \<noteq> 0 then Some NULL
         else hash_chain m t h name (idx + 1))"

definition udynlink_resolve_hashed_symbol ::
  "mem \<Rightarrow> udynlink_hash_table_t \<Rightarrow> u8 list \<Rightarrow> addr option" where
  "udynlink_resolve_hashed_symbol m t name =
     (let h = gnu_hash name;
          mask = bloom_mask t h;
          bloom_idx = (h div 32) AND (ht_bloom_size t - 1)
      in if array32 m (ht_bloom t) bloom_idx AND mask \<noteq> mask then Some NULL
         else let idx = array32 m (ht_buckets t) (h mod ht_nbuckets t)
         in if idx < ht_symoffset t then Some NULL
            else hash_chain m t h name idx)"

section \<open>Trie\<close>

definition UDYNLINK_TRIE_NONE :: u16 where
  [acc_defs]: "UDYNLINK_TRIE_NONE = 0xFFFF"

definition UDYNLINK_TRIE_FLAG_LEAF :: u16 where
  [acc_defs]: "UDYNLINK_TRIE_FLAG_LEAF = 0x0100"

record udynlink_trie_node_t =
  tn_ch_flags :: u16
  tn_sibling :: u16
  tn_child :: u16
  tn_leaf_index :: u16

record udynlink_trie_table_t =
  tt_num_nodes :: u32
  tt_num_leaves :: u32
  tt_root_child :: u16
  tt_nodes :: addr
  tt_leaf_addrs :: addr

definition trie_node :: "mem \<Rightarrow> udynlink_trie_table_t \<Rightarrow> u16 \<Rightarrow> udynlink_trie_node_t" where
  "trie_node m t i =
     (let a = tt_nodes t + 8 * ucast i
      in \<lparr>tn_ch_flags = rd16 m a, tn_sibling = rd16 m (a + 2), tn_child = rd16 m (a + 4),
          tn_leaf_index = rd16 m (a + 6)\<rparr>)"

definition trie_node_ch :: "udynlink_trie_node_t \<Rightarrow> u8" where
  [acc_defs]: "trie_node_ch n = ucast (tn_ch_flags n AND 0xFF)"

text \<open>The inner loop: the index of the sibling that carries the character;
  \<open>UDYNLINK_TRIE_NONE\<close> both for the early return on a larger character and for the end of
  the list, which the caller turns into the same null result.\<close>

partial_function (option) trie_sibling ::
  "mem \<Rightarrow> udynlink_trie_table_t \<Rightarrow> u8 \<Rightarrow> u16 \<Rightarrow> u16 option" where
  "trie_sibling m t c cur =
     (if cur = UDYNLINK_TRIE_NONE then Some UDYNLINK_TRIE_NONE
      else let n = trie_node m t cur
      in if trie_node_ch n = c then Some cur
         else if trie_node_ch n > c then Some UDYNLINK_TRIE_NONE
         else trie_sibling m t c (tn_sibling n))"

text \<open>The outer loop over the name: the node matched last (\<open>UDYNLINK_TRIE_NONE\<close> once a
  character has no node, where the code returns).\<close>

fun trie_walk ::
  "mem \<Rightarrow> udynlink_trie_table_t \<Rightarrow> u16 \<Rightarrow> u16 \<Rightarrow> u8 list \<Rightarrow> u16 option" where
  "trie_walk m t next_level matched_idx [] = Some matched_idx"
| "trie_walk m t next_level matched_idx (c # cs) =
     (case trie_sibling m t c next_level of
        None \<Rightarrow> None
      | Some i \<Rightarrow> if i = UDYNLINK_TRIE_NONE then Some UDYNLINK_TRIE_NONE
                  else trie_walk m t (tn_child (trie_node m t i)) i cs)"

definition udynlink_resolve_trie_symbol ::
  "mem \<Rightarrow> udynlink_trie_table_t \<Rightarrow> u8 list \<Rightarrow> addr option" where
  "udynlink_resolve_trie_symbol m t name =
     (if tt_num_nodes t = 0 then Some NULL
      else case trie_walk m t (tt_root_child t) UDYNLINK_TRIE_NONE name of
          None \<Rightarrow> None
        | Some i \<Rightarrow>
            if i \<noteq> UDYNLINK_TRIE_NONE
               \<and> tn_ch_flags (trie_node m t i) AND UDYNLINK_TRIE_FLAG_LEAF \<noteq> 0
            then Some (rd32 m (tt_leaf_addrs t + 4 * ucast (tn_leaf_index (trie_node m t i))))
            else Some NULL)"

section \<open>Host symbol cache\<close>

text \<open>A slot is empty (\<open>name == NULL\<close>) or holds the name pointer it was filled with and the
  address. The string behind the pointer is read when the slot is compared, in the memory of
  that moment.\<close>

record udynlink_host_sym_cache_entry_t =
  ce_name :: addr
  ce_addr :: u32

definition cache_hash :: "u8 list \<Rightarrow> u32" where
  "cache_hash name = foldl (\<lambda>h c. h * 31 + ucast c) 0 name"

text \<open>The cache array and the world; the fallback resolver is a parameter over both (a resolver
  that loads a module may come back to the cache). The slot is chosen before it is called.\<close>

type_synonym 'h cache_state = "udynlink_host_sym_cache_entry_t list \<times> 'h world"

type_synonym 'h fallback = "udynlink_module_t option \<Rightarrow> addr \<Rightarrow> 'h cache_state \<Rightarrow> u32 \<times> 'h cache_state"

definition udynlink_host_sym_cache_lookup ::
  "'h fallback \<Rightarrow> udynlink_module_t option \<Rightarrow> addr \<Rightarrow> 'h cache_state \<Rightarrow> u32 \<times> 'h cache_state" where
  "udynlink_host_sym_cache_lookup fallback p_mod name st =
     (let cache = fst st; m = w_mem (snd st);
          idx = unat (cache_hash (cstr m name)) mod length cache;
          slot = cache ! idx
      in if ce_name slot \<noteq> NULL \<and> strcmp (cstr m (ce_name slot)) (cstr m name) = 0
         then (ce_addr slot, st)
         else let (a, cache', w') = fallback p_mod name st
         in (a, if a \<noteq> 0 then cache'[idx := \<lparr>ce_name = name, ce_addr = a\<rparr>] else cache', w'))"

definition udynlink_host_sym_cache_invalidate ::
  "udynlink_host_sym_cache_entry_t list \<Rightarrow> udynlink_host_sym_cache_entry_t list" where
  "udynlink_host_sym_cache_invalidate cache =
     replicate (length cache) \<lparr>ce_name = NULL, ce_addr = 0\<rparr>"

section \<open>C++ ABI stubs\<close>

datatype cpp_stub =
    cpp_delete | cpp_delete_unsized | cpp_delete_array | cpp_delete_array_unsized
  | cpp_delete_aligned | cpp_delete_array_aligned
  | cpp_new | cpp_new_array | cpp_new_aligned | cpp_new_array_aligned
  | cpp_new_nothrow | cpp_new_array_nothrow | cpp_pure_virtual

definition ascii :: "string \<Rightarrow> u8 list" where
  [acc_defs]: "ascii s = map of_char s"

text \<open>Where the linker put a stub is a parameter.\<close>

definition udynlink_cpp_resolve_abi_symbol :: "(cpp_stub \<Rightarrow> u32) \<Rightarrow> u8 list \<Rightarrow> u32" where
  "udynlink_cpp_resolve_abi_symbol stub_addr name =
     (if strcmp name (ascii ''_ZdlPvj'') = 0 then stub_addr cpp_delete
      else if strcmp name (ascii ''_ZdlPv'') = 0 then stub_addr cpp_delete_unsized
      else if strcmp name (ascii ''_ZdaPvj'') = 0 then stub_addr cpp_delete_array
      else if strcmp name (ascii ''_ZdaPv'') = 0 then stub_addr cpp_delete_array_unsized
      else if strcmp name (ascii ''_ZdlPvjSt11align_val_t'') = 0 then stub_addr cpp_delete_aligned
      else if strcmp name (ascii ''_ZdaPvjSt11align_val_t'') = 0 then stub_addr cpp_delete_array_aligned
      else if strcmp name (ascii ''_Znwj'') = 0 then stub_addr cpp_new
      else if strcmp name (ascii ''_Znaj'') = 0 then stub_addr cpp_new_array
      else if strcmp name (ascii ''_ZnwjSt11align_val_t'') = 0 then stub_addr cpp_new_aligned
      else if strcmp name (ascii ''_ZnajSt11align_val_t'') = 0 then stub_addr cpp_new_array_aligned
      else if strcmp name (ascii ''_ZnwjRKSt9nothrow_t'') = 0 then stub_addr cpp_new_nothrow
      else if strcmp name (ascii ''_ZnajRKSt9nothrow_t'') = 0 then stub_addr cpp_new_array_nothrow
      else if strcmp name (ascii ''__cxa_pure_virtual'') = 0 then stub_addr cpp_pure_virtual
      else 0)"

text \<open>The stubs; \<open>new_align\<close> is the platform's \<open>UDYNLINK_CPP_NEW_ALIGN\<close>. The unused
  arguments (sizes of the delete forms, the nothrow tag) are kept.\<close>

definition udynlink_cpp_delete ::
  "u32 \<Rightarrow> 'h externals \<Rightarrow> addr \<Rightarrow> u32 \<Rightarrow> 'h world \<Rightarrow> 'h world" where
  "udynlink_cpp_delete new_align x p sz w = udynlink_external_free x p NULL new_align 0 w"

definition udynlink_cpp_delete_unsized ::
  "u32 \<Rightarrow> 'h externals \<Rightarrow> addr \<Rightarrow> 'h world \<Rightarrow> 'h world" where
  "udynlink_cpp_delete_unsized new_align x p w = udynlink_external_free x p NULL new_align 0 w"

definition udynlink_cpp_delete_array ::
  "u32 \<Rightarrow> 'h externals \<Rightarrow> addr \<Rightarrow> u32 \<Rightarrow> 'h world \<Rightarrow> 'h world" where
  "udynlink_cpp_delete_array new_align x p sz w = udynlink_external_free x p NULL new_align 0 w"

definition udynlink_cpp_delete_array_unsized ::
  "u32 \<Rightarrow> 'h externals \<Rightarrow> addr \<Rightarrow> 'h world \<Rightarrow> 'h world" where
  "udynlink_cpp_delete_array_unsized new_align x p w = udynlink_external_free x p NULL new_align 0 w"

definition udynlink_cpp_delete_array_aligned ::
  "'h externals \<Rightarrow> addr \<Rightarrow> u32 \<Rightarrow> u32 \<Rightarrow> 'h world \<Rightarrow> 'h world" where
  "udynlink_cpp_delete_array_aligned x p sz al w = udynlink_external_free x p NULL al 0 w"

definition udynlink_cpp_delete_aligned ::
  "'h externals \<Rightarrow> addr \<Rightarrow> u32 \<Rightarrow> u32 \<Rightarrow> 'h world \<Rightarrow> 'h world" where
  "udynlink_cpp_delete_aligned x p sz al w = udynlink_external_free x p NULL al 0 w"

definition udynlink_cpp_new ::
  "u32 \<Rightarrow> 'h externals \<Rightarrow> u32 \<Rightarrow> 'h world \<Rightarrow> addr \<times> 'h world" where
  "udynlink_cpp_new new_align x sz w = udynlink_external_malloc x sz NULL new_align 0 w"

definition udynlink_cpp_new_aligned ::
  "'h externals \<Rightarrow> u32 \<Rightarrow> u32 \<Rightarrow> 'h world \<Rightarrow> addr \<times> 'h world" where
  "udynlink_cpp_new_aligned x sz al w = udynlink_external_malloc x sz NULL al 0 w"

definition udynlink_cpp_new_nothrow ::
  "u32 \<Rightarrow> 'h externals \<Rightarrow> u32 \<Rightarrow> addr \<Rightarrow> 'h world \<Rightarrow> addr \<times> 'h world" where
  "udynlink_cpp_new_nothrow new_align x sz nt w = udynlink_external_malloc x sz NULL new_align 0 w"

definition udynlink_cpp_new_array ::
  "u32 \<Rightarrow> 'h externals \<Rightarrow> u32 \<Rightarrow> 'h world \<Rightarrow> addr \<times> 'h world" where
  "udynlink_cpp_new_array new_align x sz w = udynlink_external_malloc x sz NULL new_align 0 w"

definition udynlink_cpp_new_array_aligned ::
  "'h externals \<Rightarrow> u32 \<Rightarrow> u32 \<Rightarrow> 'h world \<Rightarrow> addr \<times> 'h world" where
  "udynlink_cpp_new_array_aligned x sz al w = udynlink_external_malloc x sz NULL al 0 w"

definition udynlink_cpp_new_array_nothrow ::
  "u32 \<Rightarrow> 'h externals \<Rightarrow> u32 \<Rightarrow> addr \<Rightarrow> 'h world \<Rightarrow> addr \<times> 'h world" where
  "udynlink_cpp_new_array_nothrow new_align x sz nt w = udynlink_external_malloc x sz NULL new_align 0 w"

end
