(* ===== verification/HostSpec.thy ===== *)
theory HostSpec
  imports HostTables Images
begin

text \<open>
  What the host's lookup tables promise. The hash table and the trie are read from memory as the
  generator emits them; each is related to the list or the tree it stores, and the walk of the
  code is shown to end and to return what the stored structure holds. The symbol cache is
  transparent: whatever lookups went through it, it answers as the resolver behind it.
\<close>

section \<open>Hash table\<close>

text \<open>One entry of the table: name, address and hash value agree. The lowest bit of a hash value
  marks the end of a chain and is not compared.\<close>

definition hash_entry :: "mem \<Rightarrow> udynlink_hash_table_t \<Rightarrow> u32 \<Rightarrow> u8 list \<times> addr \<Rightarrow> bool" where
  "hash_entry m t idx e \<longleftrightarrow>
     cstr m (ht_strtab t + array32 m (ht_strtab_offsets t) idx) = fst e
     \<and> array32 m (ht_sym_addrs t) idx = snd e
     \<and> array32 m (ht_hash_values t) (idx - ht_symoffset t) OR 1 = gnu_hash (fst e) OR 1"

definition chain_end :: "mem \<Rightarrow> udynlink_hash_table_t \<Rightarrow> u32 \<Rightarrow> bool" where
  "chain_end m t idx \<longleftrightarrow> array32 m (ht_hash_values t) (idx - ht_symoffset t) AND 1 \<noteq> 0"

fun chain_at :: "mem \<Rightarrow> udynlink_hash_table_t \<Rightarrow> u32 \<Rightarrow> (u8 list \<times> addr) list \<Rightarrow> bool" where
  "chain_at m t idx [] = False"
| "chain_at m t idx (e # es) =
     (hash_entry m t idx e \<and> (if es = [] then chain_end m t idx else \<not> chain_end m t idx \<and> chain_at m t (idx + 1) es))"

definition found :: "(u8 list \<times> addr) list \<Rightarrow> u8 list \<Rightarrow> addr" where
  "found es name = (case map_of es name of None \<Rightarrow> NULL | Some a \<Rightarrow> a)"

lemma hash_chain_found: "chain_at m t idx es \<Longrightarrow> hash_chain m t (gnu_hash name) name idx = Some (found es name)"
proof (induction es arbitrary: idx)
  case (Cons e es)
  then have e: "hash_entry m t idx e" by simp
  show ?case
  proof (cases "fst e = name")
    case True
    then show ?thesis using e by (subst hash_chain.simps) (auto simp: hash_entry_def found_def Let_def)
  next
    case False
    then have "hash_chain m t (gnu_hash name) name idx =
        (if chain_end m t idx then Some NULL else hash_chain m t (gnu_hash name) name (idx + 1))"
      using e by (subst hash_chain.simps) (simp add: hash_entry_def chain_end_def Let_def)
    moreover have "found (e # es) name = found es name" using False by (simp add: found_def)
    ultimately show ?thesis using Cons by (cases "es = []") (auto simp: found_def)
  qed
qed simp

text \<open>The table as a whole: every bucket is empty or starts a chain of symbols of the table, and
  every symbol lies on the chain of its bucket and passes the Bloom filter.\<close>

definition bucket_head :: "mem \<Rightarrow> udynlink_hash_table_t \<Rightarrow> nat \<Rightarrow> u32" where
  "bucket_head m t b = array32 m (ht_buckets t) (of_nat b)"

definition bloom_passes :: "mem \<Rightarrow> udynlink_hash_table_t \<Rightarrow> u32 \<Rightarrow> bool" where
  "bloom_passes m t h \<longleftrightarrow>
     array32 m (ht_bloom t) ((h div 32) AND (ht_bloom_size t - 1)) AND bloom_mask t h = bloom_mask t h"

definition hash_table_ok ::
  "mem \<Rightarrow> udynlink_hash_table_t \<Rightarrow> (u8 list \<times> addr) list \<Rightarrow> (u8 list \<times> addr) list list \<Rightarrow> bool" where
  "hash_table_ok m t syms bkts \<longleftrightarrow>
     ht_nbuckets t \<noteq> 0 \<and> length bkts = unat (ht_nbuckets t) \<and> distinct (map fst syms)
     \<and> (\<forall>b \<in> set [0..<length bkts].
          if bkts ! b = [] then bucket_head m t b < ht_symoffset t
          else ht_symoffset t \<le> bucket_head m t b \<and> chain_at m t (bucket_head m t b) (bkts ! b)
               \<and> set (bkts ! b) \<subseteq> set syms)
     \<and> (\<forall>s \<in> set syms. s \<in> set (bkts ! unat (gnu_hash (fst s) mod ht_nbuckets t)) \<and> bloom_passes m t (gnu_hash (fst s)))"

lemma bucket_index:
  assumes "ht_nbuckets t \<noteq> 0" and "length bkts = unat (ht_nbuckets t)"
  shows "unat (h mod ht_nbuckets t) < length bkts"
  using assms by (simp add: unat_mod unat_gt_0)

lemma hash_lookup:
  "udynlink_resolve_hashed_symbol m t name =
     (let b = unat (gnu_hash name mod ht_nbuckets t)
      in if \<not> bloom_passes m t (gnu_hash name) \<or> bucket_head m t b < ht_symoffset t then Some NULL
         else hash_chain m t (gnu_hash name) name (bucket_head m t b))"
  by (auto simp: udynlink_resolve_hashed_symbol_def bloom_passes_def bucket_head_def Let_def)

text \<open>C30: on a well-formed table the hashed lookup ends and returns the address the table holds
  for the name, or NULL when it holds none: neither the Bloom filter nor the bucket nor the
  chain loses or invents a symbol.\<close>

theorem hashed_lookup_correct:
  assumes ok: "hash_table_ok m t syms bkts"
  shows "udynlink_resolve_hashed_symbol m t name = Some (found syms name)"
proof -
  let ?h = "gnu_hash name" and ?b = "unat (gnu_hash name mod ht_nbuckets t)"
  have d: "distinct (map fst syms)" and b: "?b < length bkts"
    using ok bucket_index [of t bkts ?h] by (auto simp: hash_table_ok_def)
  have at: "chain_at m t (bucket_head m t ?b) (bkts ! ?b)" and sub: "set (bkts ! ?b) \<subseteq> set syms"
    if "\<not> bucket_head m t ?b < ht_symoffset t"
    using ok b that by (auto simp: hash_table_ok_def split: if_splits)
  have empty: "bkts ! ?b = []" if "bucket_head m t ?b < ht_symoffset t"
    using ok b that by (auto simp: hash_table_ok_def split: if_splits)
  show ?thesis
  proof (cases "map_of syms name")
    case None
    have "found (bkts ! ?b) name = NULL" if "\<not> bucket_head m t ?b < ht_symoffset t"
    proof -
      have "name \<notin> fst ` set (bkts ! ?b)" using None sub [OF that] by (auto simp: map_of_eq_None_iff)
      then show ?thesis by (simp add: found_def iffD2 [OF map_of_eq_None_iff])
    qed
    moreover have "found syms name = NULL" using None by (simp add: found_def)
    ultimately show ?thesis
      using hash_chain_found [OF at, of name] by (cases "bucket_head m t ?b < ht_symoffset t") (simp_all add: hash_lookup Let_def)
  next
    case (Some a)
    then have s: "(name, a) \<in> set syms" by (rule map_of_SomeD)
    then have c: "(name, a) \<in> set (bkts ! ?b)" and bl: "bloom_passes m t ?h"
      using ok by (auto simp: hash_table_ok_def)
    then have ge: "\<not> bucket_head m t ?b < ht_symoffset t" using empty by auto
    obtain a' where a': "map_of (bkts ! ?b) name = Some a'" using weak_map_of_SomeI [OF c] by blast
    then have "(name, a') \<in> set syms" using sub [OF ge] map_of_SomeD [OF a'] by blast
    then have "a' = a" using s by (rule_tac eq_key_imp_eq_value [OF d])
    then show ?thesis using hash_chain_found [OF at [OF ge], of name] bl ge a' Some by (simp add: hash_lookup found_def Let_def)
  qed
qed

section \<open>Trie\<close>

text \<open>The stored structure: a node with its character, the address of the symbol that ends there,
  its first child and its next sibling.\<close>

datatype trie = Tip | Node u8 "addr option" trie trie

fun entries :: "trie \<Rightarrow> u8 list \<Rightarrow> addr option" where
  "entries Tip name = None"
| "entries (Node c a ch sb) [] = None"
| "entries (Node c a ch sb) (x # xs) =
     (if x = c then (if xs = [] then a else entries ch xs) else entries sb (x # xs))"

fun level_above :: "u8 \<Rightarrow> trie \<Rightarrow> bool" where
  "level_above c Tip = True"
| "level_above c (Node d a ch sb) = (c < d \<and> level_above c sb)"

fun sorted_trie :: "trie \<Rightarrow> bool" where
  "sorted_trie Tip = True"
| "sorted_trie (Node c a ch sb) = (level_above c sb \<and> sorted_trie ch \<and> sorted_trie sb)"

text \<open>The node array stores a trie at an index.\<close>

fun stored :: "mem \<Rightarrow> udynlink_trie_table_t \<Rightarrow> u16 \<Rightarrow> trie \<Rightarrow> bool" where
  "stored m t i Tip = (i = UDYNLINK_TRIE_NONE)"
| "stored m t i (Node c a ch sb) =
     (i \<noteq> UDYNLINK_TRIE_NONE \<and> trie_node_ch (trie_node m t i) = c
      \<and> (case a of
           None \<Rightarrow> tn_ch_flags (trie_node m t i) AND UDYNLINK_TRIE_FLAG_LEAF = 0
         | Some x \<Rightarrow> tn_ch_flags (trie_node m t i) AND UDYNLINK_TRIE_FLAG_LEAF \<noteq> 0
             \<and> rd32 m (tt_leaf_addrs t + 4 * ucast (tn_leaf_index (trie_node m t i))) = x)
      \<and> stored m t (tn_child (trie_node m t i)) ch \<and> stored m t (tn_sibling (trie_node m t i)) sb)"

text \<open>The sibling scan finds the node of a character, or stops at the first larger one.\<close>

fun at_char :: "u8 \<Rightarrow> trie \<Rightarrow> trie" where
  "at_char c Tip = Tip"
| "at_char c (Node d a ch sb) = (if c = d then Node d a ch sb else at_char c sb)"

lemma at_char_below: "level_above d T \<Longrightarrow> c \<le> d \<Longrightarrow> at_char c T = Tip"
  by (induction T) auto

lemma trie_sibling_found:
  "stored m t i T \<Longrightarrow> sorted_trie T \<Longrightarrow> \<exists>j. trie_sibling m t c i = Some j \<and> stored m t j (at_char c T)"
proof (induction T arbitrary: i)
  case Tip
  then show ?case by (subst trie_sibling.simps) simp
next
  case (Node d a ch sb)
  show ?case
  proof (cases "d > c")
    case True
    then have "at_char c sb = Tip" using Node.prems(2) by (intro at_char_below [of d]) auto
    then show ?thesis using Node.prems True by (subst trie_sibling.simps) (auto simp: Let_def)
  next
    case False
    then show ?thesis using Node by (subst trie_sibling.simps) (auto simp: Let_def)
  qed
qed

lemma entries_at_char: "entries (at_char x T) (x # xs) = entries T (x # xs)"
  by (induction T) auto


lemma trie_walk_found:
  "stored m t i T \<Longrightarrow> sorted_trie T \<Longrightarrow> xs \<noteq> [] \<Longrightarrow>
     \<exists>j S. trie_walk m t i k xs = Some j \<and> stored m t j S
       \<and> entries T xs = (case S of Tip \<Rightarrow> None | Node c a ch sb \<Rightarrow> a)"
proof (induction xs arbitrary: i k T)
  case (Cons x xs)
  obtain j where j: "trie_sibling m t x i = Some j" "stored m t j (at_char x T)"
    using trie_sibling_found [OF Cons.prems(1,2)] by blast
  show ?case
  proof (cases "at_char x T")
    case Tip
    then have "entries T (x # xs) = None" using entries_at_char [of x T xs] by simp
    then show ?thesis using j Tip by (intro exI [of _ j] exI [of _ Tip]) simp
  next
    case (Node c a ch sb)
    have c: "c = x" using Node by (induction T) (auto split: if_splits)
    have e: "entries T (x # xs) = (if xs = [] then a else entries ch xs)"
      using entries_at_char [of x T xs] Node c by simp
    have ch: "sorted_trie ch" using Node Cons.prems(2) by (induction T) (auto split: if_splits)
    have st: "stored m t (tn_child (trie_node m t j)) ch" "j \<noteq> UDYNLINK_TRIE_NONE" using j(2) Node by auto
    show ?thesis
    proof (cases "xs = []")
      case True
      then show ?thesis using j Node st(2) e by (intro exI [of _ j] exI [of _ "Node c a ch sb"]) simp
    next
      case False
      then show ?thesis using Cons.IH [OF st(1) ch False, of j] j(1) st(2) e by simp
    qed
  qed
qed simp

text \<open>C31: on a node array that stores a trie with sorted siblings the walk ends and returns the
  address of the symbol spelled by the name, or NULL when the trie has none: the early exit on a
  larger character loses nothing. The empty name has no symbol.\<close>

theorem trie_lookup_correct:
  assumes "stored m t (tt_root_child t) T" and "sorted_trie T" and "tt_num_nodes t = 0 \<Longrightarrow> T = Tip"
  shows "udynlink_resolve_trie_symbol m t name = Some (case entries T name of None \<Rightarrow> NULL | Some a \<Rightarrow> a)"
proof (cases "tt_num_nodes t = 0 \<or> name = []")
  case True
  have "entries T [] = None" by (cases T) simp_all
  then show ?thesis using True assms(3) by (auto simp: udynlink_resolve_trie_symbol_def)
next
  case False
  then obtain j S where "trie_walk m t (tt_root_child t) UDYNLINK_TRIE_NONE name = Some j" "stored m t j S"
    "entries T name = (case S of Tip \<Rightarrow> None | Node c a ch sb \<Rightarrow> a)"
    using trie_walk_found [OF assms(1,2), of name] by blast
  then show ?thesis using False by (cases S) (auto simp: udynlink_resolve_trie_symbol_def split: option.splits)
qed

section \<open>Symbol cache\<close>

text \<open>The strings behind the name pointers in the cache are the same in both memories.\<close>

definition names_kept :: "udynlink_host_sym_cache_entry_t list \<Rightarrow> mem \<Rightarrow> mem \<Rightarrow> bool" where
  "names_kept cache m m' \<longleftrightarrow>
     (\<forall>e \<in> set cache. ce_name e \<noteq> NULL \<longrightarrow> cstr m' (ce_name e) = cstr m (ce_name e))"

text \<open>A fallback resolver that answers by the string of the name alone and does not come back to the
  cache.\<close>

definition resolver_for :: "(u8 list \<Rightarrow> u32) \<Rightarrow> 'h fallback \<Rightarrow> bool" where
  "resolver_for f fb \<longleftrightarrow> (\<forall>pm name st.
     fst (fb pm name st) = f (cstr (w_mem (snd st)) name) \<and> fst (snd (fb pm name st)) = fst st)"

text \<open>The life of a cache: lookups, invalidations, and whatever else the program does to its memory.
  The answers are listed with the string each lookup was asked for.\<close>

datatype 'h cache_event =
    Look_up "udynlink_module_t option" addr
  | Invalidate
  | Elsewhere "'h world \<Rightarrow> 'h world"

fun cache_step :: "'h fallback \<Rightarrow> 'h cache_event \<Rightarrow> 'h cache_state \<Rightarrow> 'h cache_state" where
  "cache_step fb (Look_up pm name) st = snd (udynlink_host_sym_cache_lookup fb pm name st)"
| "cache_step fb Invalidate st = (udynlink_host_sym_cache_invalidate (fst st), snd st)"
| "cache_step fb (Elsewhere g) st = (fst st, g (snd st))"

fun cache_answers :: "'h fallback \<Rightarrow> 'h cache_event list \<Rightarrow> 'h cache_state \<Rightarrow> (u8 list \<times> u32) list" where
  "cache_answers fb [] st = []"
| "cache_answers fb (ev # evs) st =
     (case ev of
        Look_up pm name \<Rightarrow>
          [(cstr (w_mem (snd st)) name, fst (udynlink_host_sym_cache_lookup fb pm name st))]
      | _ \<Rightarrow> [])
     @ cache_answers fb evs (cache_step fb ev st)"

text \<open>What everybody owes the cache: through every step the strings stay whose pointers are in the
  cache after it.\<close>

fun names_stay :: "'h fallback \<Rightarrow> 'h cache_event list \<Rightarrow> 'h cache_state \<Rightarrow> bool" where
  "names_stay fb [] st \<longleftrightarrow> True"
| "names_stay fb (ev # evs) st \<longleftrightarrow>
     (let st' = cache_step fb ev st
      in names_kept (fst st') (w_mem (snd st)) (w_mem (snd st')) \<and> names_stay fb evs st')"

definition cache_ok :: "(u8 list \<Rightarrow> u32) \<Rightarrow> 'h cache_state \<Rightarrow> bool" where
  "cache_ok f st \<longleftrightarrow> fst st \<noteq> []
     \<and> (\<forall>e \<in> set (fst st). ce_name e \<noteq> NULL \<longrightarrow> ce_addr e = f (cstr (w_mem (snd st)) (ce_name e)))"

lemma cache_ok_kept: "cache_ok f (c, w) \<Longrightarrow> names_kept c (w_mem w) (w_mem w') \<Longrightarrow> cache_ok f (c, w')"
  by (auto simp: cache_ok_def names_kept_def)

lemma cache_ok_invalidated: "c \<noteq> [] \<Longrightarrow> cache_ok f (udynlink_host_sym_cache_invalidate c, w)"
  by (auto simp: cache_ok_def udynlink_host_sym_cache_invalidate_def)

lemma cache_ok_stored:
  assumes "cache_ok f (c, w)"
  shows "cache_ok f (c[i := \<lparr>ce_name = name, ce_addr = f (cstr (w_mem w) name)\<rparr>], w)"
  using assms set_update_subset_insert [of c i] by (fastforce simp: cache_ok_def)

lemma cache_lookup_ok:
  assumes ok: "cache_ok f (c, w)" and fb: "resolver_for f fb"
    and l: "udynlink_host_sym_cache_lookup fb pm name (c, w) = (a, c', w')"
    and kept: "names_kept c' (w_mem w) (w_mem w')"
  shows "a = f (cstr (w_mem w) name)" and "cache_ok f (c', w')"
proof -
  let ?i = "unat (cache_hash (cstr (w_mem w) name)) mod length c"
  have "?i < length c" using ok by (auto simp: cache_ok_def)
  then have at: "ce_name (c ! ?i) \<noteq> NULL \<Longrightarrow> ce_addr (c ! ?i) = f (cstr (w_mem w) (ce_name (c ! ?i)))"
    using ok nth_mem [of ?i c] by (auto simp: cache_ok_def)
  obtain b d v where r: "fb pm name (c, w) = (b, d, v)" by (metis prod_cases3)
  have "b = f (cstr (w_mem w) name) \<and> d = c" using fb r unfolding resolver_for_def by (metis fst_conv snd_conv)
  then show "a = f (cstr (w_mem w) name)" and "cache_ok f (c', w')"
    using l at cache_ok_kept [OF _ kept] cache_ok_stored [OF ok, of ?i name] ok
    by (auto simp: udynlink_host_sym_cache_lookup_def Let_def r split: if_splits)
qed

lemma cache_step_ok:
  assumes "cache_ok f st" and "resolver_for f fb" and "names_stay fb (ev # evs) st"
  shows "cache_ok f (cache_step fb ev st)"
proof (cases ev)
  case (Look_up pm name)
  obtain c w a c' w' where "st = (c, w)" "udynlink_host_sym_cache_lookup fb pm name st = (a, c', w')"
    by (metis prod_cases3 surj_pair)
  then show ?thesis using assms cache_lookup_ok(2) [of f c w fb pm name] by (simp add: Look_up Let_def)
next
  case Invalidate
  then show ?thesis using assms(1) cache_ok_invalidated [of "fst st" f "snd st"] by (simp add: cache_ok_def)
next
  case (Elsewhere g)
  then show ?thesis using assms cache_ok_kept [of f "fst st" "snd st" "g (snd st)"] by (simp add: Let_def)
qed

text \<open>C32: the symbol cache is transparent: from an invalidated cache, and through any sequence of
  lookups, invalidations and other changes to memory, each lookup answers what the resolver
  behind the cache answers for the string asked for, whatever names collide in a slot. The
  resolver's answer depends on the string alone and it does not come back to the cache; no step
  changes a string whose pointer is in the cache after it (the cache keeps the caller's pointer,
  and an invalidation lets go of all of them).\<close>

theorem cache_transparent:
  assumes "resolver_for f fb" and "cache \<noteq> []"
    and "names_stay fb evs (udynlink_host_sym_cache_invalidate cache, w)"
  shows "\<forall>(string, answer) \<in> set (cache_answers fb evs (udynlink_host_sym_cache_invalidate cache, w)).
    answer = f string"
proof -
  have "\<forall>(string, answer) \<in> set (cache_answers fb evs st). answer = f string"
    if "cache_ok f st" "names_stay fb evs st" for st
    using that
  proof (induction evs arbitrary: st)
    case (Cons ev evs)
    have rest: "\<forall>(string, answer) \<in> set (cache_answers fb evs (cache_step fb ev st)). answer = f string"
      using Cons.IH [OF cache_step_ok [OF Cons.prems(1) assms(1) Cons.prems(2)]] Cons.prems(2) by (simp add: Let_def)
    show ?case
    proof (cases ev)
      case (Look_up pm name)
      obtain c w a c' w' where l: "st = (c, w)" "udynlink_host_sym_cache_lookup fb pm name st = (a, c', w')"
        by (metis prod_cases3 surj_pair)
      then have "a = f (cstr (w_mem w) name)"
        using Cons.prems cache_lookup_ok(1) [of f c w fb pm name a c' w'] assms(1) by (simp add: Look_up Let_def)
      then show ?thesis using rest l by (simp add: Look_up)
    qed (use rest in auto)
  qed simp
  then show ?thesis using cache_ok_invalidated [OF assms(2)] assms(3) by blast
qed

section \<open>Concrete tables\<close>

text \<open>The symbols \<open>a\<close> and \<open>b\<close> in one bucket: Bloom filter, bucket, hash values, addresses, string
  offsets, strings. The head of the bucket is an argument.\<close>

definition hash_mem :: "u32 \<Rightarrow> mem" where
  "hash_mem head = mem_words 0x4000
     [0xC1, head, 177670, 177671, 0x100, 0x200, 0, 2, 0x00620061]"

definition hash_table :: udynlink_hash_table_t where
  "hash_table = \<lparr>ht_nbuckets = 1, ht_symoffset = 0, ht_bloom_size = 1, ht_bloom_shift = 26, ht_bloom = 0x4000,
     ht_buckets = 0x4004, ht_hash_values = 0x4008, ht_sym_addrs = 0x4010, ht_strtab = 0x4020, ht_strtab_offsets = 0x4018\<rparr>"

lemma hash_arrays: "array32 (hash_mem head) 0x4000 0 = 0xC1" "array32 (hash_mem head) 0x4004 0 = head"
  "array32 (hash_mem head) 0x4008 0 = 177670" "array32 (hash_mem head) 0x4008 1 = 177671"
  "array32 (hash_mem head) 0x4010 0 = 0x100" "array32 (hash_mem head) 0x4010 1 = 0x200"
  "array32 (hash_mem head) 0x4018 0 = 0" "array32 (hash_mem head) 0x4018 1 = 2"
  by (simp_all add: array32_def hash_mem_def words_eval)

lemma cstr_one: "m a \<noteq> 0 \<Longrightarrow> m (a + 1) = 0 \<Longrightarrow> cstr m a = [m a]"
  by (simp add: cstr_def cstr_n.simps)

lemma hash_strings: "cstr (hash_mem head) 0x4020 = [0x61]" "cstr (hash_mem head) 0x4022 = [0x62]"
  by (subst cstr_one; simp add: hash_mem_def mem_words_def Let_def)+

lemma hash_names: "gnu_hash [0x61] = 177670" "gnu_hash [0x62] = 177671"
  by (simp_all add: gnu_hash_def)

lemma hash_entries: "hash_entry (hash_mem head) hash_table 0 ([0x61], 0x100)"
  "hash_entry (hash_mem head) hash_table 1 ([0x62], 0x200)"
  "\<not> chain_end (hash_mem head) hash_table 0" "chain_end (hash_mem head) hash_table 1"
  by (simp_all add: hash_entry_def chain_end_def hash_table_def hash_arrays hash_strings hash_names)


lemma hash_table_fine: "hash_table_ok (hash_mem 0) hash_table [([0x61], 0x100), ([0x62], 0x200)] [[([0x61], 0x100), ([0x62], 0x200)]]"
proof -
  have "chain_at (hash_mem 0) hash_table 0 [([0x61], 0x100), ([0x62], 0x200)]"
    using hash_entries [of 0] by simp
  then show ?thesis
    by (simp add: hash_table_ok_def bucket_head_def bloom_passes_def hash_names)
      (simp add: hash_table_def hash_arrays bloom_mask_def)
qed

theorem hashed_lookup_correct_witness:
  "udynlink_resolve_hashed_symbol (hash_mem 0) hash_table [0x62] = Some 0x200
   \<and> udynlink_resolve_hashed_symbol (hash_mem 0) hash_table [0x63] = Some NULL"
  by (simp add: hashed_lookup_correct [OF hash_table_fine] found_def)

text \<open>The generator takes a bucket head of 0 for one not set yet, so the second symbol of the
  bucket that starts the table overwrites the head: the table it emits for \<open>a\<close> and \<open>b\<close> has the
  head 1, and the first symbol is no longer found.\<close>

lemma emitted_table_loses_first:
  "udynlink_resolve_hashed_symbol (hash_mem 1) hash_table [0x61] = Some NULL"
  "udynlink_resolve_hashed_symbol (hash_mem 1) hash_table [0x62] = Some 0x200"
proof -
  have c: "chain_at (hash_mem 1) hash_table 1 [([0x62], 0x200)]" using hash_entries [of 1] by simp
  have b: "bucket_head (hash_mem 1) hash_table 0 = 1" "ht_symoffset hash_table = 0" "h mod ht_nbuckets hash_table = 0"
    "bloom_passes (hash_mem 1) hash_table (gnu_hash [0x61])" "bloom_passes (hash_mem 1) hash_table (gnu_hash [0x62])" for h
    by (simp_all add: bucket_head_def bloom_passes_def hash_table_def hash_arrays hash_names bloom_mask_def)
  show "udynlink_resolve_hashed_symbol (hash_mem 1) hash_table [0x61] = Some NULL"
    "udynlink_resolve_hashed_symbol (hash_mem 1) hash_table [0x62] = Some 0x200"
    using hash_chain_found [OF c] by (simp_all add: hash_lookup b found_def)
qed

text \<open>The trie of \<open>a\<close>, \<open>ab\<close> and \<open>c\<close>, as the generator lays it out.\<close>

definition trie_mem :: mem where
  "trie_mem = mem_words 0x5000
     [0x00020361, 0x00000001, 0xFFFF0162, 0x0001FFFF, 0xFFFF0163, 0x0002FFFF, 0x100, 0x200, 0x300]"

definition trie_table :: udynlink_trie_table_t where
  "trie_table = \<lparr>tt_num_nodes = 3, tt_num_leaves = 3, tt_root_child = 0, tt_nodes = 0x5000, tt_leaf_addrs = 0x5018\<rparr>"

definition abc_trie :: trie where
  "abc_trie = Node 0x61 (Some 0x100) (Node 0x62 (Some 0x200) Tip Tip) (Node 0x63 (Some 0x300) Tip Tip)"

lemma trie_nodes: "trie_node trie_mem trie_table 0 = \<lparr>tn_ch_flags = 0x361, tn_sibling = 2, tn_child = 1, tn_leaf_index = 0\<rparr>"
  "trie_node trie_mem trie_table 1 = \<lparr>tn_ch_flags = 0x162, tn_sibling = 0xFFFF, tn_child = 0xFFFF, tn_leaf_index = 1\<rparr>"
  "trie_node trie_mem trie_table 2 = \<lparr>tn_ch_flags = 0x163, tn_sibling = 0xFFFF, tn_child = 0xFFFF, tn_leaf_index = 2\<rparr>"
  "rd32 trie_mem 0x5018 = 0x100" "rd32 trie_mem 0x501C = 0x200" "rd32 trie_mem 0x5020 = 0x300"
  by (simp_all add: trie_node_def trie_table_def trie_mem_def words_eval Let_def)

lemma trie_fields: "tt_root_child trie_table = 0" "tt_leaf_addrs trie_table = 0x5018" "tt_num_nodes trie_table = 3"
  by (simp_all add: trie_table_def)

theorem trie_lookup_correct_witness:
  "udynlink_resolve_trie_symbol trie_mem trie_table [0x61, 0x62] = Some 0x200
   \<and> udynlink_resolve_trie_symbol trie_mem trie_table [0x62] = Some NULL"
proof -
  have "stored trie_mem trie_table (tt_root_child trie_table) abc_trie"
    by (simp add: abc_trie_def trie_nodes trie_fields acc_defs)
  from trie_lookup_correct [OF this] show ?thesis
    by (simp add: abc_trie_def trie_fields)
qed

text \<open>A buffer at \<open>0x100\<close> that holds a one-letter name, and a resolver that knows the letters.\<close>

definition letter_in :: "u8 \<Rightarrow> 'h world \<Rightarrow> 'h world" where
  "letter_in c w = w\<lparr>w_mem := (\<lambda>_. 0)(0x100 := c)\<rparr>"

definition letters :: "'h fallback" where
  "letters = (\<lambda>pm name st. (0x1000 + ucast (hd (cstr (w_mem (snd st)) name)), st))"

lemma letter_read: "c \<noteq> 0 \<Longrightarrow> cstr (w_mem (letter_in c w)) 0x100 = [c]"
  by (subst cstr_one) (simp_all add: letter_in_def)

lemma letters_resolver: "resolver_for (\<lambda>s. 0x1000 + ucast (hd s)) letters"
  by (simp add: resolver_for_def letters_def)

definition empty_cache :: "udynlink_host_sym_cache_entry_t list" where
  "empty_cache = udynlink_host_sym_cache_invalidate (replicate 16 \<lparr>ce_name = NULL, ce_addr = 0\<rparr>)"

lemmas letter_run = empty_cache_def udynlink_host_sym_cache_lookup_def udynlink_host_sym_cache_invalidate_def
  letter_read letters_def cache_hash_def acc_defs

theorem cache_transparent_witness:
  "cache_answers letters
      [Look_up None 0x100, Look_up None 0x100, Invalidate, Elsewhere (letter_in 0x71), Look_up None 0x100]
      (empty_cache, letter_in 0x61 (start_world plain_mem))
    = [([0x61], 0x1061), ([0x61], 0x1061), ([0x71], 0x1071)]" (is "?r = _")
proof -
  have ok: "\<forall>(string, answer) \<in> set ?r. answer = 0x1000 + ucast (hd string)"
    unfolding empty_cache_def
    by (rule cache_transparent [OF letters_resolver]) (simp_all add: letter_run names_kept_def Let_def)
  have strings: "map fst ?r = [[0x61], [0x61], [0x71]]" by (simp add: letter_run)
  have "map fst r = [s, t, u] \<Longrightarrow> \<forall>(string, answer) \<in> set r. answer = 0x1000 + ucast (hd string)
      \<Longrightarrow> r = [(s, 0x1000 + ucast (hd s)), (t, 0x1000 + ucast (hd t)), (u, 0x1000 + ucast (hd u))]"
    for r :: "(u8 list \<times> u32) list" and s t u by (auto simp: map_eq_Cons_conv)
  from this [OF strings ok] show ?thesis by (simp del: cache_answers.simps)
qed

text \<open>The slot compares through the pointer it was filled with. When the buffer the name came from is
  reused without an invalidation, for a name of the same slot, the old address is the answer: both
  lookups below pass the same buffer, holding \<open>a\<close> and then \<open>q\<close>.\<close>

lemma stale_name_hit:
  "cache_answers letters [Look_up None 0x100, Elsewhere (letter_in 0x71), Look_up None 0x100]
     (empty_cache, letter_in 0x61 (start_world plain_mem)) = [([0x61], 0x1061), ([0x71], 0x1061)]"
  by (simp add: letter_run)

end
