(* ===== verification/ThunkCode.thy ===== *)
theory ThunkCode
  imports Thunk Images
begin

text \<open>
  What the thunk encoders write, read back by the decoders and executed by a processor: the
  immediates of MOVW and MOVT round-trip, a gateway and a stub written by the loader consist of
  the instructions their comments promise, and a call through them reaches the function with
  the module's base in r9 and returns to the caller with its r9 restored. The processor knows
  the six instruction forms the thunks use.
\<close>

section \<open>The instruction encodings\<close>

lemma bits_16_cases:
  fixes x y :: u16
  assumes "\<And>n. n \<in> {0, 1, 2, 3, 4, 5, 6, 7, 8, 9, 10, 11, 12, 13, 14, 15} \<Longrightarrow> bit x n = bit y n"
  shows "x = y"
proof (rule bit_word_eqI, goal_cases)
  case (1 n)
  then have "n \<in> {0, 1, 2, 3, 4, 5, 6, 7, 8, 9, 10, 11, 12, 13, 14, 15}"
    unfolding insert_iff empty_iff by simp presburger
  then show ?case by (rule assms)
qed

lemma le16_bytes: "(ucast (ucast (hw AND 0xFF :: u16) :: u8) :: u16) OR push_bit 8 (ucast (ucast (drop_bit 8 hw) :: u8)) = hw"
  by (rule bits_16_cases, elim insertE emptyE) (simp_all add: bit_simps)

lemma mov_imm16_encoded: "mov_imm16 (mov_hw0 t x) (mov_hw1 rd x) = x"
  by (rule bits_16_cases, elim insertE emptyE)
    (simp_all add: mov_imm16_def mov_hw0_def mov_hw1_def Let_def bit_simps)

lemma mov_hw0_opcode: "mov_hw0 t x AND 0xFBF0 = (if t then 0xF2C0 else 0xF240)"
  by (rule bits_16_cases, elim insertE emptyE) (simp_all add: mov_hw0_def Let_def bit_simps)

lemma mov_hw1_register: "mov_hw1 rd x AND 0x0F00 = push_bit 8 (rd AND 0xF)"
  by (rule bits_16_cases, elim insertE emptyE) (simp_all add: mov_hw1_def Let_def bit_simps)


lemma read_le16_cong: "(\<And>x. x \<in> blk a 2 \<Longrightarrow> m x = m' x) \<Longrightarrow> read_le16 m a = read_le16 m' a"
  unfolding read_le16_def by simp

lemma encode_mov_imm_reads:
  "read_le16 (encode_mov_imm m d rd x t) d = mov_hw0 t x"
  "read_le16 (encode_mov_imm m d rd x t) (d + 2) = mov_hw1 rd x"
  by (simp_all add: read_le16_def encode_mov_imm_def Let_def le16_bytes)

lemma encode_mov_imm_frame [mem_frame]: "a \<notin> blk d 4 \<Longrightarrow> encode_mov_imm m d rd x t a = m a"
  by (auto simp: encode_mov_imm_def Let_def)

lemma read_le16_write: "read_le16 (m(d := ucast (h AND 0xFF), d + 1 := ucast (drop_bit 8 h))) d = h"
  by (simp add: read_le16_def le16_bytes)

lemma encode_b_n_read: "read_le16 (encode_b_n m d k) d = 0xE000 OR (k AND 0x7FF)"
  unfolding encode_b_n_def Let_def by (rule read_le16_write)

lemma encode_b_n_frame [mem_frame]: "a \<notin> blk d 2 \<Longrightarrow> encode_b_n m d k a = m a"
  by (auto simp: encode_b_n_def Let_def)

section \<open>The processor executing a thunk\<close>

text \<open>The registers the thunks use, and the effect of the six instruction forms in them, as the
  architecture defines them: \<open>push.w {r9, lr}\<close>, \<open>pop.w {r9, pc}\<close>, \<open>blx ip\<close>, \<open>b.n\<close>, and
  \<open>movw\<close>/\<open>movt\<close> to \<open>r9\<close> or \<open>ip\<close>. Any other instruction has no step.\<close>

record cpu =
  c_r9 :: u32
  c_ip :: u32
  c_lr :: u32
  c_sp :: u32
  c_pc :: u32

definition write_reg :: "u16 \<Rightarrow> (u32 \<Rightarrow> u32) \<Rightarrow> cpu \<Rightarrow> cpu option" where
  "write_reg rd v c =
     (if rd = 9 then Some (c\<lparr>c_r9 := v (c_r9 c)\<rparr>)
      else if rd = 12 then Some (c\<lparr>c_ip := v (c_ip c)\<rparr>) else None)"

definition b_offset :: "u16 \<Rightarrow> int" where
  "b_offset hw = 2 * signed_take_bit 10 (uint hw)"

definition cpu_step :: "mem \<times> cpu \<Rightarrow> (mem \<times> cpu) option" where
  "cpu_step mc =
     (let (m, c) = mc; pc = c_pc c; sp = c_sp c; hw0 = read_le16 m pc; hw1 = read_le16 m (pc + 2);
          rd = drop_bit 8 hw1 AND 0xF; c4 = c\<lparr>c_pc := pc + 4\<rparr>; imm = (ucast (mov_imm16 hw0 hw1) :: u32)
      in if hw0 = 0xE92D \<and> hw1 = 0x4200 then
           Some (wr32 (wr32 m (sp - 8) (c_r9 c)) (sp - 4) (c_lr c), c4\<lparr>c_sp := sp - 8\<rparr>)
         else if hw0 = 0xE8BD \<and> hw1 = 0x8200 then
           Some (m, c\<lparr>c_r9 := rd32 m sp, c_sp := sp + 8, c_pc := rd32 m (sp + 4) AND NOT 1\<rparr>)
         else if hw0 = 0x47E0 then Some (m, c\<lparr>c_lr := (pc + 2) OR 1, c_pc := c_ip c AND NOT 1\<rparr>)
         else if hw0 AND 0xF800 = 0xE000 then Some (m, c\<lparr>c_pc := pc + 4 + word_of_int (b_offset hw0)\<rparr>)
         else if hw0 AND 0xFBF0 = 0xF240 \<and> hw1 AND 0x8000 = 0 then
           map_option (Pair m) (write_reg rd (\<lambda>_. imm) c4)
         else if hw0 AND 0xFBF0 = 0xF2C0 \<and> hw1 AND 0x8000 = 0 then
           map_option (Pair m) (write_reg rd (\<lambda>old. (old AND 0xFFFF) OR push_bit 16 imm) c4)
         else None)"

fun cpu_steps :: "nat \<Rightarrow> mem \<times> cpu \<Rightarrow> (mem \<times> cpu) option" where
  "cpu_steps 0 mc = Some mc"
| "cpu_steps (Suc n) mc = Option.bind (cpu_step mc) (cpu_steps n)"

definition mov_at :: "mem \<Rightarrow> addr \<Rightarrow> bool \<Rightarrow> u16 \<Rightarrow> u16 \<Rightarrow> bool" where
  "mov_at m a t rd x \<longleftrightarrow> read_le16 m a = mov_hw0 t x \<and> read_le16 m (a + 2) = mov_hw1 rd x"

lemma mov_hw1_top: "mov_hw1 rd x AND 0x8000 = 0"
  by (rule bits_16_cases, elim insertE emptyE) (simp_all add: mov_hw1_def Let_def bit_simps)

lemma mov_hw1_rd: "drop_bit 8 (mov_hw1 rd x) AND 0xF = rd AND 0xF"
  by (rule bits_16_cases, elim insertE emptyE) (simp_all add: mov_hw1_def Let_def bit_simps)

lemma mov_hw0_other:
  "mov_hw0 t x \<noteq> 0xE92D" "mov_hw0 t x \<noteq> 0xE8BD" "mov_hw0 t x \<noteq> 0x47E0" "mov_hw0 t x AND 0xF800 \<noteq> 0xE000"
proof -
  have b: "bit (mov_hw0 t x) 12" by (simp add: mov_hw0_def Let_def bit_simps)
  show "mov_hw0 t x \<noteq> 0xE92D" "mov_hw0 t x \<noteq> 0xE8BD" "mov_hw0 t x \<noteq> 0x47E0"
    using b by (auto dest: arg_cong [where f = "\<lambda>w. bit w 12"])
  have "bit (mov_hw0 t x AND 0xF800) 12" using b by (simp add: bit_simps)
  then show "mov_hw0 t x AND 0xF800 \<noteq> 0xE000" by (auto dest: arg_cong [where f = "\<lambda>w. bit w 12"])
qed

lemma step_mov:
  assumes "mov_at m (c_pc c) t rd x"
  shows "cpu_step (m, c) = map_option (Pair m) (write_reg (rd AND 0xF)
     (\<lambda>old. if t then (old AND 0xFFFF) OR push_bit 16 (ucast x) else ucast x) (c\<lparr>c_pc := c_pc c + 4\<rparr>))"
  using assms
  by (cases t) (simp_all add: cpu_step_def mov_at_def Let_def mov_hw0_other mov_hw0_opcode mov_hw1_top mov_hw1_rd mov_imm16_encoded)


section \<open>Gateways\<close>

definition gateway_code :: "mem \<Rightarrow> addr \<Rightarrow> u32 \<Rightarrow> bool" where
  "gateway_code m g rb \<longleftrightarrow> read_le16 m g = 0xE92D \<and> read_le16 m (g + 2) = 0x4200
     \<and> mov_at m (g + 4) False 9 (ucast (rb AND 0xFFFF)) \<and> mov_at m (g + 8) True 9 (ucast (drop_bit 16 rb))
     \<and> read_le16 m (g + 12) = 0x47E0 \<and> read_le16 m (g + 14) = 0xE8BD \<and> read_le16 m (g + 16) = 0x8200"

lemma u16_zero_ext: "ucast (x :: u16) AND 0xFFFF = (ucast x :: u32)"
proof -
  have m: "0xFFFF = (mask 16 :: u32)" by (simp add: mask_eq_exp_minus_1)
  show ?thesis by (rule bit_word_eqI) (auto simp: m bit_simps dest: bit_imp_le_length)
qed

lemma halves_join:
  "(ucast (ucast (x AND 0xFFFF :: u32) :: u16) AND 0xFFFF :: u32) OR push_bit 16 (ucast (ucast (drop_bit 16 x) :: u16)) = x"
proof (rule bit_word_eqI, goal_cases)
  case (1 n)
  have m: "0xFFFF = (mask 16 :: u32)" by (simp add: mask_eq_exp_minus_1)
  show ?case using 1 by (cases "n < 16") (auto simp: m bit_simps)
qed

text \<open>What a block holds is determined by its bytes.\<close>

lemma read_le16_in:
  assumes "\<And>b. b \<in> blk a n \<Longrightarrow> m' b = m b" and "unat off + 2 \<le> unat n"
  shows "read_le16 m' (a + off) = read_le16 m (a + off)"
  by (rule read_le16_cong, rule assms(1)) (use sub_blk [of off 2 n a] assms(2) in auto)

lemma gateway_code_cong:
  assumes "gateway_code m g rb" and eq: "\<And>b. b \<in> blk g 18 \<Longrightarrow> m' b = m b"
  shows "gateway_code m' g rb"
proof -
  note in_g = read_le16_in [of g 18 m' m, OF eq]
  have "read_le16 m' (g + k) = read_le16 m (g + k)" if "k \<in> {0, 2, 4, 6, 8, 10, 12, 14, 16}" for k
    by (rule in_g) (use that in auto)
  then have "read_le16 m' (g + k) = read_le16 m (g + k)" if "k = 0 \<or> k = 2 \<or> k = 4 \<or> k = 6 \<or> k = 8 \<or> k = 10
      \<or> k = 12 \<or> k = 14 \<or> k = 16" for k
    using that by blast
  from this [of 0] this [of 2] this [of 4] this [of 6] this [of 8] this [of 10] this [of 12] this [of 14] this [of 16]
  show ?thesis using assms(1) by (simp add: gateway_code_def mov_at_def add.assoc)
qed

lemma gateway_written: "gateway_code (udynlink_thunk_write_gateway m g rb) g rb"
proof -
  let ?lo = "ucast (rb AND 0xFFFF) :: u16" and ?hi = "ucast (drop_bit 16 rb) :: u16"
  let ?m1 = "wr_bytes m g gateway_template"
  let ?m2 = "encode_mov_imm ?m1 (g + 4) 9 ?lo False"
  have w: "udynlink_thunk_write_gateway m g rb = encode_mov_imm ?m2 (g + 8) 9 ?hi True"
    by (simp add: udynlink_thunk_write_gateway_def GATEWAY_MOVW_OFF_def GATEWAY_MOVT_OFF_def Let_def)
  have hi: "mov_at (encode_mov_imm ?m2 (g + 8) 9 ?hi True) (g + 8) True 9 ?hi"
    using encode_mov_imm_reads [of ?m2 "g + 8" 9 ?hi True] by (simp add: mov_at_def)
  have lo: "mov_at ?m2 (g + 4) False 9 ?lo"
    using encode_mov_imm_reads [of ?m1 "g + 4" 9 ?lo False] by (simp add: mov_at_def)
  have out: "encode_mov_imm ?m2 (g + 8) 9 ?hi True (g + k) = ?m1 (g + k)"
    if "\<not> k - 4 < 4" "\<not> k - 8 < 4" for k
    using that by (simp add: mem_frame diff_diff_eq)
  show ?thesis
    unfolding gateway_code_def w using hi lo
    by (auto simp: mov_at_def read_le16_def add.assoc out gateway_template_def mem_frame)
qed


section \<open>Stubs\<close>

definition stub_code :: "mem \<Rightarrow> addr \<Rightarrow> u32 \<Rightarrow> addr \<Rightarrow> bool" where
  "stub_code m s f g \<longleftrightarrow> mov_at m s False 12 (ucast (f AND 0xFFFF))
     \<and> mov_at m (s + 4) True 12 (ucast (drop_bit 16 f AND 0xFFFF))
     \<and> read_le16 m (s + 8) AND 0xF800 = 0xE000 \<and> g = s + 12 + word_of_int (b_offset (read_le16 m (s + 8)))"

lemma stub_code_cong:
  assumes "stub_code m s f g" and eq: "\<And>b. b \<in> blk s 10 \<Longrightarrow> m' b = m b"
  shows "stub_code m' s f g"
proof -
  note in_s = read_le16_in [of s 10 m' m, OF eq]
  have "read_le16 m' (s + k) = read_le16 m (s + k)" if "k = 0 \<or> k = 2 \<or> k = 4 \<or> k = 6 \<or> k = 8" for k
    by (rule in_s) (use that in auto)
  from this [of 0] this [of 2] this [of 4] this [of 6] this [of 8]
  show ?thesis using assms(1) by (simp add: stub_code_def mov_at_def add.assoc)
qed

text \<open>A branch distance within the eleven bits of the instruction comes back unchanged.\<close>

lemma b_n_opcode: "(0xE000 OR (k AND 0x7FF)) AND 0xF800 = (0xE000 :: u16)"
  by (rule bits_16_cases, elim insertE emptyE) (simp_all add: bit_simps)

lemma b_offset_encoded:
  assumes "- 1024 \<le> sint k" and "sint k \<le> 1023"
  shows "b_offset (0xE000 OR (k AND 0x7FF)) = 2 * sint k"
proof -
  let ?hw = "0xE000 OR (k AND 0x7FF) :: u16"
  have "take_bit 11 ?hw = take_bit 11 k"
    by (rule bits_16_cases, elim insertE emptyE) (simp_all add: bit_simps)
  then have "take_bit 11 (uint ?hw) = take_bit 11 (uint k)"
    by (metis unsigned_take_bit_eq)
  then have "signed_take_bit 10 (uint ?hw) = signed_take_bit 10 (uint k)"
    by (simp add: signed_take_bit_eq_iff_take_bit_eq)
  also have "\<dots> = signed_take_bit 10 (sint k)"
    by (simp add: sint_uint)
  also have "\<dots> = sint k" using assms by (simp add: signed_take_bit_int_eq_self_iff)
  finally show ?thesis by (simp add: b_offset_def)
qed

lemma half_even: "even d \<Longrightarrow> half_toward_zero d = d div 2"
  by (auto simp: half_toward_zero_def)

lemma sint_branch_offset:
  assumes "even (sint (g - (s + 12)))" and "\<bar>sint (g - (s + 12))\<bar> < 65536"
  shows "2 * sint (branch_hw_offset s g) = sint (g - (s + 12))"
proof -
  let ?d = "sint (g - (s + 12))"
  have "sint (word_of_int (?d div 2) :: u16) = signed_take_bit 15 (?d div 2)" by (simp add: sint_sbintrunc')
  also have "\<dots> = ?d div 2" using assms by (simp add: signed_take_bit_int_eq_self_iff) linarith
  finally show ?thesis using assms(1) by (simp add: branch_hw_offset_def half_even)
qed


lemma write_stub_frame [mem_frame]:
  assumes "a \<notin> blk s 10"
  shows "snd (udynlink_thunk_write_stub m s f g) a = m a"
proof -
  have "a \<notin> blk (s + 0) 4" "a \<notin> blk (s + 4) 4" "a \<notin> blk (s + 8) 2"
    using assms sub_blk [of 0 4 10 s] sub_blk [of 4 4 10 s] sub_blk [of 8 2 10 s] by (auto simp del: mem_blk)
  then show ?thesis
    by (simp add: udynlink_thunk_write_stub_def encode_movw_ip_def encode_movt_ip_def Let_def mem_frame del: mem_blk)
qed

lemma write_gateway_frame [mem_frame]:
  assumes "a \<notin> blk g 18"
  shows "udynlink_thunk_write_gateway m g rb a = m a"
proof -
  have "wr_bytes m g gateway_template a = m a"
    using assms by (simp add: gateway_template_def) (auto simp: add.assoc)
  moreover have "a \<notin> blk (g + 4) 4" "a \<notin> blk (g + 8) 4"
    using assms sub_blk [of 4 4 18 g] sub_blk [of 8 4 18 g] by (auto simp del: mem_blk)
  ultimately show ?thesis
    by (simp add: udynlink_thunk_write_gateway_def GATEWAY_MOVW_OFF_def GATEWAY_MOVT_OFF_def Let_def mem_frame
      del: mem_blk)
qed

text \<open>Whether the branch reaches, and what has then been written.\<close>

lemma write_stub_cases:
  assumes even: "even (sint (g - (s + 12)))" and near: "\<bar>sint (g - (s + 12))\<bar> < 65536"
  shows "fst (udynlink_thunk_write_stub m s f g) =
      (if - 2048 \<le> sint (g - (s + 12)) \<and> sint (g - (s + 12)) \<le> 2046 then s OR 1 else 0)"
    and "- 2048 \<le> sint (g - (s + 12)) \<Longrightarrow> sint (g - (s + 12)) \<le> 2046 \<Longrightarrow>
      stub_code (snd (udynlink_thunk_write_stub m s f g)) s f g"
proof -
  let ?k = "branch_hw_offset s g" and ?d = "sint (g - (s + 12))"
  note k = sint_branch_offset [OF assms]
  show "fst (udynlink_thunk_write_stub m s f g) = (if - 2048 \<le> ?d \<and> ?d \<le> 2046 then s OR 1 else 0)"
    using k by (auto simp: udynlink_thunk_write_stub_def Let_def)
  assume r: "- 2048 \<le> ?d" "?d \<le> 2046"
  then have kr: "- 1024 \<le> sint ?k" "sint ?k \<le> 1023" using k by auto
  let ?lo = "ucast (f AND 0xFFFF) :: u16" and ?hi = "ucast (drop_bit 16 f AND 0xFFFF) :: u16"
  let ?m1 = "encode_mov_imm m s 12 ?lo False"
  let ?m2 = "encode_mov_imm ?m1 (s + 4) 12 ?hi True"
  let ?m3 = "encode_b_n ?m2 (s + 8) ?k"
  have w: "snd (udynlink_thunk_write_stub m s f g) = ?m3"
    using kr by (simp add: udynlink_thunk_write_stub_def encode_movw_ip_def encode_movt_ip_def Let_def not_less)
  have b: "read_le16 ?m3 (s + 8) = 0xE000 OR (?k AND 0x7FF)" by (rule encode_b_n_read)
  have "s + 12 + word_of_int (2 * sint ?k) = g" unfolding k by simp
  moreover have "mov_at ?m2 (s + 4) True 12 ?hi" "mov_at ?m1 s False 12 ?lo"
    unfolding mov_at_def using encode_mov_imm_reads [of ?m1 "s + 4" 12 ?hi True]
      encode_mov_imm_reads [of m s 12 ?lo False] by blast+
  ultimately show "stub_code (snd (udynlink_thunk_write_stub m s f g)) s f g"
    unfolding stub_code_def w b b_offset_encoded [OF kr] b_n_opcode
    by (auto simp: mov_at_def read_le16_def add.assoc mem_frame)
qed


section \<open>A call through a thunk\<close>

lemma imm_value:
  "ucast (ucast (f AND 0xFFFF :: u32) :: u16) AND 0xFFFF OR push_bit 16 (ucast (ucast (drop_bit 16 f AND 0xFFFF) :: u16)) = (f :: u32)"
proof -
  have m: "0xFFFF = (mask 16 :: u32)" by (simp add: mask_eq_exp_minus_1)
  show ?thesis by (rule bit_word_eqI, rename_tac n, case_tac "n < 16") (auto simp: m bit_simps)
qed

lemma step_mov_ip:
  assumes "mov_at m (c_pc c) t 12 x"
  shows "cpu_step (m, c) = Some (m, c\<lparr>c_ip := (if t then (c_ip c AND 0xFFFF) OR push_bit 16 (ucast x) else ucast x),
     c_pc := c_pc c + 4\<rparr>)"
  using step_mov [OF assms] by (simp add: write_reg_def)

lemma step_mov_r9:
  assumes "mov_at m (c_pc c) t 9 x"
  shows "cpu_step (m, c) = Some (m, c\<lparr>c_r9 := (if t then (c_r9 c AND 0xFFFF) OR push_bit 16 (ucast x) else ucast x),
     c_pc := c_pc c + 4\<rparr>)"
  using step_mov [OF assms] by (simp add: write_reg_def)

text \<open>The stub loads the function's address into \<open>ip\<close> and reaches the gateway.\<close>

lemma stub_runs:
  assumes "stub_code m s f g" and "c_pc c = s"
  shows "cpu_steps (Suc (Suc (Suc n))) (m, c) = cpu_steps n (m, c\<lparr>c_ip := f, c_pc := g\<rparr>)"
proof -
  have b: "read_le16 m (s + 8) \<noteq> 0xE92D" "read_le16 m (s + 8) \<noteq> 0xE8BD" "read_le16 m (s + 8) \<noteq> 0x47E0"
    using assms(1) by (auto simp: stub_code_def)
  have g: "g = s + 12 + word_of_int (b_offset (read_le16 m (s + 8)))" "read_le16 m (s + 8) AND 0xF800 = 0xE000"
    "mov_at m s False 12 (ucast (f AND 0xFFFF))" "mov_at m (s + 4) True 12 (ucast (drop_bit 16 f AND 0xFFFF))"
    using assms(1) by (auto simp: stub_code_def)
  have "cpu_step (m, c) = Some (m, c\<lparr>c_ip := ucast (ucast (f AND 0xFFFF) :: u16), c_pc := s + 4\<rparr>)"
    using step_mov_ip [of m c False] g(3) assms(2) by simp
  moreover have "cpu_step (m, c\<lparr>c_ip := ucast (ucast (f AND 0xFFFF) :: u16), c_pc := s + 4\<rparr>)
      = Some (m, c\<lparr>c_ip := f, c_pc := s + 8\<rparr>)"
    using step_mov_ip [of m "c\<lparr>c_ip := ucast (ucast (f AND 0xFFFF) :: u16), c_pc := s + 4\<rparr>" True] g(4)
    by (simp add: imm_value)
  moreover have "cpu_step (m, c\<lparr>c_ip := f, c_pc := s + 8\<rparr>) = Some (m, c\<lparr>c_ip := f, c_pc := g\<rparr>)"
    using b g(2) unfolding g(1) by (simp add: cpu_step_def Let_def)
  ultimately show ?thesis by simp
qed

text \<open>The gateway saves \<open>r9\<close> and \<open>lr\<close>, loads the module's base into \<open>r9\<close> and calls through \<open>ip\<close>.\<close>

definition saved :: "mem \<Rightarrow> cpu \<Rightarrow> mem" where
  "saved m c = wr32 (wr32 m (c_sp c - 8) (c_r9 c)) (c_sp c - 4) (c_lr c)"

lemma saved_frame:
  assumes "a \<notin> blk (c_sp c - 8) 8"
  shows "saved m c a = m a"
proof -
  have e: "c_sp c - 8 + 4 = c_sp c - 4" "c_sp c - 8 + 0 = c_sp c - 8" by simp_all
  have "a \<notin> blk (c_sp c - 4) 4" "a \<notin> blk (c_sp c - 8) 4"
    using assms sub_blk [of 4 4 8 "c_sp c - 8", unfolded e] sub_blk [of 0 4 8 "c_sp c - 8", unfolded e]
    by (auto simp del: mem_blk)
  then show ?thesis by (simp add: saved_def wr32_frame_blk del: mem_blk)
qed

lemma gateway_runs:
  assumes g: "gateway_code m g rb" and pc: "c_pc c = g" and sp: "blk g 18 \<inter> blk (c_sp c - 8) 8 = {}"
  shows "cpu_steps (Suc (Suc (Suc (Suc n)))) (m, c) = cpu_steps n (saved m c,
    c\<lparr>c_r9 := rb, c_lr := (g + 14) OR 1, c_sp := c_sp c - 8, c_pc := c_ip c AND NOT 1\<rparr>)"
proof -
  let ?m = "saved m c" and ?c = "c\<lparr>c_sp := c_sp c - 8, c_pc := g + 4\<rparr>"
  have g': "gateway_code ?m g rb"
    by (rule gateway_code_cong [OF g], rule saved_frame) (use sp in blast)
  have "cpu_step (m, c) = Some (?m, ?c)"
    using g pc by (simp add: cpu_step_def Let_def gateway_code_def saved_def)
  moreover have "cpu_step (?m, ?c) = Some (?m, ?c\<lparr>c_r9 := ucast (ucast (rb AND 0xFFFF) :: u16), c_pc := g + 8\<rparr>)"
    using step_mov_r9 [of ?m ?c False "ucast (rb AND 0xFFFF)"] g' by (simp add: gateway_code_def add.commute [of 8 g])
  moreover have "cpu_step (?m, ?c\<lparr>c_r9 := ucast (ucast (rb AND 0xFFFF) :: u16), c_pc := g + 8\<rparr>)
      = Some (?m, ?c\<lparr>c_r9 := rb, c_pc := g + 12\<rparr>)"
    using step_mov_r9 [of ?m "?c\<lparr>c_r9 := ucast (ucast (rb AND 0xFFFF) :: u16), c_pc := g + 8\<rparr>" True "ucast (drop_bit 16 rb)"] g'
    by (simp add: gateway_code_def halves_join add.commute [of 12 g])
  moreover have "cpu_step (?m, ?c\<lparr>c_r9 := rb, c_pc := g + 12\<rparr>)
      = Some (?m, ?c\<lparr>c_r9 := rb, c_lr := (g + 14) OR 1, c_pc := c_ip c AND NOT 1\<rparr>)"
    using g' by (simp add: cpu_step_def Let_def gateway_code_def add.commute [of 14 g])
  ultimately show ?thesis by (cases c) simp
qed

text \<open>The return: the word pair on the stack goes back to \<open>r9\<close> and \<open>pc\<close>.\<close>

lemma gateway_returns:
  assumes "gateway_code m g rb" and "c_pc c = g + 14"
  shows "cpu_step (m, c) = Some (m, c\<lparr>c_r9 := rd32 m (c_sp c), c_sp := c_sp c + 8, c_pc := rd32 m (c_sp c + 4) AND NOT 1\<rparr>)"
  using assms by (simp add: cpu_step_def Let_def gateway_code_def add.commute [of 16 g])


lemma written_pair:
  assumes even: "even (sint (g - (s + 12)))" and near: "\<bar>sint (g - (s + 12))\<bar> < 65536"
    and apart: "blk s 10 \<inter> blk g 18 = {}"
    and w: "udynlink_thunk_write_stub (udynlink_thunk_write_gateway m0 g rb) s f g = (r, m)" and "r \<noteq> 0"
  shows "stub_code m s f g" and "gateway_code m g rb"
proof -
  let ?mg = "udynlink_thunk_write_gateway m0 g rb"
  have m: "m = snd (udynlink_thunk_write_stub ?mg s f g)" and r: "r = fst (udynlink_thunk_write_stub ?mg s f g)"
    by (simp_all add: w)
  show "stub_code m s f g"
    using write_stub_cases [OF even near, of ?mg f] \<open>r \<noteq> 0\<close> unfolding m r by (auto split: if_splits)
  show "gateway_code m g rb"
    unfolding m by (rule gateway_code_cong [OF gateway_written], rule write_stub_frame) (use apart in blast)
qed

text \<open>C13: a stub and its gateway, written by the loader's encoders, make a processor that enters
  the stub arrive at the function with \<open>r9\<close> holding the module's base and every argument
  register untouched; when the function returns with the stack as it found it, the processor
  continues at the caller with the caller's \<open>r9\<close> and stack pointer.\<close>

theorem thunk_call_correct:
  assumes "even (sint (g - (s + 12)))" and "\<bar>sint (g - (s + 12))\<bar> < 65536"
    and "blk s 10 \<inter> blk g 18 = {}"
    and "udynlink_thunk_write_stub (udynlink_thunk_write_gateway m0 g rb) s f g = (r, m)" and "r \<noteq> 0"
    and pc: "c_pc c = s" and stack: "blk g 18 \<inter> blk (c_sp c - 8) 8 = {}"
    and m2: "\<And>a. a \<in> blk g 18 \<union> blk (c_sp c - 8) 8 \<Longrightarrow> m2 a = saved m c a"
    and c2: "c_pc c2 = g + 14" "c_sp c2 = c_sp c - 8"
  shows "cpu_steps 7 (m, c) = Some (saved m c,
      c\<lparr>c_r9 := rb, c_ip := f, c_lr := (g + 14) OR 1, c_sp := c_sp c - 8, c_pc := f AND NOT 1\<rparr>)
    \<and> cpu_step (m2, c2) = Some (m2, c2\<lparr>c_r9 := c_r9 c, c_sp := c_sp c, c_pc := c_lr c AND NOT 1\<rparr>)"
proof
  note code = written_pair [OF assms(1-5)]
  have "cpu_steps (Suc (Suc (Suc (Suc (Suc (Suc (Suc 0))))))) (m, c)
      = cpu_steps (Suc (Suc (Suc (Suc 0)))) (m, c\<lparr>c_ip := f, c_pc := g\<rparr>)"
    by (rule stub_runs [OF code(1) pc])
  also have "\<dots> = Some (saved m c,
      c\<lparr>c_r9 := rb, c_ip := f, c_lr := (g + 14) OR 1, c_sp := c_sp c - 8, c_pc := f AND NOT 1\<rparr>)"
    using gateway_runs [OF code(2), of "c\<lparr>c_ip := f, c_pc := g\<rparr>" 0] stack by (simp add: saved_def)
  finally show "cpu_steps 7 (m, c) = Some (saved m c,
      c\<lparr>c_r9 := rb, c_ip := f, c_lr := (g + 14) OR 1, c_sp := c_sp c - 8, c_pc := f AND NOT 1\<rparr>)"
    by (simp only: eval_nat_numeral BitM.simps)
  have "gateway_code (saved m c) g rb"
    by (rule gateway_code_cong [OF code(2)], rule saved_frame) (use stack in blast)
  then have g2: "gateway_code m2 g rb"
    by (rule gateway_code_cong) (use m2 in blast)
  have word: "rd32 m2 a = rd32 (saved m c) a" if "blk a 4 \<subseteq> blk (c_sp c - 8) 8" for a
    by (rule rd32_cong, rule m2) (use that in blast)
  have e: "c_sp c - 8 + 4 = c_sp c - 4" by simp
  have apart: "blk (c_sp c - 8) 4 \<inter> blk (c_sp c - 4) 4 = {}"
    using disjoint_sub_blks [of 0 4 4 4 "c_sp c - 8"] unfolding e by simp
  have "rd32 m2 (c_sp c - 8) = c_r9 c"
    using word [of "c_sp c - 8"] sub_blk [of 0 4 8 "c_sp c - 8"]
    by (simp add: saved_def rd32_wr32_disj [OF apart] rd32_wr32 del: mem_blk)
  moreover have "rd32 m2 (c_sp c - 4) = c_lr c"
    using word [of "c_sp c - 4"] sub_blk [of 4 4 8 "c_sp c - 8", unfolded e]
    by (simp add: saved_def rd32_wr32 del: mem_blk)
  ultimately show "cpu_step (m2, c2) = Some (m2, c2\<lparr>c_r9 := c_r9 c, c_sp := c_sp c, c_pc := c_lr c AND NOT 1\<rparr>)"
    using gateway_returns [OF g2 c2(1)] by (simp add: c2 e)
qed

definition caller :: cpu where
  "caller = \<lparr>c_r9 = 0x11, c_ip = 0, c_lr = 0x333, c_sp = 0x8000, c_pc = 0x100\<rparr>"

theorem thunk_call_correct_witness:
  "map_option (\<lambda>(m, c). (c_r9 c, c_pc c, c_sp c))
     (cpu_steps 7 (snd (udynlink_thunk_write_stub (udynlink_thunk_write_gateway (\<lambda>_. 0) 0x80 0x20001000)
        0x100 0x08000124 0x80), caller)) = Some (0x20001000, 0x08000124, 0x7FF8)"
proof -
  let ?w = "udynlink_thunk_write_stub (udynlink_thunk_write_gateway (\<lambda>_. 0) 0x80 0x20001000) 0x100 0x08000124 0x80"
  have apart: "blk 0x100 10 \<inter> blk 0x80 18 = {}"
    using disjoint_sub_blks [of 0 18 "0x80" 10 "0x80"] by (simp add: Int_commute)
  have stack: "blk 0x80 18 \<inter> blk (c_sp caller - 8) 8 = {}"
    using disjoint_sub_blks [of 0 18 "0x7F78" 8 "0x80"] by (simp add: caller_def)
  have "fst ?w \<noteq> 0" by (subst write_stub_cases(1)) simp_all
  then have "cpu_steps 7 (snd ?w, caller) = Some (saved (snd ?w) caller, caller\<lparr>c_r9 := 0x20001000,
      c_ip := 0x08000124, c_lr := (0x80 + 14) OR 1, c_sp := c_sp caller - 8, c_pc := 0x08000124 AND NOT 1\<rparr>)"
    by (intro thunk_call_correct [where ?m2.0 = "saved (snd ?w) caller"
        and ?c2.0 = "caller\<lparr>c_pc := 0x80 + 14, c_sp := c_sp caller - 8\<rparr>" and ?r = "fst ?w",
        OF _ _ apart _ _ _ stack, THEN conjunct1])
      (simp_all add: caller_def)
  then show ?thesis by (simp add: caller_def)
qed

text \<open>The decoders read back what a stub and a gateway hold.\<close>

lemma decode_movw_mov_at: "mov_at m a False 12 x \<Longrightarrow> decode_movw_ip_imm16 m a = Some x"
  and decode_movt_mov_at: "mov_at m a True 12 x \<Longrightarrow> decode_movt_ip_imm16 m a = Some x"
  by (simp_all add: decode_movw_ip_imm16_def decode_movt_ip_imm16_def mov_at_def Let_def mov_hw0_opcode
    mov_hw1_register mov_imm16_encoded)

lemma decode_mov_at:
  assumes "mov_at m a t rd x"
  shows "decode_mov_imm m a = x"
proof -
  have "decode_mov_imm m a = mov_imm16 (read_le16 m a) (read_le16 m (a + 2))"
    by (simp add: decode_mov_imm_def read_le16_def add.assoc)
  then show ?thesis using assms by (simp add: mov_at_def mov_imm16_encoded)
qed

lemma gateway_base:
  assumes "gateway_code m g rb"
  shows "ucast (decode_mov_imm m (g + GATEWAY_MOVW_OFF)) OR push_bit 16 (ucast (decode_mov_imm m (g + GATEWAY_MOVT_OFF))) = rb"
proof -
  have "decode_mov_imm m (g + 4) = ucast (rb AND 0xFFFF)" "decode_mov_imm m (g + 8) = ucast (drop_bit 16 rb)"
    using assms by (auto simp: gateway_code_def intro: decode_mov_at)
  moreover have "ucast (ucast (rb AND 0xFFFF) :: u16) OR push_bit 16 (ucast (ucast (drop_bit 16 rb) :: u16)) = rb"
    using halves_join [of rb] by (simp add: u16_zero_ext)
  ultimately show ?thesis by (simp add: GATEWAY_MOVW_OFF_def GATEWAY_MOVT_OFF_def)
qed

lemma stub_function:
  assumes "stub_code m s f g"
  shows "\<exists>lo hi. decode_movw_ip_imm16 m s = Some lo \<and> decode_movt_ip_imm16 m (s + 4) = Some hi
     \<and> (push_bit 16 (ucast hi) OR ucast lo :: u32) = f"
proof -
  have "(push_bit 16 (ucast (ucast (drop_bit 16 f AND 0xFFFF) :: u16)) OR ucast (ucast (f AND 0xFFFF) :: u16) :: u32) = f"
    using imm_value [of f] by (simp add: u16_zero_ext or.commute)
  then show ?thesis using assms decode_movw_mov_at decode_movt_mov_at unfolding stub_code_def by blast
qed

text \<open>C39: an immediate written by either encoder is read back by its decoder, whatever it is.\<close>

theorem mov_roundtrip:
  "decode_movw_ip_imm16 (encode_movw_ip m d x) d = Some x
    \<and> decode_movt_ip_imm16 (encode_movt_ip m d x) d = Some x
    \<and> decode_mov_imm (encode_mov_imm m d rd x t) d = x"
  using decode_movw_mov_at [of "encode_movw_ip m d x" d x] decode_movt_mov_at [of "encode_movt_ip m d x" d x]
    decode_mov_at [of "encode_mov_imm m d rd x t" d t rd x] encode_mov_imm_reads
  unfolding mov_at_def encode_movw_ip_def encode_movt_ip_def by metis

end
