(* ===== verification/ThunkPool.thy ===== *)
theory ThunkPool
  imports ThunkCode
begin

text \<open>
  The thunk pool as two lists: the stubs from its bottom, each a function and the base its
  gateway loads, and the gateways from its top. Searching, allocating and making a call thunk
  are related to these lists.
\<close>

section \<open>The pool\<close>

text \<open>A pool in memory order: stubs from the bottom, free space, gateways up to the top. A stub
  is known by the function it calls and the module base of its gateway.\<close>

definition pool_ok :: "udynlink_thunk_pool_t \<Rightarrow> bool" where
  "pool_ok pl \<longleftrightarrow> tp_base pl \<noteq> NULL \<and> (tp_size pl = 0 \<or> 4 dvd unat (tp_base pl)) \<and> 4 dvd unat (tp_size pl)
     \<and> unat (tp_base pl) + unat (tp_size pl) < 2 ^ 32
     \<and> unat (tp_used pl) \<le> unat (tp_gateway_top pl) \<and> unat (tp_gateway_top pl) \<le> unat (tp_size pl)"

definition stub_addr :: "udynlink_thunk_pool_t \<Rightarrow> nat \<Rightarrow> addr" where
  "stub_addr pl i = tp_base pl + of_nat (10 * i)"

definition gateway_addr :: "udynlink_thunk_pool_t \<Rightarrow> nat \<Rightarrow> addr" where
  "gateway_addr pl j = tp_base pl + of_nat (unat (tp_gateway_top pl) + 18 * j)"

definition pool_holds :: "mem \<Rightarrow> udynlink_thunk_pool_t \<Rightarrow> (u32 \<times> u32) list \<Rightarrow> u32 list \<Rightarrow> bool" where
  "pool_holds m pl T G \<longleftrightarrow> pool_ok pl \<and> unat (tp_used pl) = 10 * length T
     \<and> unat (tp_size pl) = unat (tp_gateway_top pl) + 18 * length G
     \<and> (\<forall>j < length G. gateway_code m (gateway_addr pl j) (G ! j))
     \<and> (\<forall>i < length T. \<exists>j < length G. snd (T ! i) = G ! j
          \<and> stub_code m (stub_addr pl i) (fst (T ! i)) (gateway_addr pl j))"

lemma offset_blks_disjoint:
  assumes "o1 + unat n1 \<le> o2" and "o2 + unat n2 < 2 ^ 32"
  shows "blk (b + of_nat o1) n1 \<inter> blk (b + of_nat o2) n2 = {}"
  by (rule disjoint_sub_blks) (use assms in auto)

text \<open>Writing into the free space leaves the pool's contents alone.\<close>

lemma pool_holds_frame:
  assumes h: "pool_holds m pl T G"
    and free: "unat (tp_used pl) \<le> off" "off + unat n \<le> unat (tp_gateway_top pl)"
    and out: "\<And>a. a \<notin> blk (tp_base pl + of_nat off) n \<Longrightarrow> m' a = m a"
  shows "pool_holds m' pl T G"
proof -
  have sz: "unat (tp_used pl) = 10 * length T" "unat (tp_size pl) = unat (tp_gateway_top pl) + 18 * length G"
    "unat (tp_base pl) + unat (tp_size pl) < 2 ^ 32" "pool_ok pl"
    using h unfolding pool_holds_def pool_ok_def by blast+
  have gw: "gateway_code m' (gateway_addr pl j) (G ! j)" if j: "j < length G" for j
  proof (rule gateway_code_cong)
    show "gateway_code m (gateway_addr pl j) (G ! j)" using h j by (simp add: pool_holds_def)
    fix b assume b: "b \<in> blk (gateway_addr pl j) 18"
    have "blk (tp_base pl + of_nat off) n \<inter> blk (gateway_addr pl j) 18 = {}"
      unfolding gateway_addr_def by (rule offset_blks_disjoint) (use free sz j in auto)
    then show "m' b = m b" using b by (intro out) blast
  qed
  have st: "stub_code m' (stub_addr pl i) f g" if i: "i < length T" and c: "stub_code m (stub_addr pl i) f g" for i f g
  proof (rule stub_code_cong [OF c])
    fix b assume b: "b \<in> blk (stub_addr pl i) 10"
    have "blk (stub_addr pl i) 10 \<inter> blk (tp_base pl + of_nat off) n = {}"
      unfolding stub_addr_def by (rule offset_blks_disjoint) (use free sz i in auto)
    then show "m' b = m b" using b by (intro out) blast
  qed
  show ?thesis using h gw st unfolding pool_holds_def by blast
qed

text \<open>Searching: the newest stub for a function, the lowest gateway for a base.\<close>

lemma find_stub_loop_sound:
  assumes "\<And>i. i < k \<Longrightarrow> \<exists>g. stub_code m (b + of_nat (10 * i)) (fs i) g" and "unat pos = 10 * k"
  shows "(\<exists>i < k. fs i = f \<and> (\<forall>j < k. i < j \<longrightarrow> fs j \<noteq> f) \<and> find_stub_loop m b f pos = (b + of_nat (10 * i)) OR 1)
    \<or> (\<forall>i < k. fs i \<noteq> f) \<and> find_stub_loop m b f pos = 0"
  using assms
proof (induction k arbitrary: pos)
  case 0
  then show ?case by (simp add: find_stub_loop.simps [of m b f pos] UDYNLINK_STUB_SIZE_def word_le_nat_alt)
next
  case (Suc k)
  have ge: "pos \<ge> 10" using Suc.prems(2) by (simp add: word_le_nat_alt)
  then have p: "unat (pos - 10) = 10 * k" using Suc.prems(2) by (simp add: unat_sub)
  then have pk: "pos - 10 = of_nat (10 * k)" by (simp flip: p)
  obtain lo hi where d: "decode_movw_ip_imm16 m (b + (pos - 10)) = Some lo"
    "decode_movt_ip_imm16 m (b + (pos - 10) + 4) = Some hi" "(push_bit 16 (ucast hi) OR ucast lo :: u32) = fs k"
    using Suc.prems(1) [of k] stub_function unfolding pk by blast
  have step: "find_stub_loop m b f pos = (if fs k = f then (b + (pos - 10)) OR 1 else find_stub_loop m b f (pos - 10))"
    using ge d by (simp add: find_stub_loop.simps [of m b f pos] UDYNLINK_STUB_SIZE_def Let_def)
  show ?case
  proof (cases "fs k = f")
    case True
    then show ?thesis unfolding step pk by (intro disjI1 exI [of _ k]) simp
  next
    case False
    then have step': "find_stub_loop m b f pos = find_stub_loop m b f (pos - 10)" using step by simp
    show ?thesis unfolding step'
      using Suc.IH [of "pos - 10"] Suc.prems(1) p False by (auto simp: less_Suc_eq)
  qed
qed

lemma find_gateway_loop_sound:
  assumes "\<And>j. j < n \<Longrightarrow> gateway_code m (b + of_nat (off + 18 * j)) (G j)" and "sz = off + 18 * n"
  shows "(\<exists>j < n. G j = rb \<and> find_gateway_loop m b sz rb off = b + of_nat (off + 18 * j))
    \<or> (\<forall>j < n. G j \<noteq> rb) \<and> find_gateway_loop m b sz rb off = NULL"
  using assms
proof (induction n arbitrary: off G)
  case 0
  then show ?case by (simp add: find_gateway_loop.simps [of m b off rb off])
next
  case (Suc n)
  have g0: "gateway_code m (b + of_nat off) (G 0)" using Suc.prems(1) [of 0] by simp
  have le: "off + 18 \<le> sz" using Suc.prems(2) by simp
  have step: "find_gateway_loop m b sz rb off =
      (if G 0 = rb then b + of_nat off else find_gateway_loop m b sz rb (off + 18))"
    using gateway_base [OF g0] le by (simp add: find_gateway_loop.simps [of m b sz rb off] Let_def)
  show ?case
  proof (cases "G 0 = rb")
    case True
    then show ?thesis unfolding step by (intro disjI1 exI [of _ 0]) simp
  next
    case False
    have "(\<exists>j < n. G (Suc j) = rb \<and> find_gateway_loop m b sz rb (off + 18) = b + of_nat (off + 18 + 18 * j))
        \<or> (\<forall>j < n. G (Suc j) \<noteq> rb) \<and> find_gateway_loop m b sz rb (off + 18) = NULL"
    proof (rule Suc.IH)
      fix j assume "j < n"
      then show "gateway_code m (b + of_nat (off + 18 + 18 * j)) (G (Suc j))"
        using Suc.prems(1) [of "Suc j"] by (simp add: algebra_simps)
    qed (use Suc.prems(2) in simp)
    then show ?thesis using False unfolding step by (auto simp: Ex_less_Suc2 All_less_Suc2 add.assoc)
  qed
qed

text \<open>The two searches on a pool.\<close>

lemma find_stub_holds:
  assumes h: "pool_holds m pl T G"
  shows "(\<exists>i < length T. fst (T ! i) = f \<and> udynlink_external_find_stub m (Some pl) f = stub_addr pl i OR 1)
    \<or> f \<notin> fst ` set T \<and> udynlink_external_find_stub m (Some pl) f = 0"
proof -
  have u: "unat (tp_used pl) = 10 * length T" using h by (simp add: pool_holds_def)
  have "(\<exists>i < length T. fst (T ! i) = f \<and> (\<forall>j < length T. i < j \<longrightarrow> fst (T ! j) \<noteq> f)
        \<and> find_stub_loop m (tp_base pl) f (tp_used pl) = (tp_base pl + of_nat (10 * i)) OR 1)
    \<or> (\<forall>i < length T. fst (T ! i) \<noteq> f) \<and> find_stub_loop m (tp_base pl) f (tp_used pl) = 0"
    by (rule find_stub_loop_sound) (use h u in \<open>auto simp: pool_holds_def stub_addr_def\<close>)
  moreover have "udynlink_external_find_stub m (Some pl) f = find_stub_loop m (tp_base pl) f (tp_used pl)"
    by (auto simp: udynlink_external_find_stub_def find_stub_loop.simps [of m _ f "tp_used pl"])
  moreover have "f \<in> fst ` set T \<longleftrightarrow> (\<exists>i < length T. fst (T ! i) = f)"
    by (force simp: in_set_conv_nth)
  ultimately show ?thesis by (auto simp: stub_addr_def)
qed

lemma find_gateway_holds:
  assumes h: "pool_holds m pl T G"
  shows "(\<exists>j < length G. G ! j = rb \<and> udynlink_thunk_find_gateway m (Some pl) rb = gateway_addr pl j)
    \<or> rb \<notin> set G \<and> udynlink_thunk_find_gateway m (Some pl) rb = NULL"
proof -
  have "(\<exists>j < length G. G ! j = rb \<and> find_gateway_loop m (tp_base pl) (unat (tp_size pl)) rb (unat (tp_gateway_top pl))
          = tp_base pl + of_nat (unat (tp_gateway_top pl) + 18 * j))
    \<or> (\<forall>j < length G. G ! j \<noteq> rb)
       \<and> find_gateway_loop m (tp_base pl) (unat (tp_size pl)) rb (unat (tp_gateway_top pl)) = NULL"
    by (rule find_gateway_loop_sound) (use h in \<open>auto simp: pool_holds_def gateway_addr_def\<close>)
  then show ?thesis by (auto simp: udynlink_thunk_find_gateway_def gateway_addr_def in_set_conv_nth)
qed


section \<open>Allocation\<close>

lemma pool_room:
  assumes "pool_ok pl"
  shows "unat (tp_used pl + n) = unat (tp_used pl) + unat n \<or> unat (tp_used pl) + unat n \<ge> 2 ^ 32"
  using unat_plus_no_wrap [of "tp_used pl" n] by linarith

text \<open>A gateway goes below the others; nothing changes when there is no room.\<close>

lemma alloc_gateway_holds:
  assumes h: "pool_holds m pl T G" and small: "unat (tp_size pl) < 65536"
    and a: "udynlink_thunk_alloc_gateway m pl rb = (g, pl', m')"
  shows "(g = NULL \<and> pl' = pl \<and> m' = m) \<or>
    (g = gateway_addr pl' 0 \<and> g \<noteq> NULL \<and> pool_holds m' pl' T (rb # G) \<and> tp_size pl' = tp_size pl \<and> tp_base pl' = tp_base pl
      \<and> (\<forall>a. a \<notin> blk (tp_base pl) (tp_size pl) \<longrightarrow> m' a = m a))"
proof (cases "tp_gateway_top pl < tp_used pl + UDYNLINK_GATEWAY_SIZE")
  case True
  then show ?thesis using a by (simp add: udynlink_thunk_alloc_gateway_def)
next
  case False
  have ok: "pool_ok pl" and sz: "unat (tp_used pl) = 10 * length T" "unat (tp_size pl) = unat (tp_gateway_top pl) + 18 * length G"
    using h by (simp_all add: pool_holds_def)
  have u: "unat (tp_used pl) \<le> unat (tp_gateway_top pl)" "unat (tp_gateway_top pl) \<le> unat (tp_size pl)"
    using ok by (simp_all add: pool_ok_def)
  have "unat (tp_used pl + 18) = unat (tp_used pl) + 18" using u small by (subst unat_plus_no_wrap) simp_all
  then have room: "unat (tp_used pl) + 18 \<le> unat (tp_gateway_top pl)"
    using False by (simp add: UDYNLINK_GATEWAY_SIZE_def word_less_nat_alt)
  then have top: "unat (tp_gateway_top pl - 18) = unat (tp_gateway_top pl) - 18"
    by (simp add: unat_sub word_le_nat_alt)
  have pl': "pl' = pl\<lparr>tp_gateway_top := tp_gateway_top pl - 18\<rparr>" and g: "g = tp_base pl + (tp_gateway_top pl - 18)"
    and m': "m' = udynlink_thunk_write_gateway m g rb"
    using a False by (auto simp: udynlink_thunk_alloc_gateway_def UDYNLINK_GATEWAY_SIZE_def Let_def)
  have tpl: "tp_gateway_top pl - 18 = of_nat (unat (tp_gateway_top pl) - 18)" by (simp flip: top)
  have out: "m' a = m a" if "a \<notin> blk (tp_base pl + of_nat (unat (tp_gateway_top pl) - 18)) 18" for a
    unfolding m' g tpl using that by (rule write_gateway_frame)
  have "pool_holds m' pl T G"
    by (rule pool_holds_frame [OF h _ _ out, where off = "unat (tp_gateway_top pl) - 18" and n = 18]) (use room in auto)
  moreover have "gateway_code m' g rb" unfolding m' by (rule gateway_written)
  moreover have "gateway_addr pl' (Suc j) = gateway_addr pl j" "gateway_addr pl' 0 = g" "stub_addr pl' j = stub_addr pl j" for j
    using room top by (simp_all add: gateway_addr_def stub_addr_def pl' g)
  ultimately have "pool_holds m' pl' T (rb # G)"
    using room top sz ok unfolding pool_holds_def
    by (simp add: pool_ok_def pl' All_less_Suc2 Ex_less_Suc2) linarith
  moreover have "g \<noteq> NULL"
  proof -
    have "unat g = unat (tp_base pl) + (unat (tp_gateway_top pl) - 18)"
      unfolding g using ok top by (subst unat_plus_no_wrap) (auto simp: pool_ok_def)
    moreover have "unat (tp_base pl) \<noteq> 0" using ok by (simp add: pool_ok_def unat_eq_0)
    ultimately show ?thesis by (metis add_is_0 unat_0)
  qed
  moreover have "blk (tp_base pl + (tp_gateway_top pl - 18)) 18 \<subseteq> blk (tp_base pl) (tp_size pl)"
    by (rule sub_blk) (use u top room in simp)
  then have "m' a = m a" if "a \<notin> blk (tp_base pl) (tp_size pl)" for a
    using that unfolding tpl by (intro out) blast
  ultimately show ?thesis using \<open>\<And>j. gateway_addr pl' 0 = g\<close> by (simp add: pl')
qed

text \<open>A stub goes above the others, unless there is no room or its branch would not reach.\<close>

lemma sint_small: "\<bar>d\<bar> < 65536 \<Longrightarrow> sint (word_of_int d :: u32) = d"
  by (simp add: sint_sbintrunc' signed_take_bit_int_eq_self_iff) linarith

lemma gateway_distance:
  assumes h: "pool_holds m pl T G" and small: "unat (tp_size pl) < 65536" and j: "j < length G" and i: "i \<le> length T"
  shows "even (sint (gateway_addr pl j - (stub_addr pl i + 12)))"
    and "\<bar>sint (gateway_addr pl j - (stub_addr pl i + 12))\<bar> < 65536"
proof -
  have sz: "unat (tp_used pl) = 10 * length T" "unat (tp_size pl) = unat (tp_gateway_top pl) + 18 * length G"
    "4 dvd unat (tp_size pl)" "unat (tp_used pl) \<le> unat (tp_gateway_top pl)"
    using h unfolding pool_holds_def pool_ok_def by blast+
  let ?d = "int (unat (tp_gateway_top pl) + 18 * j) - int (10 * i) - 12"
  have w: "gateway_addr pl j - (stub_addr pl i + 12) = word_of_int ?d"
    by (simp add: gateway_addr_def stub_addr_def)
  have r: "\<bar>?d\<bar> < 65536" using i sz j small by linarith
  note d = sint_small [OF r]
  have "even ?d" using sz(2,3) by presburger
  with r show "even (sint (gateway_addr pl j - (stub_addr pl i + 12)))"
    "\<bar>sint (gateway_addr pl j - (stub_addr pl i + 12))\<bar> < 65536"
    unfolding w d by blast+
qed


lemma alloc_stub_holds:
  assumes h: "pool_holds m pl T G" and small: "unat (tp_size pl) < 65536" and j: "j < length G"
    and a: "udynlink_thunk_alloc_stub m pl f (gateway_addr pl j) = (r, pl', m')"
  shows "((r = 0 \<and> pool_holds m' pl' T G) \<or>
      (r = stub_addr pl' (length T) OR 1 \<and> pool_holds m' pl' (T @ [(f, G ! j)]) G))
    \<and> tp_size pl' = tp_size pl \<and> tp_base pl' = tp_base pl \<and> tp_gateway_top pl' = tp_gateway_top pl
    \<and> (\<forall>a. a \<notin> blk (tp_base pl) (tp_size pl) \<longrightarrow> m' a = m a)"
proof -
  let ?s = "tp_base pl + tp_used pl"
  have ok: "pool_ok pl" and sz: "unat (tp_used pl) = 10 * length T"
    using h by (simp_all add: pool_holds_def)
  have u: "unat (tp_used pl) \<le> unat (tp_gateway_top pl)" "unat (tp_gateway_top pl) \<le> unat (tp_size pl)"
    "unat (tp_base pl) + unat (tp_size pl) < 2 ^ 32" "tp_base pl \<noteq> 0"
    using ok by (simp_all add: pool_ok_def)
  have used: "unat (tp_used pl + 10) = unat (tp_used pl) + 10" using u small by (subst unat_plus_no_wrap) simp_all
  have s: "?s = stub_addr pl (length T)" by (simp add: stub_addr_def flip: sz)
  have s0: "?s \<noteq> NULL"
  proof -
    have "unat ?s = unat (tp_base pl) + unat (tp_used pl)" using u by (intro unat_plus_no_wrap) simp
    moreover have "unat (tp_base pl) \<noteq> 0" using u(4) by (simp add: unat_eq_0)
    ultimately show ?thesis by (metis add_is_0 unat_0)
  qed
  show ?thesis
  proof (cases "tp_used pl + 10 > tp_gateway_top pl")
    case True
    then show ?thesis using a h by (auto simp: udynlink_thunk_alloc_stub_def udynlink_thunk_alloc_def UDYNLINK_STUB_SIZE_def)
  next
    case False
    then have room: "unat (tp_used pl) + 10 \<le> unat (tp_gateway_top pl)" using used by (simp add: word_less_nat_alt)
    obtain r1 m1 where w: "udynlink_thunk_write_stub m ?s f (gateway_addr pl j) = (r1, m1)" by fastforce
    have m1: "m1 = snd (udynlink_thunk_write_stub m ?s f (gateway_addr pl j))"
      and r1: "r1 = fst (udynlink_thunk_write_stub m ?s f (gateway_addr pl j))" by (simp_all add: w)
    have res: "m' = m1" "pl' = (if r1 = 0 then pl else pl\<lparr>tp_used := tp_used pl + 10\<rparr>)" "r = (if r1 = 0 then 0 else ?s OR 1)"
      using a False s0 w
      by (auto simp: udynlink_thunk_alloc_stub_def udynlink_thunk_alloc_def UDYNLINK_STUB_SIZE_def split: if_splits)
    have out: "m1 a = m a" if "a \<notin> blk ?s 10" for a unfolding m1 using that by (rule write_stub_frame)
    have keep: "pool_holds m1 pl T G"
      by (rule pool_holds_frame [OF h, where off = "unat (tp_used pl)" and n = 10]) (use room out in auto)
    have "blk ?s 10 \<subseteq> blk (tp_base pl) (tp_size pl)" by (rule sub_blk) (use room u in simp)
    then have frame: "m' a = m a" if "a \<notin> blk (tp_base pl) (tp_size pl)" for a
      using that out unfolding res by blast
    show ?thesis
    proof (cases "r1 = 0")
      case True
      then show ?thesis using res keep frame by simp
    next
      case r0: False
      note dist = gateway_distance [OF h small j le_refl]
      have code: "stub_code m1 ?s f (gateway_addr pl j)"
        unfolding s m1 using r0 write_stub_cases [OF dist, of m f] unfolding r1 s by (auto split: if_splits)
      have addrs: "gateway_addr pl' k = gateway_addr pl k" "stub_addr pl' k = stub_addr pl k" for k
        using r0 by (simp_all add: res gateway_addr_def stub_addr_def)
      have "pool_ok pl'" using ok room used r0 by (simp add: res pool_ok_def)
      then have "pool_holds m1 pl' (T @ [(f, G ! j)]) G"
        using keep code j used sz r0 unfolding pool_holds_def addrs s
        by (auto simp: res nth_append less_Suc_eq)
      then show ?thesis using res frame r0 s addrs by simp
    qed
  qed
qed

section \<open>Initialisation\<close>

lemma and_not_3: "unat (x AND NOT 3 :: u32) = unat x - unat x mod 4"
  using and_not_pred_pow2 [of 4 x] by simp

lemma and_3: "unat (x AND 3 :: u32) = unat x mod 4"
  using and_pred_pow2 [of 4 x] by simp

text \<open>C40: initialising a pool on any non-null buffer that does not reach the end of the address
  space gives an empty pool that lies inside the buffer, with a word-aligned base and top unless
  the buffer is too small to reach an aligned word: then the pool has size 0.\<close>

theorem pool_init_correct:
  assumes "buf \<noteq> NULL" and fit: "unat buf + unat sz < 2 ^ 32"
  shows "pool_holds m (udynlink_thunk_pool_init buf sz) [] []
    \<and> unat buf \<le> unat (tp_base (udynlink_thunk_pool_init buf sz))
    \<and> unat (tp_base (udynlink_thunk_pool_init buf sz)) + unat (tp_size (udynlink_thunk_pool_init buf sz)) \<le> unat buf + unat sz"
proof -
  have b0: "unat buf \<noteq> 0" using assms(1) by (simp add: unat_eq_0)
  let ?skip = "4 - (buf AND 3)"
  have skip: "unat ?skip = 4 - unat buf mod 4" by (simp add: unat_sub word_le_nat_alt and_3)
  have dvd: "4 dvd unat buf + (4 - unat buf mod 4)" by presburger
  have round: "4 dvd k - k mod 4" "k - k mod 4 \<le> k" for k :: nat by (auto intro: dvd_minus_mod)
  have init: "pool_holds m \<lparr>tp_base = b, tp_size = k AND NOT 3, tp_used = 0, tp_gateway_top = k AND NOT 3\<rparr> [] []
      \<and> unat (k AND NOT 3) \<le> unat k"
    if "unat buf \<le> unat b" "k = 0 \<or> 4 dvd unat b" "unat b + unat k \<le> unat buf + unat sz" for b k
    using that fit round [of "unat k"] b0 unfolding pool_holds_def pool_ok_def and_not_3 udynlink_thunk_pool_t.simps
    by (auto simp: and_not_3 [simplified])
  consider (aligned) "buf AND 3 = 0" | (tiny) "buf AND 3 \<noteq> 0" "?skip \<ge> sz" | (skip) "buf AND 3 \<noteq> 0" "\<not> ?skip \<ge> sz"
    by blast
  then show ?thesis
  proof cases
    case aligned
    then show ?thesis using init [of buf sz]
      by (simp add: udynlink_thunk_pool_init_def Let_def and_3_eq_0_iff)
  next
    case tiny
    then have "unat (buf + sz) = unat buf + unat sz" using fit by (intro unat_plus_no_wrap) simp
    with tiny init [of "buf + sz" 0] show ?thesis by (simp add: udynlink_thunk_pool_init_def Let_def)
  next
    case skip: skip
    then have lt: "4 - unat buf mod 4 < unat sz" using \<open>unat ?skip = _\<close> by (simp add: word_le_nat_alt not_le)
    have b: "unat (buf + ?skip) = unat buf + (4 - unat buf mod 4)"
      using fit lt \<open>unat ?skip = _\<close> by (subst unat_plus_no_wrap) simp_all
    have k: "unat (sz - ?skip) = unat sz - (4 - unat buf mod 4)"
      using lt \<open>unat ?skip = _\<close> by (simp add: unat_sub word_le_nat_alt)
    have p: "pool_holds m \<lparr>tp_base = buf + ?skip, tp_size = (sz - ?skip) AND NOT 3, tp_used = 0,
        tp_gateway_top = (sz - ?skip) AND NOT 3\<rparr> [] [] \<and> unat ((sz - ?skip) AND NOT 3) \<le> unat (sz - ?skip)"
      by (rule init) (use b k lt dvd in linarith | use b dvd in simp)+
    have "udynlink_thunk_pool_init buf sz = \<lparr>tp_base = buf + ?skip, tp_size = (sz - ?skip) AND NOT 3, tp_used = 0,
        tp_gateway_top = (sz - ?skip) AND NOT 3\<rparr>"
      using skip by (simp add: udynlink_thunk_pool_init_def Let_def)
    with p b k lt show ?thesis by (simp only: udynlink_thunk_pool_t.simps) (intro conjI TrueI, linarith+)
  qed
qed

theorem pool_init_correct_witness:
  "pool_holds (\<lambda>_. 0) (udynlink_thunk_pool_init 0x20102 64) [] []"
  using pool_init_correct [of "0x20102" 64 "\<lambda>_. 0"] by simp

section \<open>An image executed in place\<close>

lemma plain_f: "get_sym_at plain_mem 0x1000 1 = Some \<lparr>s_name = In_memory 0x1066, s_val = 4, s_type = UDYNLINK_SYM_TYPE_EXPORTED, s_location = UDYNLINK_SYM_LOCATION_CODE\<rparr>"
  by (simp add: get_sym_at_def get_sym_at_raw_def plain_pointer plain_header plain_words sym_type_of_def sym_location_of_def acc_defs Let_def word_le_nat_alt)

lemma plain_name_f: "cstr plain_mem 0x1066 = [0x66]"
  using plain_cstr(1) [of 4294967295] by (simp add: cstr_def)

lemma plain_lsearch_f: "lsearch plain_mem 0x1000 [0x66] (Suc 0) = Some \<lparr>s_name = In_memory 0x1066, s_val = 4,
    s_type = UDYNLINK_SYM_TYPE_EXPORTED, s_location = UDYNLINK_SYM_LOCATION_CODE\<rparr>"
  by (subst lsearch.simps) (simp add: plain_f plain_name_f acc_defs)

text \<open>The untagged example image executed in place, with its RAM at \<open>ram\<close>.\<close>

definition instance_at :: "addr \<Rightarrow> udynlink_module_t" where
  "instance_at ram = \<lparr>p_header = 0x1000, p_ram = ram, info = 2, reserved = 0, reserved2 = 0,
     num_named_syms = 0, user_ctx = NULL\<rparr>"

lemma instance_ram: "p_ram (instance_at ram) = ram"
  by (simp add: instance_at_def)

lemma plain_lookup_f:
  "udynlink_lookup_symbol x (Some (instance_at ram)) (Literal [0x66]) (start_world plain_mem) =
   (Some \<lparr>s_name = In_memory 0x1066, s_val = 0x1070, s_type = UDYNLINK_SYM_TYPE_EXPORTED,
      s_location = UDYNLINK_SYM_LOCATION_CODE\<rparr>, start_world plain_mem)"
proof -
  have "get_code_pointer plain_mem (instance_at ram) = 0x106C"
    by (simp add: get_code_pointer_def instance_at_def plain_header is_sectioned_def get_code_offset_from_header_def
      get_symtab_end_offset_def get_header_size_def get_num_sections_raw_def LOAD_GET_MODE_def acc_defs Let_def)
  then show ?thesis
    by (simp add: udynlink_lookup_symbol_def instance_at_def start_world_def plain_lsearch_f finish_lookup_def
      acc_defs Let_def offset_sym_def plain_header is_sectioned_def)
qed

section \<open>Making a call thunk\<close>

text \<open>C12: making a call thunk keeps the pool well formed and everything outside it unchanged; the
  address returned is that of a stub for the function found, and the stubs already made stay.
  The stub's gateway loads the module's base, or the pool already held a stub of that very
  function made for another instance of the module: then that one is handed out and nothing
  is added.\<close>

theorem make_call_correct:
  assumes look: "udynlink_lookup_symbol x (Some pm) nm w = (Some s, w1)"
    and code: "s_location s \<noteq> UDYNLINK_SYM_LOCATION_DATA"
    and h: "pool_holds (w_mem w1) pool T G" and small: "unat (tp_size pool) < 65536"
    and call: "udynlink_thunk_make_call x pool (Some pm) (Some nm) w = (r, pool', w')"
  shows "\<exists>T' G'. pool_holds (w_mem w') pool' T' G' \<and> tp_base pool' = tp_base pool \<and> tp_size pool' = tp_size pool
    \<and> (\<forall>a. a \<notin> blk (tp_base pool) (tp_size pool) \<longrightarrow> w_mem w' a = w_mem w1 a)
    \<and> (if r = 0 then T' = T
       else \<exists>i < length T'. r = stub_addr pool' i OR 1 \<and> take (length T) T' = T
         \<and> (T' ! i = (s_val s, p_ram pm) \<or> (T' = T \<and> (\<exists>rb. rb \<noteq> p_ram pm \<and> T ! i = (s_val s, rb)))))"
proof -
  let ?f = "s_val s" and ?rb = "p_ram pm" and ?m = "w_mem w1"
  let ?e = "udynlink_external_find_stub ?m (Some pool) ?f" and ?g0 = "udynlink_thunk_find_gateway ?m (Some pool) ?rb"
  have mem: "w1\<lparr>w_mem := ?m\<rparr> = w1" by simp
  have res: "(r, pool', w') = (if ?e \<noteq> 0 then (?e, pool, w1) else
      let (gw, pool2, m2) = (if ?g0 = NULL then udynlink_thunk_alloc_gateway ?m pool ?rb else (?g0, pool, ?m))
      in if gw = NULL then (0, pool2, w1\<lparr>w_mem := m2\<rparr>)
         else let (r, pool3, m3) = udynlink_thunk_alloc_stub m2 pool2 ?f gw in (r, pool3, w1\<lparr>w_mem := m3\<rparr>))"
    unfolding call [symmetric] using look code by (simp add: udynlink_thunk_make_call_def Let_def)
  show ?thesis
  proof (cases "?e = 0")
    case False
    then obtain i where i: "i < length T" "fst (T ! i) = ?f" "?e = stub_addr pool i OR 1"
      using find_stub_holds [OF h, of ?f] by auto
    then have "T ! i = (?f, ?rb) \<or> (\<exists>rb. rb \<noteq> ?rb \<and> T ! i = (?f, rb))" by (metis prod.collapse)
    then show ?thesis using res False i h by (intro exI [of _ T] exI [of _ G]) auto
  next
    case True
    obtain gw pool2 m2 where gw:
      "(gw, pool2, m2) = (if ?g0 = NULL then udynlink_thunk_alloc_gateway ?m pool ?rb else (?g0, pool, ?m))"
      by (metis prod_cases3)
    have "(gw = NULL \<and> pool2 = pool \<and> m2 = ?m) \<or>
      (\<exists>G2 j. j < length G2 \<and> gw = gateway_addr pool2 j \<and> gw \<noteq> NULL \<and> G2 ! j = ?rb \<and> pool_holds m2 pool2 T G2
        \<and> tp_size pool2 = tp_size pool \<and> tp_base pool2 = tp_base pool
        \<and> (\<forall>a. a \<notin> blk (tp_base pool) (tp_size pool) \<longrightarrow> m2 a = ?m a))"
    proof (cases "?g0 = NULL")
      case True
      then have "udynlink_thunk_alloc_gateway ?m pool ?rb = (gw, pool2, m2)" using gw by simp
      from alloc_gateway_holds [OF h small this] show ?thesis
        by (elim disjE) (simp, intro disjI2 exI [of _ "?rb # G"] exI [of _ 0], auto)
    next
      case False
      then show ?thesis using gw h find_gateway_holds [OF h, of ?rb] by auto
    qed
    then consider (none) "gw = NULL" "pool2 = pool" "m2 = ?m"
      | (some) G2 j where "j < length G2" "gw = gateway_addr pool2 j" "gw \<noteq> NULL" "G2 ! j = ?rb" "pool_holds m2 pool2 T G2"
        "tp_size pool2 = tp_size pool" "tp_base pool2 = tp_base pool"
        "\<forall>a. a \<notin> blk (tp_base pool) (tp_size pool) \<longrightarrow> m2 a = ?m a"
      by blast
    then show ?thesis
    proof cases
      case none
      then show ?thesis using res True gw [symmetric] h by (intro exI [of _ T] exI [of _ G]) (simp add: mem)
    next
      case some
      obtain r3 pool3 m3 where st: "udynlink_thunk_alloc_stub m2 pool2 ?f gw = (r3, pool3, m3)" by (metis prod_cases3)
      have out: "r = r3" "pool' = pool3" "w_mem w' = m3"
        using res True gw [symmetric] some(3) st by auto
      have small2: "unat (tp_size pool2) < 65536" using small some by simp
      note a = alloc_stub_holds [OF some(5) small2 some(1) st [unfolded some(2)]]
      have r0: "stub_addr pool3 (length T) OR 1 \<noteq> 0"
        by (auto dest: arg_cong [where f = "\<lambda>w. bit w 0"] simp: bit_simps)
      from a consider "r3 = 0" "pool_holds m3 pool3 T G2"
        | "r3 = stub_addr pool3 (length T) OR 1" "pool_holds m3 pool3 (T @ [(?f, G2 ! j)]) G2" by blast
      then show ?thesis
      proof cases
        case 1
        then show ?thesis using a some out by (intro exI [of _ T] exI [of _ G2]) auto
      next
        case 2
        then show ?thesis using a some out r0
          by (intro exI [of _ "T @ [(?f, ?rb)]"] exI [of _ G2]) (auto intro!: exI [of _ "length T"])
      qed
    qed
  qed
qed

theorem make_call_correct_witness:
  "\<exists>T' G' pool' w'. udynlink_thunk_make_call bump_host (udynlink_thunk_pool_init 0x20100 64) (Some (instance_at 0x20001000))
      (Some (Literal [0x66])) (start_world plain_mem) = (0x20101, pool', w') \<and> pool_holds (w_mem w') pool' T' G' \<and> (0x1070, 0x20001000) \<in> set T'"
proof -
  let ?pl = "udynlink_thunk_pool_init 0x20100 64"
  obtain r pool' w' where call: "udynlink_thunk_make_call bump_host ?pl (Some (instance_at 0x20001000))
      (Some (Literal [0x66])) (start_world plain_mem) = (r, pool', w')" by (metis prod_cases3)
  have pl: "?pl = \<lparr>tp_base = 0x20100, tp_size = 64, tp_used = 0, tp_gateway_top = 64\<rparr>"
    by (simp add: udynlink_thunk_pool_init_def)
  have "r = 0x20101"
    using arg_cong [OF call, of fst]
    by (simp add: udynlink_thunk_make_call_def plain_lookup_f acc_defs Let_def pl udynlink_external_find_stub_def
      udynlink_thunk_find_gateway_def find_gateway_loop.simps [of _ _ 64 _ 64] udynlink_thunk_alloc_gateway_def
      udynlink_thunk_alloc_stub_def udynlink_thunk_alloc_def udynlink_thunk_write_stub_def branch_hw_offset_def half_toward_zero_def instance_ram)
  moreover have h: "pool_holds (w_mem (start_world plain_mem)) ?pl [] []"
    by (simp add: pl pool_holds_def pool_ok_def)
  ultimately show ?thesis
    using make_call_correct [OF plain_lookup_f _ h _ call] call
    by (auto simp: acc_defs pl instance_ram in_set_conv_nth)
qed


text \<open>The reuse of stubs compares function addresses only: a stub made for one instance of an
  image executed in place is handed out for another instance of it, whose base it does not load.\<close>

lemma make_call_ignores_instance:
  assumes "udynlink_lookup_symbol x (Some pm) nm w = (Some s, w1)" and "s_location s \<noteq> UDYNLINK_SYM_LOCATION_DATA"
    and h: "pool_holds (w_mem w1) pool T G" and "(s_val s, rb) \<in> set T"
  shows "\<exists>i < length T. fst (T ! i) = s_val s
    \<and> udynlink_thunk_make_call x pool (Some pm) (Some nm) w = (stub_addr pool i OR 1, pool, w1)"
proof -
  have "s_val s \<in> fst ` set T" using assms(4) by force
  then obtain i where i: "i < length T" "fst (T ! i) = s_val s"
    "udynlink_external_find_stub (w_mem w1) (Some pool) (s_val s) = stub_addr pool i OR 1"
    using find_stub_holds [OF h, of "s_val s"] by blast
  have "stub_addr pool i OR 1 \<noteq> 0" by (auto dest: arg_cong [where f = "\<lambda>w. bit w 0"] simp: bit_simps)
  then show ?thesis using assms(1,2) i by (auto simp: udynlink_thunk_make_call_def Let_def)
qed

text \<open>The branch distance is cut to 16 bits before its range is checked: a gateway 128 KiB away is
  accepted, and the stub branches elsewhere.\<close>

lemma far_gateway_accepted:
  "fst (udynlink_thunk_write_stub m 0x100 f 0x2010C) = 0x101"
  "branch_hw_offset 0x100 0x2010C = 0"
  by (simp_all add: udynlink_thunk_write_stub_def branch_hw_offset_def half_toward_zero_def Let_def)

end
