(* ===== verification/WasmRt.thy ===== *)
theory WasmRt
  imports World
begin

text \<open>
  The bare-metal wasm2c runtime (\<open>udynlink/wasm2c_runtime/wasm-rt-udynlink.c\<close>): the byte
  loops standing in for libc, the allocation hooks, trap reporting and recovery, the linear
  memory in its three build configurations, and the funcref and externref tables.
  \<open>size_t\<close> is 32 bits wide; page counts are 64-bit, as in the code.
\<close>

section \<open>Byte loops\<close>

fun copy_up :: "mem \<Rightarrow> addr \<Rightarrow> addr \<Rightarrow> nat \<Rightarrow> mem" where
  "copy_up m d s 0 = m"
| "copy_up m d s (Suc n) = copy_up (m(d := m s)) (d + 1) (s + 1) n"

text \<open>The pointers start one past the last byte and are decremented before each access.\<close>

fun copy_down :: "mem \<Rightarrow> addr \<Rightarrow> addr \<Rightarrow> nat \<Rightarrow> mem" where
  "copy_down m d s 0 = m"
| "copy_down m d s (Suc n) = copy_down (m(d - 1 := m (s - 1))) (d - 1) (s - 1) n"

fun fill_up :: "mem \<Rightarrow> addr \<Rightarrow> u8 \<Rightarrow> nat \<Rightarrow> mem" where
  "fill_up m p c 0 = m"
| "fill_up m p c (Suc n) = fill_up (m(p := c)) (p + 1) c n"

definition rt_memcpy :: "mem \<Rightarrow> addr \<Rightarrow> addr \<Rightarrow> u32 \<Rightarrow> mem" where
  "rt_memcpy m dest src n = copy_up m dest src (unat n)"

definition rt_memset :: "mem \<Rightarrow> addr \<Rightarrow> u8 \<Rightarrow> u32 \<Rightarrow> mem" where
  "rt_memset m s c n = fill_up m s c (unat n)"

definition rt_memmove :: "mem \<Rightarrow> addr \<Rightarrow> addr \<Rightarrow> u32 \<Rightarrow> mem" where
  "rt_memmove m dest src n =
     (if dest < src then copy_up m dest src (unat n)
      else if dest > src then copy_down m (dest + n) (src + n) (unat n)
      else m)"

fun compare_up :: "mem \<Rightarrow> addr \<Rightarrow> addr \<Rightarrow> nat \<Rightarrow> int" where
  "compare_up m p1 p2 0 = 0"
| "compare_up m p1 p2 (Suc n) =
     (if m p1 \<noteq> m p2 then uint (m p1) - uint (m p2) else compare_up m (p1 + 1) (p2 + 1) n)"

definition rt_memcmp :: "mem \<Rightarrow> addr \<Rightarrow> addr \<Rightarrow> u32 \<Rightarrow> int" where
  "rt_memcmp m s1 s2 n = compare_up m s1 s2 (unat n)"

section \<open>Allocation hooks\<close>

definition WASM_RT_HOOK_ALIGN :: u32 where
  [acc_defs]: "WASM_RT_HOOK_ALIGN = 8"

definition wasm_rt_malloc :: "'h externals \<Rightarrow> u32 \<Rightarrow> 'h world \<Rightarrow> addr \<times> 'h world" where
  "wasm_rt_malloc x sz w = udynlink_external_malloc x sz NULL WASM_RT_HOOK_ALIGN 0 w"

definition wasm_rt_mem_free :: "'h externals \<Rightarrow> addr \<Rightarrow> 'h world \<Rightarrow> 'h world" where
  "wasm_rt_mem_free x p w = udynlink_external_free x p NULL WASM_RT_HOOK_ALIGN 0 w"

definition wasm_rt_mem_realloc ::
  "'h externals \<Rightarrow> addr \<Rightarrow> u32 \<Rightarrow> u32 \<Rightarrow> 'h world \<Rightarrow> addr \<times> 'h world" where
  "wasm_rt_mem_realloc x p old_size new_size w =
     (if new_size = 0 then (NULL, if p \<noteq> NULL then wasm_rt_mem_free x p w else w)
      else let (np, w1) = wasm_rt_malloc x new_size w
      in if np = NULL then (NULL, w1)
      else if p \<noteq> NULL then
        let w2 = w1\<lparr>w_mem := rt_memcpy (w_mem w1) np p
                      (if old_size < new_size then old_size else new_size)\<rparr>
        in (np, wasm_rt_mem_free x p w2)
      else (np, w1))"

definition wasm_rt_resolve_import ::
  "'h externals \<Rightarrow> udynlink_module_t \<Rightarrow> cname \<Rightarrow> cname \<Rightarrow> 'h world \<Rightarrow> u32 \<times> 'h world" where
  "wasm_rt_resolve_import x p_mod module name w = x_resolve x p_mod name w"

section \<open>Traps\<close>

datatype wasm_rt_trap_t =
    TRAP_NONE | TRAP_OOB | TRAP_INT_OVERFLOW | TRAP_DIV_BY_ZERO | TRAP_INVALID_CONVERSION
  | TRAP_UNREACHABLE | TRAP_CALL_INDIRECT | TRAP_UNCAUGHT_EXCEPTION | TRAP_UNALIGNED
  | TRAP_EXHAUSTION | TRAP_OOM

definition trap_names :: "(wasm_rt_trap_t \<times> string) list" where
  "trap_names = [(TRAP_NONE, ''none''), (TRAP_OOB, ''out of bounds''),
     (TRAP_INT_OVERFLOW, ''integer overflow''), (TRAP_DIV_BY_ZERO, ''divide by zero''),
     (TRAP_INVALID_CONVERSION, ''invalid conversion''), (TRAP_UNREACHABLE, ''unreachable''),
     (TRAP_CALL_INDIRECT, ''call indirect''), (TRAP_UNCAUGHT_EXCEPTION, ''uncaught exception''),
     (TRAP_UNALIGNED, ''unaligned''), (TRAP_EXHAUSTION, ''exhaustion''),
     (TRAP_OOM, ''out of memory'')]"

text \<open>The enumerator's position, the index into the table of names.\<close>

definition wasm_rt_strerror :: "nat \<Rightarrow> string" where
  "wasm_rt_strerror trap =
     (if trap < length trap_names then snd (trap_names ! trap) else ''unknown trap'')"

datatype memory_model = Static_memory addr nat | Dynamic_memory | External_memory

text \<open>The build configuration: memory model (with the linker's buffer and the page count of a
  static one), recoverable traps, stack-depth counting.\<close>

record wasm_rt_config =
  c_memory :: memory_model
  c_recovery :: bool
  c_stack_depth :: bool

text \<open>The runtime's static variables. \<open>g_recovery\<close> is the registered \<open>jmp_buf\<close> or \<open>NULL\<close>.\<close>

record wasm_rt_state =
  g_last_trap :: wasm_rt_trap_t
  g_recovery :: addr
  g_initialized :: bool
  g_call_stack_depth :: u32
  g_ext_mem_buf :: addr
  g_ext_mem_capacity :: u32

definition wasm_rt_start :: wasm_rt_state where
  "wasm_rt_start = \<lparr>g_last_trap = TRAP_NONE, g_recovery = NULL, g_initialized = False,
     g_call_stack_depth = 0, g_ext_mem_buf = NULL, g_ext_mem_capacity = 0\<rparr>"

definition wasm_rt_last_trap :: "wasm_rt_state \<Rightarrow> wasm_rt_trap_t" where
  "wasm_rt_last_trap g = g_last_trap g"

definition wasm_rt_set_recovery :: "addr \<Rightarrow> wasm_rt_state \<Rightarrow> wasm_rt_state" where
  "wasm_rt_set_recovery jb g = g\<lparr>g_recovery := jb\<rparr>"

text \<open>How a call of the runtime ends: it returns, or a trap unwinds to a recovery point or
  reaches the endless loop.\<close>

datatype 'a outcome = Returns 'a | Longjmp addr | Halts

text \<open>\<open>wasm_rt_trap\<close> does not return; the default handler does nothing.\<close>

definition wasm_rt_trap ::
  "wasm_rt_config \<Rightarrow> wasm_rt_trap_t \<Rightarrow> wasm_rt_state \<Rightarrow> 'a outcome \<times> wasm_rt_state" where
  "wasm_rt_trap cfg trap g =
     (let g1 = g\<lparr>g_last_trap := trap\<rparr>
      in if c_recovery cfg \<and> g_recovery g1 \<noteq> NULL then
           let g2 = g1\<lparr>g_recovery := NULL\<rparr>;
               g3 = (if c_stack_depth cfg then g2\<lparr>g_call_stack_depth := 0\<rparr> else g2)
           in (Longjmp (g_recovery g1), g3)
         else (Halts, g1))"

section \<open>Lifecycle\<close>

definition wasm_rt_init :: "wasm_rt_state \<Rightarrow> wasm_rt_state" where
  "wasm_rt_init g = g\<lparr>g_initialized := True\<rparr>"

definition wasm_rt_is_initialized :: "wasm_rt_state \<Rightarrow> bool" where
  "wasm_rt_is_initialized g = g_initialized g"

definition wasm_rt_free :: "wasm_rt_state \<Rightarrow> wasm_rt_state" where
  "wasm_rt_free g = g\<lparr>g_initialized := False\<rparr>"

definition wasm_rt_set_external_memory :: "addr \<Rightarrow> u32 \<Rightarrow> wasm_rt_state \<Rightarrow> wasm_rt_state" where
  "wasm_rt_set_external_memory buf capacity_bytes g =
     g\<lparr>g_ext_mem_buf := buf, g_ext_mem_capacity := capacity_bytes\<rparr>"

section \<open>Linear memory\<close>

text \<open>The default; a build that overrides it is not modelled.\<close>

definition WASM_RT_PAGE_SIZE :: u32 where
  [acc_defs]: "WASM_RT_PAGE_SIZE = 65536"

record wasm_rt_memory_t =
  m_data :: addr
  m_pages :: u64
  m_max_pages :: u64
  m_size :: u64
  m_is64 :: bool

text \<open>The conversion of \<open>1ULL << 48\<close> to a 32-bit \<open>size_t\<close> keeps its low word.\<close>

definition mem_page_size :: "bool \<Rightarrow> u32" where
  "mem_page_size is64 = (if is64 then ucast (push_bit 48 (1 :: u64)) else WASM_RT_PAGE_SIZE)"

text \<open>The descriptor is written before a trap leaves the function, so it is part of the result
  in every outcome.\<close>

definition wasm_rt_allocate_memory ::
  "wasm_rt_config \<Rightarrow> 'h externals \<Rightarrow> wasm_rt_memory_t \<Rightarrow> u64 \<Rightarrow> u64 \<Rightarrow> bool
   \<Rightarrow> wasm_rt_state \<Rightarrow> 'h world \<Rightarrow> unit outcome \<times> wasm_rt_memory_t \<times> wasm_rt_state \<times> 'h world" where
  "wasm_rt_allocate_memory cfg x md initial_pages max_pages is64 g w =
     (case c_memory cfg of
        Static_memory buf n \<Rightarrow>
          (Returns (), md\<lparr>m_is64 := is64, m_data := buf, m_pages := of_nat n,
                       m_max_pages := of_nat n, m_size := of_nat n * 65536\<rparr>, g, w)
      | External_memory \<Rightarrow>
          let page_size = mem_page_size is64;
              need = (ucast (initial_pages * ucast page_size) :: u32);
              md1 = md\<lparr>m_is64 := is64, m_pages := initial_pages\<rparr>
          in if g_ext_mem_buf g = NULL \<or> g_ext_mem_capacity g < need then
               (let (r, g') = wasm_rt_trap cfg TRAP_OOM g in (r, md1, g', w))
             else
               let capacity_pages = (ucast (g_ext_mem_capacity g div page_size) :: u64)
               in (Returns (), md1\<lparr>m_data := g_ext_mem_buf g,
                      m_max_pages := (if max_pages < capacity_pages then max_pages else capacity_pages),
                      m_size := ucast need\<rparr>, g, w)
      | Dynamic_memory \<Rightarrow>
          let page_size = mem_page_size is64;
              need = (ucast (initial_pages * ucast page_size) :: u32);
              (p, w1) = wasm_rt_malloc x need w;
              md1 = md\<lparr>m_is64 := is64, m_pages := initial_pages, m_data := p\<rparr>
          in if need \<noteq> 0 \<and> p = NULL then
               (let (r, g') = wasm_rt_trap cfg TRAP_OOM g in (r, md1, g', w1))
             else (Returns (), md1\<lparr>m_max_pages := max_pages, m_size := ucast need\<rparr>, g, w1))"

definition wasm_rt_grow_memory ::
  "wasm_rt_config \<Rightarrow> 'h externals \<Rightarrow> wasm_rt_memory_t \<Rightarrow> u64 \<Rightarrow> 'h world
   \<Rightarrow> u64 \<times> wasm_rt_memory_t \<times> 'h world" where
  "wasm_rt_grow_memory cfg x md pages w =
     (if m_pages md + pages > m_max_pages md then (0xffffffff, md, w)
      else
        let old_pages = m_pages md; page_size = mem_page_size (m_is64 md)
        in if c_memory cfg = External_memory then
             (old_pages, md\<lparr>m_pages := m_pages md + pages,
                m_size := ucast (ucast ((m_pages md + pages) * ucast page_size) :: u32)\<rparr>, w)
           else
             let old_size = (ucast (m_size md) :: u32);
                 new_size = old_size + (ucast (pages * ucast page_size) :: u32);
                 (new_data, w1) = wasm_rt_mem_realloc x (m_data md) old_size new_size w
             in if new_data = NULL then (0xffffffff, md, w1)
                else (old_pages, md\<lparr>m_data := new_data, m_pages := m_pages md + pages,
                                    m_size := ucast new_size\<rparr>, w1))"

definition wasm_rt_free_memory ::
  "wasm_rt_config \<Rightarrow> 'h externals \<Rightarrow> wasm_rt_memory_t \<Rightarrow> 'h world \<Rightarrow> wasm_rt_memory_t \<times> 'h world" where
  "wasm_rt_free_memory cfg x md w =
     (if c_memory cfg = Dynamic_memory \<and> m_data md \<noteq> NULL
      then (md\<lparr>m_data := NULL\<rparr>, wasm_rt_mem_free x (m_data md) w) else (md, w))"

section \<open>Reference tables\<close>

text \<open>A table descriptor; both table types have these fields. A funcref is four words on the
  target (type, function, tail callee, instance), an externref is one.\<close>

record wasm_rt_table_t =
  t_data :: addr
  t_max_size :: u32
  t_size :: u32

record wasm_rt_funcref_t =
  fr_func_type :: u32
  fr_func :: u32
  fr_func_tailcallee :: u32
  fr_module_instance :: u32

definition write_funcref :: "mem \<Rightarrow> addr \<Rightarrow> wasm_rt_funcref_t \<Rightarrow> mem" where
  "write_funcref m p v =
     wr32 (wr32 (wr32 (wr32 m p (fr_func_type v)) (p + 4) (fr_func v)) (p + 8) (fr_func_tailcallee v))
       (p + 12) (fr_module_instance v)"

definition wasm_rt_allocate_funcref_table ::
  "wasm_rt_config \<Rightarrow> 'h externals \<Rightarrow> wasm_rt_table_t \<Rightarrow> u32 \<Rightarrow> u32 \<Rightarrow> wasm_rt_state \<Rightarrow> 'h world
   \<Rightarrow> unit outcome \<times> wasm_rt_table_t \<times> wasm_rt_state \<times> 'h world" where
  "wasm_rt_allocate_funcref_table cfg x tb elements max_elements g w =
     (if max_elements = 0 then (Returns (), \<lparr>t_data = NULL, t_max_size = 0, t_size = 0\<rparr>, g, w)
      else let (p, w1) = wasm_rt_malloc x (max_elements * 16) w; tb1 = tb\<lparr>t_data := p\<rparr>
      in if p = NULL then (let (r, g') = wasm_rt_trap cfg TRAP_OOM g in (r, tb1, g', w1))
         else (Returns (), tb1\<lparr>t_max_size := max_elements, t_size := elements\<rparr>, g,
               w1\<lparr>w_mem := rt_memset (w_mem w1) p 0 (max_elements * 16)\<rparr>))"

definition wasm_rt_free_funcref_table ::
  "'h externals \<Rightarrow> wasm_rt_table_t \<Rightarrow> 'h world \<Rightarrow> wasm_rt_table_t \<times> 'h world" where
  "wasm_rt_free_funcref_table x tb w =
     (if t_data tb \<noteq> NULL then (tb\<lparr>t_data := NULL\<rparr>, wasm_rt_mem_free x (t_data tb) w) else (tb, w))"

definition wasm_rt_allocate_externref_table ::
  "wasm_rt_config \<Rightarrow> 'h externals \<Rightarrow> wasm_rt_table_t \<Rightarrow> u32 \<Rightarrow> u32 \<Rightarrow> wasm_rt_state \<Rightarrow> 'h world
   \<Rightarrow> unit outcome \<times> wasm_rt_table_t \<times> wasm_rt_state \<times> 'h world" where
  "wasm_rt_allocate_externref_table cfg x tb elements max_elements g w =
     (if max_elements = 0 then (Returns (), \<lparr>t_data = NULL, t_max_size = 0, t_size = 0\<rparr>, g, w)
      else let (p, w1) = wasm_rt_malloc x (max_elements * 4) w; tb1 = tb\<lparr>t_data := p\<rparr>
      in if p = NULL then (let (r, g') = wasm_rt_trap cfg TRAP_OOM g in (r, tb1, g', w1))
         else (Returns (), tb1\<lparr>t_max_size := max_elements, t_size := elements\<rparr>, g,
               w1\<lparr>w_mem := rt_memset (w_mem w1) p 0 (max_elements * 4)\<rparr>))"

definition wasm_rt_free_externref_table ::
  "'h externals \<Rightarrow> wasm_rt_table_t \<Rightarrow> 'h world \<Rightarrow> wasm_rt_table_t \<times> 'h world" where
  "wasm_rt_free_externref_table x tb w =
     (if t_data tb \<noteq> NULL then (tb\<lparr>t_data := NULL\<rparr>, wasm_rt_mem_free x (t_data tb) w) else (tb, w))"

fun fill_funcrefs :: "addr \<Rightarrow> u32 \<Rightarrow> wasm_rt_funcref_t \<Rightarrow> nat list \<Rightarrow> mem \<Rightarrow> mem" where
  "fill_funcrefs p sz v [] m = m"
| "fill_funcrefs p sz v (i # is) m = fill_funcrefs p sz v is (write_funcref m (p + 16 * (sz + of_nat i)) v)"

definition wasm_rt_grow_funcref_table ::
  "wasm_rt_table_t \<Rightarrow> u32 \<Rightarrow> wasm_rt_funcref_t \<Rightarrow> mem \<Rightarrow> u32 \<times> wasm_rt_table_t \<times> mem" where
  "wasm_rt_grow_funcref_table tb delta init m =
     (if t_size tb + delta > t_max_size tb then (0xffffffff, tb, m)
      else
        let m' = fill_funcrefs (t_data tb) (t_size tb) init [0..<unat delta] m;
            tb' = tb\<lparr>t_size := t_size tb + delta\<rparr>
        in (t_size tb' - delta, tb', m'))"

fun fill_externrefs :: "addr \<Rightarrow> u32 \<Rightarrow> u32 \<Rightarrow> nat list \<Rightarrow> mem \<Rightarrow> mem" where
  "fill_externrefs p sz v [] m = m"
| "fill_externrefs p sz v (i # is) m = fill_externrefs p sz v is (wr32 m (p + 4 * (sz + of_nat i)) v)"

definition wasm_rt_grow_externref_table ::
  "wasm_rt_table_t \<Rightarrow> u32 \<Rightarrow> u32 \<Rightarrow> mem \<Rightarrow> u32 \<times> wasm_rt_table_t \<times> mem" where
  "wasm_rt_grow_externref_table tb delta init m =
     (if t_size tb + delta > t_max_size tb then (0xffffffff, tb, m)
      else
        let m' = fill_externrefs (t_data tb) (t_size tb) init [0..<unat delta] m;
            tb' = tb\<lparr>t_size := t_size tb + delta\<rparr>
        in (t_size tb' - delta, tb', m'))"

end
