(* ===== verification/WasmSpec.thy ===== *)
theory WasmSpec
  imports WasmRt Images
begin

text \<open>
  What the wasm2c runtime promises: block copies behave like copies through a buffer, a memory
  that grows keeps its invariant and its bytes, and a trap unwinds only to the recovery point
  registered last. The runs of the trap machinery are an inductive relation over the runtime's
  own functions.
\<close>

section \<open>Copying\<close>

text \<open>The contract of a block copy: where \<open>ok\<close> holds, the destination receives the bytes the
  source had before the copy, and nothing else changes. Every copy with this contract preserves
  what is read from the copied block.\<close>

definition snapshot :: "mem \<Rightarrow> addr \<Rightarrow> addr \<Rightarrow> nat \<Rightarrow> mem" where
  "snapshot m d s n = (\<lambda>a. if unat (a - d) < n then m (s + (a - d)) else m a)"

locale copier =
  fixes copy :: "mem \<Rightarrow> addr \<Rightarrow> addr \<Rightarrow> u32 \<Rightarrow> mem" and ok :: "addr \<Rightarrow> addr \<Rightarrow> u32 \<Rightarrow> bool"
  assumes copies: "ok d s n \<Longrightarrow> copy m d s n = snapshot m d s (unat n)"
begin

lemma copied_byte: "ok d s n \<Longrightarrow> i < n \<Longrightarrow> copy m d s n (d + i) = m (s + i)"
  by (simp add: copies snapshot_def word_less_nat_alt)

lemma copy_keeps: "ok d s n \<Longrightarrow> a \<notin> blk d n \<Longrightarrow> copy m d s n a = m a"
  by (simp add: copies snapshot_def word_less_nat_alt)

lemma copied_word:
  assumes "ok d s n" and "unat i + 4 \<le> unat n"
  shows "rd32 (copy m d s n) (d + i) = rd32 m (s + i)"
proof -
  have b: "copy m d s n (d + i + k) = m (s + i + k)" if k: "unat k < 4" for k
  proof -
    have "unat (i + k) = unat i + unat k"
      using assms(2) k unat_u32_less [of n] by (intro unat_plus_no_wrap) simp
    then have "i + k < n" using assms(2) k by (simp add: word_less_nat_alt)
    from copied_byte [OF assms(1) this, of m] show ?thesis by (simp add: add.assoc)
  qed
  show ?thesis using b [of 0] b [of 1] b [of 2] b [of 3] by (simp add: rd32_def)
qed

lemma copied_block:
  assumes "ok d s n"
  shows "map (\<lambda>i. copy m d s n (d + of_nat i)) [0..<unat n] = map (\<lambda>i. m (s + of_nat i)) [0..<unat n]"
proof (rule map_cong [OF refl])
  fix i assume "i \<in> set [0..<unat n]"
  then have i: "i < unat n" by simp
  then have "unat (of_nat i :: u32) = i" using unat_u32_less [of n] by (intro unat_of_nat_small) simp
  with i have "of_nat i < n" by (simp add: word_less_nat_alt)
  from copied_byte [OF assms this] show "copy m d s n (d + of_nat i) = m (s + of_nat i)" .
qed

end

interpretation libc: copier memcpy "\<lambda>d s n. True"
  by unfold_locales (simp add: memcpy_def snapshot_def word_less_nat_alt)

text \<open>An ascending byte loop takes a snapshot unless the destination starts inside the source;
  a descending one unless the source starts inside the destination.\<close>

lemma copy_up_snapshot:
  assumes "n \<le> 2 ^ 32" and "d = s \<or> n \<le> unat (d - s)"
  shows "copy_up m d s n = snapshot m d s n"
  using assms
proof (induction n arbitrary: m d s)
  case 0
  then show ?case by (simp add: snapshot_def)
next
  case (Suc n)
  have IH: "copy_up (m(d := m s)) (d + 1) (s + 1) n = snapshot (m(d := m s)) (d + 1) (s + 1) n"
    by (rule Suc.IH) (use Suc.prems in auto)
  show ?case
  proof (rule ext)
    fix a
    show "copy_up m d s (Suc n) a = snapshot m d s (Suc n) a"
    proof (cases "a = d")
      case True
      have "unat (d - (d + 1)) = 4294967295" by (simp add: unsigned_minus_1_eq_mask mask_eq_exp_minus_1)
      then show ?thesis using Suc.prems(1) True by (simp add: IH snapshot_def)
    next
      case False
      then have "a - d \<noteq> 0" by simp
      then have "unat (a - d) > 0" "unat (a - d - 1) = unat (a - d) - 1"
        by (simp_all add: unat_minus_one unat_gt_0)
      then have u: "unat (a - (d + 1)) + 1 = unat (a - d)" by (simp add: diff_diff_eq)
      have e: "s + 1 + (a - (d + 1)) = s + (a - d)" by simp
      have upd: "(m(d := m s)) (s + (a - d)) = m (s + (a - d))" if lt: "unat (a - d) < Suc n"
      proof (cases "d = s")
        case False
        then have "s + (a - d) \<noteq> d" using lt Suc.prems(2) by (metis add_diff_cancel_left' leD)
        then show ?thesis by (rule fun_upd_other)
      qed simp
      have "copy_up m d s (Suc n) a = (if unat (a - d) < Suc n then (m(d := m s)) (s + (a - d)) else m a)"
        unfolding copy_up.simps IH snapshot_def e using False u by auto
      then show ?thesis unfolding snapshot_def using upd by simp
    qed
  qed
qed


lemma copy_down_snapshot:
  assumes "n \<le> 2 ^ 32" and "d = s \<or> n \<le> unat (s - d)"
  shows "copy_down m (d + of_nat n) (s + of_nat n) n = snapshot m d s n"
  using assms
proof (induction n arbitrary: m)
  case 0
  then show ?case by (simp add: snapshot_def)
next
  case (Suc n)
  let ?m = "m(d + of_nat n := m (s + of_nat n))"
  have n: "unat (of_nat n :: u32) = n" using Suc.prems(1) by (intro unat_of_nat_small) simp
  have "copy_down m (d + of_nat (Suc n)) (s + of_nat (Suc n)) (Suc n) = copy_down ?m (d + of_nat n) (s + of_nat n) n"
    by (simp add: add.assoc [symmetric] add.commute [of 1])
  also have "\<dots> = snapshot ?m d s n"
    by (rule Suc.IH) (use Suc.prems in auto)
  also have "\<dots> = snapshot m d s (Suc n)"
  proof (rule ext)
    fix a
    show "snapshot ?m d s n a = snapshot m d s (Suc n) a"
    proof (cases "a = d + of_nat n")
      case True
      then show ?thesis by (simp add: snapshot_def n)
    next
      case False
      then have "a - d \<noteq> of_nat n" by (metis add.commute diff_add_cancel)
      then have u: "unat (a - d) \<noteq> n" using n by (metis word_unat_eq_iff)
      have "s + (a - d) \<noteq> d + of_nat n" if lt: "unat (a - d) < n" "d \<noteq> s"
      proof
        assume "s + (a - d) = d + of_nat n"
        then have sd: "s - d = of_nat n - (a - d)" by (simp add: algebra_simps)
        have "unat (of_nat n - (a - d)) = n - unat (a - d)"
          using lt n by (simp add: unat_sub word_le_nat_alt)
        then have "unat (s - d) = n - unat (a - d)" unfolding sd .
        with Suc.prems(2) lt show False by linarith
      qed
      then have upd: "?m (s + (a - d)) = m (s + (a - d))" if "unat (a - d) < n"
        using that by (cases "d = s") (simp_all add: False)
      have "snapshot ?m d s n a = (if unat (a - d) < Suc n then ?m (s + (a - d)) else m a)"
        unfolding snapshot_def using False u by (auto simp: less_Suc_eq)
      then show ?thesis unfolding snapshot_def using upd u by (simp add: less_Suc_eq)
    qed
  qed
  finally show ?case .
qed

text \<open>Neither block wraps around the end of the address space.\<close>

definition blocks_fit :: "addr \<Rightarrow> addr \<Rightarrow> u32 \<Rightarrow> bool" where
  "blocks_fit d s n \<longleftrightarrow> unat d + unat n \<le> 2 ^ 32 \<and> unat s + unat n \<le> 2 ^ 32"

definition forward_safe :: "addr \<Rightarrow> addr \<Rightarrow> u32 \<Rightarrow> bool" where
  "forward_safe d s n \<longleftrightarrow> d = s \<or> unat n \<le> unat (d - s)"

lemma rt_memcpy_snapshot: "forward_safe d s n \<Longrightarrow> rt_memcpy m d s n = snapshot m d s (unat n)"
  unfolding rt_memcpy_def forward_safe_def
  by (rule copy_up_snapshot) (use unat_u32_less [of n] in auto)

lemma unat_sub_wrap:
  fixes a b :: u32
  assumes "a < b"
  shows "unat (a - b) = 2 ^ 32 - (unat b - unat a)"
  using assms by (simp add: unat_sub_if' word_less_nat_alt)

lemma rt_memmove_snapshot:
  assumes "blocks_fit d s n"
  shows "rt_memmove m d s n = snapshot m d s (unat n)"
proof -
  consider "d < s" | "s < d" | "d = s" by (metis linorder_neqE)
  then show ?thesis
  proof cases
    case 1
    have "unat n \<le> unat (d - s)"
      unfolding unat_sub_wrap [OF 1] using assms 1 by (auto simp: blocks_fit_def word_less_nat_alt)
    then show ?thesis using 1 unat_u32_less [of n] by (simp add: rt_memmove_def copy_up_snapshot)
  next
    case 2
    have "unat n \<le> unat (s - d)"
      unfolding unat_sub_wrap [OF 2] using assms 2 by (auto simp: blocks_fit_def word_less_nat_alt)
    with 2 copy_down_snapshot [of "unat n" d s m] unat_u32_less [of n] show ?thesis
      by (auto simp: rt_memmove_def)
  next
    case 3
    then show ?thesis by (auto simp: rt_memmove_def snapshot_def)
  qed
qed

interpretation moving: copier rt_memmove blocks_fit
  by unfold_locales (rule rt_memmove_snapshot)

interpretation copying: copier rt_memcpy forward_safe
  by unfold_locales (rule rt_memcpy_snapshot)


text \<open>C38: the runtime's \<open>memmove\<close> copies overlapping blocks as if through a buffer, in either
  direction, whenever neither block wraps around the address space.\<close>

theorem rt_memmove_correct:
  assumes "unat d + unat n \<le> 2 ^ 32" and "unat s + unat n \<le> 2 ^ 32"
  shows "rt_memmove m d s n = memcpy m d s n"
  using assms by (simp add: moving.copies libc.copies blocks_fit_def)

theorem rt_memmove_correct_witness:
  "map (rt_memmove (mem_words 0x100 [0x04030201]) 0x102 0x100 4) [0x102, 0x103, 0x104, 0x105] = [1, 2, 3, 4]"
  by (subst rt_memmove_correct) (simp_all add: memcpy_def mem_words_def Let_def)

section \<open>The linear memory's invariant\<close>

text \<open>A 32-bit wasm memory: a maximum of at most 65536 pages (what wasm2c declares by default), fewer
  than that in use, and as many bytes as its pages hold.\<close>

definition wasm_mem_ok :: "wasm_rt_memory_t \<Rightarrow> bool" where
  "wasm_mem_ok md \<longleftrightarrow> \<not> m_is64 md \<and> unat (m_pages md) \<le> unat (m_max_pages md)
     \<and> unat (m_max_pages md) \<le> 65536 \<and> unat (m_pages md) < 65536 \<and> unat (m_size md) = 65536 * unat (m_pages md)"

lemma page_bytes:
  fixes k :: u64
  assumes "unat k < 65536"
  shows "unat (ucast (k * 65536) :: u32) = 65536 * unat k"
proof -
  have "unat (k * 65536) = 65536 * unat k" using assms by (simp add: unat_word_ariths)
  then show ?thesis using assms by (simp add: unsigned_ucast_eq take_bit_nat_eq_self)
qed

lemma malloc_host_only: "udynlink_external_malloc x sz s a f w = (p, w') \<Longrightarrow> w_mem w' = w_mem w"
  by (metis external_malloc_mem snd_conv)

text \<open>A successful reallocation carries the old bytes along.\<close>

lemma realloc_copies:
  assumes r: "wasm_rt_mem_realloc x p old new w = (q, w')" and "q \<noteq> NULL" and "p \<noteq> NULL" and "old \<le> new"
    and "forward_safe q p old" and "i < old"
  shows "w_mem w' (q + i) = w_mem w (p + i)"
proof -
  obtain np w1 where m: "wasm_rt_malloc x new w = (np, w1)" by (cases "wasm_rt_malloc x new w") auto
  have "new \<noteq> 0" using r assms(2) by (auto simp: wasm_rt_mem_realloc_def)
  moreover have "np \<noteq> NULL" using r assms(2) m \<open>new \<noteq> 0\<close> by (auto simp: wasm_rt_mem_realloc_def Let_def)
  moreover have "(if old < new then old else new) = old" using assms(4) by auto
  ultimately have "q = np" "w_mem w' = rt_memcpy (w_mem w1) np p old"
    using r m assms(3) by (auto simp: wasm_rt_mem_realloc_def wasm_rt_mem_free_def)
  then show ?thesis
    using copying.copied_byte [OF assms(5,6), of "w_mem w1"] m
    by (simp add: wasm_rt_malloc_def malloc_host_only)
qed

text \<open>C37: growing a 32-bit wasm memory keeps its invariant, either leaves the descriptor alone and
  reports failure or returns the old page count and adds the pages within the maximum, and
  then every byte of the old memory is still there. This holds in all three configurations for
  any maximum up to 65536 pages; not covered is a growth that wraps the page count or makes it
  exactly 65536, whose byte count is 0. A block the allocator returns must be free of the old
  one, and a memory without data have no pages.\<close>

theorem grow_memory_correct:
  assumes ok: "wasm_mem_ok md"
    and nw: "unat (m_pages md) + unat pages < 2 ^ 64" "unat (m_pages md) + unat pages \<noteq> 65536"
    and d: "m_data md = NULL \<Longrightarrow> m_pages md = 0"
    and fresh: "\<And>n p w1. udynlink_external_malloc x n NULL WASM_RT_HOOK_ALIGN 0 w = (p, w1) \<Longrightarrow> p \<noteq> NULL
      \<Longrightarrow> forward_safe p (m_data md) (ucast (m_size md))"
    and g: "wasm_rt_grow_memory cfg x md pages w = (r, md', w')"
  shows "wasm_mem_ok md' \<and>
    (if r = 0xffffffff then md' = md
     else r = m_pages md \<and> unat (m_pages md') = unat (m_pages md) + unat pages
       \<and> (\<forall>i. unat i < unat (m_size md) \<longrightarrow> w_mem w' (m_data md' + i) = w_mem w (m_data md + i)))"
proof (cases "m_pages md + pages > m_max_pages md")
  case True
  then show ?thesis using g ok by (simp add: wasm_rt_grow_memory_def)
next
  case False
  have sum: "unat (m_pages md + pages) = unat (m_pages md) + unat pages"
    using nw by (simp add: unat_word_ariths)
  have le: "unat (m_pages md) + unat pages \<le> unat (m_max_pages md)" "unat (m_max_pages md) \<le> 65536"
    "\<not> m_is64 md" "unat (m_size md) = 65536 * unat (m_pages md)" "unat (m_pages md) + unat pages < 65536"
    using False ok sum nw(2) by (simp_all add: wasm_mem_ok_def word_less_nat_alt)
  have ps: "mem_page_size False = 65536" by (simp add: mem_page_size_def WASM_RT_PAGE_SIZE_def)
  have nr: "m_pages md \<noteq> 0xffffffff" using le by auto
  show ?thesis
  proof (cases "c_memory cfg = External_memory")
    case True
    then have "(r, md', w') = (m_pages md, md\<lparr>m_pages := m_pages md + pages,
        m_size := ucast (ucast ((m_pages md + pages) * 65536) :: u32)\<rparr>, w)"
      unfolding g [symmetric] using False le(3) ps by (simp add: wasm_rt_grow_memory_def Let_def)
    then have "r = m_pages md" "w' = w" "md' = md\<lparr>m_pages := m_pages md + pages,
        m_size := ucast (ucast ((m_pages md + pages) * 65536) :: u32)\<rparr>" by blast+
    then show ?thesis using nr le sum page_bytes [of "m_pages md + pages"] by (simp add: wasm_mem_ok_def)
  next
    case False
    let ?old = "ucast (m_size md) :: u32" and ?new = "ucast (m_size md) + ucast (pages * 65536) :: u32"
    obtain q w1 where q: "wasm_rt_mem_realloc x (m_data md) ?old ?new w = (q, w1)"
      by (cases "wasm_rt_mem_realloc x (m_data md) ?old ?new w") auto
    have g': "(r, md', w') = (if q = NULL then (0xffffffff, md, w1)
        else (m_pages md, md\<lparr>m_data := q, m_pages := m_pages md + pages, m_size := ucast ?new\<rparr>, w1))"
      unfolding g [symmetric] using False le(3) ps q \<open>\<not> m_pages md + pages > m_max_pages md\<close>
      by (simp add: wasm_rt_grow_memory_def Let_def)
    have o: "unat ?old = 65536 * unat (m_pages md)"
      using le by (simp add: unsigned_ucast_eq take_bit_nat_eq_self)
    have n: "unat ?new = 65536 * unat (m_pages md) + 65536 * unat pages"
      using le o page_bytes [of pages] by (subst unat_plus_no_wrap) simp_all
    show ?thesis
    proof (cases "q = NULL")
      case True
      then show ?thesis using g' ok by simp
    next
      case qn: False
      obtain np w2 where m: "udynlink_external_malloc x ?new NULL WASM_RT_HOOK_ALIGN 0 w = (np, w2)"
        by (cases "udynlink_external_malloc x ?new NULL WASM_RT_HOOK_ALIGN 0 w") auto
      have "?new \<noteq> 0" using q qn by (auto simp: wasm_rt_mem_realloc_def)
      then have "q = np" using q qn m
        by (auto simp: wasm_rt_mem_realloc_def wasm_rt_malloc_def Let_def split: if_splits)
      then have fs: "forward_safe q (m_data md) ?old" using fresh [OF m] qn by simp
      have "w_mem w1 (q + i) = w_mem w (m_data md + i)" if "unat i < unat (m_size md)" for i
      proof (rule realloc_copies [OF q qn _ _ fs])
        show "m_data md \<noteq> NULL" using that d le(4) by auto
      qed (use that o n le in \<open>simp_all add: word_less_nat_alt word_le_nat_alt\<close>)
      then show ?thesis using g' qn nr le sum n by (simp add: wasm_mem_ok_def)
    qed
  qed
qed



definition one_page :: wasm_rt_memory_t where
  "one_page = \<lparr>m_data = 0x10000, m_pages = 1, m_max_pages = 65536, m_size = 65536, m_is64 = False\<rparr>"

definition plain_config :: wasm_rt_config where
  "plain_config = \<lparr>c_memory = Dynamic_memory, c_recovery = True, c_stack_depth = True\<rparr>"

text \<open>Growing to 65536 pages asks the reallocator for 0 bytes: it frees the block, the growth is
  reported as failed, and the descriptor keeps the pointer to the freed block.\<close>

lemma grow_to_full_frees_memory:
  "wasm_rt_grow_memory plain_config x one_page 65535 w = (0xffffffff, one_page, wasm_rt_mem_free x 0x10000 w)"
  by (simp add: wasm_rt_grow_memory_def one_page_def plain_config_def mem_page_size_def WASM_RT_PAGE_SIZE_def
    wasm_rt_mem_realloc_def)

theorem grow_memory_correct_witness:
  "case wasm_rt_grow_memory plain_config bump_host one_page 1 (start_world plain_mem) of (r, md', w') \<Rightarrow>
     wasm_mem_ok md' \<and> r = 1 \<and> m_pages md' = 2 \<and> w_mem w' (m_data md' + 9) = plain_mem 0x10009"
proof -
  obtain r md' w' where g: "wasm_rt_grow_memory plain_config bump_host one_page 1 (start_world plain_mem) = (r, md', w')"
    by (cases "wasm_rt_grow_memory plain_config bump_host one_page 1 (start_world plain_mem)") auto
  have r: "r = 1"
    using arg_cong [OF g, of fst]
    by (simp add: wasm_rt_grow_memory_def one_page_def plain_config_def mem_page_size_def WASM_RT_PAGE_SIZE_def
      wasm_rt_mem_realloc_def wasm_rt_malloc_def udynlink_external_malloc_def bump_host_def start_world_def)
  have "wasm_mem_ok md' \<and>
    (if r = 0xffffffff then md' = one_page
     else r = m_pages one_page \<and> unat (m_pages md') = unat (m_pages one_page) + unat (1 :: u64)
       \<and> (\<forall>i. unat i < unat (m_size one_page) \<longrightarrow>
              w_mem w' (m_data md' + i) = w_mem (start_world plain_mem) (m_data one_page + i)))"
  proof (rule grow_memory_correct [OF _ _ _ _ _ g])
    fix n p w1
    assume "udynlink_external_malloc bump_host n NULL WASM_RT_HOOK_ALIGN 0 (start_world plain_mem) = (p, w1)"
    then have "p = 0x20000" by (auto simp: udynlink_external_malloc_def bump_host_def start_world_def)
    then show "forward_safe p (m_data one_page) (ucast (m_size one_page))"
      by (simp add: forward_safe_def one_page_def)
  qed (simp_all add: one_page_def wasm_mem_ok_def plain_config_def)
  then have "wasm_mem_ok md'" "unat (m_pages md') = 2" "w_mem w' (m_data md' + 9) = plain_mem 0x10009"
    unfolding r by (auto simp: one_page_def start_world_def)
  moreover from this(2) have "m_pages md' = 2" by (simp add: word_unat_eq_iff)
  ultimately show ?thesis using r g by simp
qed


section \<open>Traps and recovery points\<close>

text \<open>The runs of the runtime seen from its recovery point, latest event first. The generated
  code moves the depth counter on its own; a trap that halts has no successor.\<close>

datatype rt_event = Registered addr | Unwound addr

inductive rt_run :: "wasm_rt_config \<Rightarrow> rt_event list \<Rightarrow> wasm_rt_state \<Rightarrow> bool" for cfg where
  start: "rt_run cfg [] wasm_rt_start"
| register: "rt_run cfg tr g \<Longrightarrow> rt_run cfg (Registered jb # tr) (wasm_rt_set_recovery jb g)"
| unwind: "rt_run cfg tr g \<Longrightarrow> wasm_rt_trap cfg t g = ((Longjmp jb :: unit outcome), g')
    \<Longrightarrow> rt_run cfg (Unwound jb # tr) g'"
| init: "rt_run cfg tr g \<Longrightarrow> rt_run cfg tr (wasm_rt_init g)"
| shut: "rt_run cfg tr g \<Longrightarrow> rt_run cfg tr (wasm_rt_free g)"
| memory: "rt_run cfg tr g \<Longrightarrow> rt_run cfg tr (wasm_rt_set_external_memory buf cap g)"
| depth: "rt_run cfg tr g \<Longrightarrow> rt_run cfg tr (g\<lparr>g_call_stack_depth := d\<rparr>)"

lemma trap_unwinds:
  assumes "wasm_rt_trap cfg t g = (Longjmp jb, g')"
  shows "g_recovery g = jb" "jb \<noteq> NULL" "g_recovery g' = NULL" "g_last_trap g' = t"
    "c_stack_depth cfg \<Longrightarrow> g_call_stack_depth g' = 0" "c_recovery cfg"
  using assms by (auto simp: wasm_rt_trap_def Let_def split: if_splits)

text \<open>An armed recovery point is the one registered last.\<close>

definition unwinds_paired :: "rt_event list \<Rightarrow> bool" where
  "unwinds_paired tr \<longleftrightarrow>
     (\<forall>later jb earlier. tr = later @ Unwound jb # earlier \<longrightarrow> jb \<noteq> NULL \<and> (\<exists>rest. earlier = Registered jb # rest))"

lemma unwinds_paired_simps [simp]:
  "unwinds_paired []"
  "unwinds_paired (Registered jb # tr) \<longleftrightarrow> unwinds_paired tr"
  "unwinds_paired (Unwound jb # tr) \<longleftrightarrow> jb \<noteq> NULL \<and> (\<exists>rest. tr = Registered jb # rest) \<and> unwinds_paired tr"
  by (auto simp: unwinds_paired_def Cons_eq_append_conv)

lemma rt_run_invariant:
  assumes "rt_run cfg tr g"
  shows "unwinds_paired tr \<and> (g_recovery g = NULL \<or> (\<exists>rest. tr = Registered (g_recovery g) # rest))"
  using assms
  by induction (auto simp: wasm_rt_start_def wasm_rt_set_recovery_def wasm_rt_init_def wasm_rt_free_def
    wasm_rt_set_external_memory_def dest: trap_unwinds)

text \<open>C36: a recovery point is used at most once: in every run of the runtime a trap unwinds only
  to the frame registered last, with no other registration and no other unwinding in between,
  so it never jumps into a stale frame.\<close>

theorem trap_unwinds_to_last_registration:
  assumes "rt_run cfg (later @ Unwound jb # earlier) g"
  shows "jb \<noteq> NULL \<and> (\<exists>rest. earlier = Registered jb # rest)"
  using rt_run_invariant [OF assms] by (simp add: unwinds_paired_def)

theorem trap_unwinds_to_last_registration_witness:
  "\<exists>g. rt_run plain_config ([Registered 0x300] @ Unwound 0x200 # [Registered 0x200]) g
     \<and> (\<exists>rest. [Registered 0x200] = Registered 0x200 # rest)"
proof -
  let ?g = "wasm_rt_set_recovery 0x200 wasm_rt_start"
  have t: "wasm_rt_trap plain_config TRAP_OOB ?g =
      ((Longjmp 0x200 :: unit outcome), snd (wasm_rt_trap plain_config TRAP_OOB ?g :: unit outcome \<times> _))"
    by (simp add: wasm_rt_trap_def plain_config_def wasm_rt_set_recovery_def Let_def)
  have run: "rt_run plain_config ([Registered 0x300] @ Unwound 0x200 # [Registered 0x200])
      (wasm_rt_set_recovery 0x300 (snd (wasm_rt_trap plain_config TRAP_OOB ?g :: unit outcome \<times> _)))"
    using rt_run.register [OF rt_run.unwind [OF rt_run.register [OF rt_run.start] t]] by simp
  with trap_unwinds_to_last_registration [OF run] show ?thesis by blast
qed

end
