(* ===== verification/Cpp.thy ===== *)
theory Cpp
  imports Load Lookup
begin

text \<open>
  The C++ layer of \<open>udynlink/udynlink.hpp\<close>: typed function handles (\<open>Func\<close>), the r9 scope
  (\<open>Context\<close>), read-only symbols and their views (\<open>Symbol\<close>, \<open>SymbolView\<close>), and the owning
  \<open>Module\<close>. A C++ object is a record and a method that changes it returns the new record.
  Pointers and references to a module handle are the number of the object that holds it:
  \<open>mods i\<close> is the handle read through them. Machine code is a parameter, as for the C macros.
\<close>

section \<open>Func\<close>

text \<open>\<open>detail::FuncInvoker\<close>: a call through address 0 returns \<open>R()\<close>, which is \<open>0\<close>, and does
  nothing; the \<open>void\<close> form is the instance \<open>'r = unit\<close> below.\<close>

definition FuncInvoker_invoke ::
  "('r::zero, 'h) machine_call \<Rightarrow> addr \<Rightarrow> udynlink_module_t \<Rightarrow> u32 \<times> 'h world \<Rightarrow> 'r \<times> u32 \<times> 'h world" where
  "FuncInvoker_invoke run a pm st =
     (if a = 0 then (0, st)
      else
        let prev_r9 = fst st;
            st1 = UDYNLINK_PREPARE_CALL pm st;
            (result, r9, w) = run a st1
        in (result, prev_r9, w))"

definition FuncInvoker_invoke_void ::
  "(unit, 'h) machine_call \<Rightarrow> addr \<Rightarrow> udynlink_module_t \<Rightarrow> u32 \<times> 'h world \<Rightarrow> u32 \<times> 'h world" where
  "FuncInvoker_invoke_void run a pm st =
     (if a = 0 then st
      else
        let prev_r9 = fst st;
            st1 = UDYNLINK_PREPARE_CALL pm st;
            (_, r9, w) = run a st1
        in (prev_r9, w))"

record Func =
  fn_mod :: "nat option"
  fn_addr :: addr

definition Func_null :: Func where
  "Func_null = \<lparr>fn_mod = None, fn_addr = 0\<rparr>"

definition Func_resolve ::
  "'h externals \<Rightarrow> (nat \<Rightarrow> udynlink_module_t) \<Rightarrow> nat \<Rightarrow> cname option \<Rightarrow> 'h world \<Rightarrow> Func \<times> 'h world" where
  "Func_resolve x mods i name w =
     (let f = \<lparr>fn_mod = Some i, fn_addr = 0\<rparr>
      in case name of None \<Rightarrow> (f, w)
         | Some nm \<Rightarrow>
             let (err, h, w') = udynlink_resolve_func x (Some (mods i)) (Some nm) w
             in if err = UDYNLINK_OK then (f\<lparr>fn_addr := f_addr h\<rparr>, w') else (f, w'))"

definition Func_of_address :: "nat \<Rightarrow> addr \<Rightarrow> Func" where
  "Func_of_address i a = \<lparr>fn_mod = Some i, fn_addr = a\<rparr>"

text \<open>A handle without a module has address 0, where \<open>invoke\<close> returns before it reads it.\<close>

definition Func_call ::
  "('r::zero, 'h) machine_call \<Rightarrow> (nat \<Rightarrow> udynlink_module_t) \<Rightarrow> Func \<Rightarrow> u32 \<times> 'h world \<Rightarrow> 'r \<times> u32 \<times> 'h world" where
  "Func_call run mods f st =
     (case fn_mod f of None \<Rightarrow> (0, st) | Some i \<Rightarrow> FuncInvoker_invoke run (fn_addr f) (mods i) st)"

definition Func_bool :: "Func \<Rightarrow> bool" where
  "Func_bool f \<longleftrightarrow> fn_addr f \<noteq> 0"

definition Func_address :: "Func \<Rightarrow> addr" where
  "Func_address f = fn_addr f"

section \<open>Context\<close>

record Context =
  cx_mod :: nat
  cx_prev_r9 :: u32

definition Context_construct ::
  "(nat \<Rightarrow> udynlink_module_t) \<Rightarrow> nat \<Rightarrow> u32 \<times> 'h world \<Rightarrow> Context \<times> u32 \<times> 'h world" where
  "Context_construct mods i st =
     (let c = \<lparr>cx_mod = i, cx_prev_r9 = fst st\<rparr> in (c, UDYNLINK_PREPARE_CALL (mods i) st))"

definition Context_destroy :: "Context \<Rightarrow> u32 \<times> 'h world \<Rightarrow> u32 \<times> 'h world" where
  "Context_destroy c st = (cx_prev_r9 c, snd st)"

definition Context_rebind ::
  "(nat \<Rightarrow> udynlink_module_t) \<Rightarrow> nat \<Rightarrow> Context \<Rightarrow> u32 \<times> 'h world \<Rightarrow> Context \<times> u32 \<times> 'h world" where
  "Context_rebind mods i c st = (c\<lparr>cx_mod := i\<rparr>, p_ram (mods i), snd st)"

definition Context_module :: "Context \<Rightarrow> nat" where
  "Context_module c = cx_mod c"

section \<open>Symbol\<close>

text \<open>Unlike the C entry, a default-constructed one has no name.\<close>

record Symbol =
  y_name :: "cname option"
  y_val :: u32
  y_type :: u8
  y_location :: u8

definition Symbol_default :: Symbol where
  "Symbol_default = \<lparr>y_name = None, y_val = 0, y_type = 0, y_location = 0\<rparr>"

definition Symbol_of :: "udynlink_sym_t \<Rightarrow> Symbol" where
  "Symbol_of s = \<lparr>y_name = Some (s_name s), y_val = s_val s, y_type = s_type s, y_location = s_location s\<rparr>"

definition Symbol_name :: "mem \<Rightarrow> Symbol \<Rightarrow> u8 list" where
  "Symbol_name m y = (case y_name y of None \<Rightarrow> [] | Some nm \<Rightarrow> name_bytes m nm)"

definition is_exported :: "Symbol \<Rightarrow> bool" where
  "is_exported y \<longleftrightarrow> y_type y = UDYNLINK_SYM_TYPE_EXPORTED"

definition is_extern :: "Symbol \<Rightarrow> bool" where
  "is_extern y \<longleftrightarrow> y_type y = UDYNLINK_SYM_TYPE_EXTERN"

definition is_weak :: "Symbol \<Rightarrow> bool" where
  "is_weak y \<longleftrightarrow> y_type y = UDYNLINK_SYM_TYPE_WEAK"

definition is_internal :: "Symbol \<Rightarrow> bool" where
  "is_internal y \<longleftrightarrow> y_type y = UDYNLINK_SYM_TYPE_INTERNAL"

definition is_module_name :: "Symbol \<Rightarrow> bool" where
  "is_module_name y \<longleftrightarrow> y_type y = UDYNLINK_SYM_TYPE_MODULE_NAME"

definition is_function :: "Symbol \<Rightarrow> bool" where
  "is_function y \<longleftrightarrow> y_location y = UDYNLINK_SYM_LOCATION_CODE"

definition is_data :: "Symbol \<Rightarrow> bool" where
  "is_data y \<longleftrightarrow> y_location y = UDYNLINK_SYM_LOCATION_DATA"

definition Symbol_bool :: "Symbol \<Rightarrow> bool" where
  "Symbol_bool y \<longleftrightarrow> y_name y \<noteq> None"


section \<open>SymbolView\<close>

text \<open>A view of a loaded module (\<open>relocated\<close>) or of an image descriptor.\<close>

record SymbolView =
  sv_img :: udynlink_module_image_t
  sv_mod :: "nat option"
  sv_relocated :: bool

definition null_image :: udynlink_module_image_t where
  "null_image = \<lparr>i_header = NULL, i_relocations = NULL, i_symtab = NULL, i_code = NULL, i_data = NULL\<rparr>"

definition SymbolView_default :: SymbolView where
  "SymbolView_default = \<lparr>sv_img = null_image, sv_mod = None, sv_relocated = False\<rparr>"

definition SymbolView_of_module :: "nat \<Rightarrow> SymbolView" where
  "SymbolView_of_module i = \<lparr>sv_img = null_image, sv_mod = Some i, sv_relocated = True\<rparr>"

definition SymbolView_of_image :: "udynlink_module_image_t \<Rightarrow> SymbolView" where
  "SymbolView_of_image img = \<lparr>sv_img = img, sv_mod = None, sv_relocated = False\<rparr>"

definition SymbolView_of_memory :: "mem \<Rightarrow> addr \<Rightarrow> SymbolView" where
  "SymbolView_of_memory m base_addr =
     \<lparr>sv_img = udynlink_image_from_memory m base_addr, sv_mod = None, sv_relocated = False\<rparr>"

definition SymbolView_size :: "mem \<Rightarrow> (nat \<Rightarrow> udynlink_module_t) \<Rightarrow> SymbolView \<Rightarrow> u32" where
  "SymbolView_size m mods v =
     (if sv_relocated v then udynlink_get_symbol_count m (map_option mods (sv_mod v))
      else udynlink_image_get_symbol_count m (Some (sv_img v)))"

text \<open>The descriptor a failing \<open>get_sym_at_raw\<close> leaves behind: it fills value, type and location
  before it rejects a name, and an index below \<open>size()\<close> is past its other early returns.\<close>

definition unnamed_symbol :: "mem \<Rightarrow> addr \<Rightarrow> u32 \<Rightarrow> Symbol" where
  "unnamed_symbol m p_symt index =
     (let name_off = rd32 m (p_symt + 4 * (index * 2 + 1))
      in \<lparr>y_name = None, y_val = rd32 m (p_symt + 4 * (index * 2 + 2)),
          y_type = sym_type_of name_off, y_location = sym_location_of name_off\<rparr>)"

definition SymbolView_at :: "mem \<Rightarrow> (nat \<Rightarrow> udynlink_module_t) \<Rightarrow> SymbolView \<Rightarrow> u32 \<Rightarrow> Symbol" where
  "SymbolView_at m mods v index =
     (if index < SymbolView_size m mods v then
        (if sv_relocated v then
           (case sv_mod v of None \<Rightarrow> Symbol_default
            | Some i \<Rightarrow>
                (case udynlink_get_symbol m (Some (mods i)) index of
                   Some s \<Rightarrow> Symbol_of s
                 | None \<Rightarrow> unnamed_symbol m (get_sym_table_pointer m (p_header (mods i))) index))
         else
           (case udynlink_image_get_symbol m (Some (sv_img v)) index of
              Some s \<Rightarrow> Symbol_of s
            | None \<Rightarrow> unnamed_symbol m (i_symtab (sv_img v)) index))
      else Symbol_default)"

text \<open>An iterator points to its view; \<open>views a\<close> is the view object at address \<open>a\<close>.\<close>

record sym_iterator =
  it_view :: addr
  it_index :: u32

definition iterator_deref ::
  "mem \<Rightarrow> (nat \<Rightarrow> udynlink_module_t) \<Rightarrow> (addr \<Rightarrow> SymbolView) \<Rightarrow> sym_iterator \<Rightarrow> Symbol" where
  "iterator_deref m mods views it = SymbolView_at m mods (views (it_view it)) (it_index it)"

definition iterator_inc :: "sym_iterator \<Rightarrow> sym_iterator" where
  "iterator_inc it = it\<lparr>it_index := it_index it + 1\<rparr>"

definition iterator_post_inc :: "sym_iterator \<Rightarrow> sym_iterator \<times> sym_iterator" where
  "iterator_post_inc it = (let t = it in (t, it\<lparr>it_index := it_index it + 1\<rparr>))"

definition iterator_eq :: "sym_iterator \<Rightarrow> sym_iterator \<Rightarrow> bool" where
  "iterator_eq a b \<longleftrightarrow> it_index a = it_index b \<and> it_view a = it_view b"

definition SymbolView_begin :: "addr \<Rightarrow> sym_iterator" where
  "SymbolView_begin a = \<lparr>it_view = a, it_index = 0\<rparr>"

definition SymbolView_end :: "mem \<Rightarrow> (nat \<Rightarrow> udynlink_module_t) \<Rightarrow> (addr \<Rightarrow> SymbolView) \<Rightarrow> addr \<Rightarrow> sym_iterator" where
  "SymbolView_end m mods views a = \<lparr>it_view = a, it_index = SymbolView_size m mods (views a)\<rparr>"

definition symbols_of_image :: "udynlink_module_image_t \<Rightarrow> SymbolView" where
  "symbols_of_image img = SymbolView_of_image img"

definition symbols_of_memory :: "mem \<Rightarrow> addr \<Rightarrow> SymbolView" where
  "symbols_of_memory m base_addr = SymbolView_of_memory m base_addr"

section \<open>Module\<close>

record Module =
  md_mod :: udynlink_module_t
  md_loaded :: bool

definition zero_module :: udynlink_module_t where
  "zero_module = \<lparr>p_header = NULL, p_ram = NULL, info = 0, reserved = 0, reserved2 = 0,
     num_named_syms = 0, user_ctx = NULL\<rparr>"

definition Module_default :: Module where
  "Module_default = \<lparr>md_mod = zero_module, md_loaded = False\<rparr>"

definition Module_unload :: "'h externals \<Rightarrow> Module \<Rightarrow> 'h world \<Rightarrow> udynlink_error_t \<times> Module \<times> 'h world" where
  "Module_unload x M w =
     (if \<not> md_loaded M then (UDYNLINK_OK, M, w)
      else
        let (err, _, w1) = udynlink_unload_module x (Some (md_mod M)) w
        in (err, M\<lparr>md_loaded := False, md_mod := zero_module\<rparr>, w1))"

definition Module_destroy :: "'h externals \<Rightarrow> Module \<Rightarrow> 'h world \<Rightarrow> 'h world" where
  "Module_destroy x M w = (if md_loaded M then (case Module_unload x M w of (_, _, w1) \<Rightarrow> w1) else w)"

text \<open>The constructors run by \<open>udynlink_cpp_init\<close> are machine code: \<open>st\<close> holds r9 and the world.\<close>

definition Module_load ::
  "'h externals \<Rightarrow> (unit, 'h) machine_call \<Rightarrow> Module \<Rightarrow> addr \<Rightarrow> addr \<Rightarrow> u32 \<Rightarrow> udynlink_load_mode_t
   \<Rightarrow> u32 \<times> 'h world \<Rightarrow> udynlink_error_t \<times> Module \<times> u32 \<times> 'h world" where
  "Module_load x run M base_addr load_addr load_size md st =
     (let (err0, M0, w0) = (if md_loaded M then Module_unload x M (snd st) else (UDYNLINK_OK, M, snd st))
      in if err0 \<noteq> UDYNLINK_OK then (err0, M0, fst st, w0)
         else
           let M1 = M0\<lparr>md_mod := zero_module\<rparr>;
               (err, p_mod, w1) = udynlink_load_module x (Some (md_mod M1)) base_addr load_addr load_size md w0;
               M2 = M1\<lparr>md_mod := (case p_mod of None \<Rightarrow> md_mod M1 | Some pm \<Rightarrow> pm)\<rparr>
           in if err = UDYNLINK_OK then
                let M3 = M2\<lparr>md_loaded := True\<rparr>
                in (err, M3, udynlink_cpp_init x run (Some (md_mod M3)) (fst st, w1))
              else (err, M2, fst st, w1))"

definition Module_load_default ::
  "'h externals \<Rightarrow> (unit, 'h) machine_call \<Rightarrow> Module \<Rightarrow> addr \<Rightarrow> u32 \<times> 'h world
   \<Rightarrow> udynlink_error_t \<times> Module \<times> u32 \<times> 'h world" where
  "Module_load_default x run M base_addr st = Module_load x run M base_addr NULL 0 LOAD_MODE_COPY_ALL st"

definition is_loaded :: "Module \<Rightarrow> bool" where
  "is_loaded M = md_loaded M"

definition Module_cpp_init :: "'h externals \<Rightarrow> (unit, 'h) machine_call \<Rightarrow> Module \<Rightarrow> u32 \<times> 'h world \<Rightarrow> u32 \<times> 'h world" where
  "Module_cpp_init x run M st = (if md_loaded M then udynlink_cpp_init x run (Some (md_mod M)) st else st)"

text \<open>Objects live in a list; methods that take another \<open>Module\<close> get both numbers, since they
  compare the addresses of the two.\<close>

definition handles :: "Module list \<Rightarrow> nat \<Rightarrow> udynlink_module_t" where
  "handles objs i = md_mod (objs ! i)"

definition Module_resolve ::
  "'h externals \<Rightarrow> Module list \<Rightarrow> nat \<Rightarrow> cname option \<Rightarrow> 'h world \<Rightarrow> Func option \<times> 'h world" where
  "Module_resolve x objs i name w =
     (let (f, w1) = Func_resolve x (handles objs) i name w
      in (if Func_bool f then Some f else None, w1))"

definition Module_symbols :: "nat \<Rightarrow> SymbolView" where
  "Module_symbols i = SymbolView_of_module i"

text \<open>Construction of object \<open>i\<close> from \<open>j\<close>: the source is left empty.\<close>

definition Module_move_construct :: "nat \<Rightarrow> nat \<Rightarrow> Module list \<Rightarrow> Module list" where
  "Module_move_construct i j objs =
     (let other = objs ! j;
          objs1 = objs[i := \<lparr>md_mod = md_mod other, md_loaded = md_loaded other\<rparr>]
      in objs1[j := (objs1 ! j)\<lparr>md_loaded := False, md_mod := zero_module\<rparr>])"

definition Module_move_assign ::
  "'h externals \<Rightarrow> nat \<Rightarrow> nat \<Rightarrow> Module list \<Rightarrow> 'h world \<Rightarrow> Module list \<times> 'h world" where
  "Module_move_assign x i j objs w =
     (if i \<noteq> j then
        let (objs1, w1) = (if md_loaded (objs ! i)
              then (case Module_unload x (objs ! i) w of (_, M, w1) \<Rightarrow> (objs[i := M], w1)) else (objs, w));
            objs2 = objs1[i := \<lparr>md_mod = md_mod (objs1 ! j), md_loaded = md_loaded (objs1 ! j)\<rparr>]
        in (objs2[j := (objs2 ! j)\<lparr>md_loaded := False, md_mod := zero_module\<rparr>], w1)
      else (objs, w))"

definition Module_swap :: "nat \<Rightarrow> nat \<Rightarrow> Module list \<Rightarrow> Module list" where
  "Module_swap i j objs =
     (if i \<noteq> j then
        let tmp = objs ! i;
            objs1 = objs[i := \<lparr>md_mod = md_mod (objs ! j), md_loaded = md_loaded (objs ! j)\<rparr>]
        in objs1[j := \<lparr>md_mod = md_mod tmp, md_loaded = md_loaded tmp\<rparr>]
      else objs)"

end
