(* ===== verification/CppSpec.thy ===== *)
theory CppSpec
  imports Cpp LoadSpec
begin

text \<open>
  What the C++ layer adds to the C interface: owning objects that balance the allocator over any
  sequence of loads, moves, swaps and destructions; scopes that give r9 back whatever module code
  does to it; views whose iteration ends and enumerates the symbol table.
\<close>

section \<open>Owning modules\<close>

definition holds :: "Module \<Rightarrow> addr multiset" where
  "holds M = (if md_loaded M then owned (md_mod M) else {#})"

definition held :: "Module list \<Rightarrow> addr multiset" where
  "held objs = sum_list (map holds objs)"

lemma held_update: "i < length objs \<Longrightarrow> held (objs[i := M]) + holds (objs ! i) = held objs + holds M"
proof (induction objs arbitrary: i)
  case (Cons N objs)
  then show ?case by (cases i) (auto simp: held_def ac_simps)
qed simp

lemma held_dropped: "i < length objs \<Longrightarrow> holds M = {#} \<Longrightarrow> held (objs[i := M]) = held objs - holds (objs ! i)"
  using held_update [of i objs M] by (metis add_diff_cancel_right' empty_neutral(2))

lemma held_part: "i < length objs \<Longrightarrow> holds (objs ! i) \<subseteq># held objs"
proof (induction objs arbitrary: i)
  case (Cons N objs)
  then show ?case
    by (cases i) (auto simp: held_def intro: subset_mset.order_trans [OF _ mset_subset_eq_add_right])
qed simp

text \<open>Machine code that does not call the host's allocator.\<close>

definition code_quiet :: "(unit, 'h) machine_call \<Rightarrow> bool" where
  "code_quiet run \<longleftrightarrow> (\<forall>a st. w_calls (snd (snd (run a st))) = w_calls (snd st))"

lemma cpp_init_calls:
  assumes q: "resolver_quiet x" and r: "code_quiet run"
  shows "w_calls (snd (udynlink_cpp_init x run p_mod st)) = w_calls (snd st)"
proof -
  obtain s w' where l: "udynlink_lookup_symbol x p_mod (Literal init_array_name) (snd st) = (s, w')" by (metis surj_pair)
  have "w_calls w' = w_calls (snd st)" by (rule writes.lookup_eq [OF quiet_writes [OF q] l refl])
  then show ?thesis
    using r by (auto simp: udynlink_cpp_init_def l code_quiet_def UDYNLINK_CALL_def UDYNLINK_PREPARE_CALL_def
        Let_def case_prod_beta' split: option.splits)
qed

text \<open>The operations of a program that uses the objects. A constructor runs on an object that is
  not in use; a destroyed object is free for one.\<close>

datatype cpp_op =
    Op_load nat addr addr u32 udynlink_load_mode_t
  | Op_unload nat | Op_cpp_init nat | Op_destroy nat
  | Op_move_construct nat nat | Op_move_assign nat nat | Op_swap nat nat

fun cpp_step :: "'h externals \<Rightarrow> (unit, 'h) machine_call \<Rightarrow> cpp_op \<Rightarrow> Module list \<times> u32 \<times> 'h world
    \<Rightarrow> Module list \<times> u32 \<times> 'h world" where
  "cpp_step x run (Op_load i base la ls md) (objs, st) =
     (case Module_load x run (objs ! i) base la ls md st of (err, M, st') \<Rightarrow> (objs[i := M], st'))"
| "cpp_step x run (Op_unload i) (objs, st) =
     (case Module_unload x (objs ! i) (snd st) of (err, M, w) \<Rightarrow> (objs[i := M], fst st, w))"
| "cpp_step x run (Op_cpp_init i) (objs, st) = (objs, Module_cpp_init x run (objs ! i) st)"
| "cpp_step x run (Op_destroy i) (objs, st) = (objs[i := Module_default], fst st, Module_destroy x (objs ! i) (snd st))"
| "cpp_step x run (Op_move_construct i j) (objs, st) = (Module_move_construct i j objs, st)"
| "cpp_step x run (Op_move_assign i j) (objs, st) =
     (case Module_move_assign x i j objs (snd st) of (objs', w) \<Rightarrow> (objs', fst st, w))"
| "cpp_step x run (Op_swap i j) (objs, st) = (Module_swap i j objs, st)"

text \<open>An operation the ledger covers: on existing objects, with images that have no tagged
  section, and headers still readable (and not at address 0) when a module is unloaded.\<close>

definition unloadable :: "Module \<Rightarrow> 'h world \<Rightarrow> bool" where
  "unloadable M w \<longleftrightarrow> (if md_loaded M then p_header (md_mod M) \<noteq> NULL
     \<and> v_num (snd (get_sectab (w_mem w) (p_header (md_mod M)) False)) \<le> 3 else True)"

fun op_covered :: "cpp_op \<Rightarrow> Module list \<times> u32 \<times> 'h world \<Rightarrow> bool" where
  "op_covered (Op_load i base la ls md) (objs, st) =
     (i < length objs \<and> unloadable (objs ! i) (snd st) \<and> v_num (snd (get_sectab (w_mem (snd st)) base True)) \<le> 3)"
| "op_covered (Op_unload i) (objs, st) = (i < length objs \<and> unloadable (objs ! i) (snd st))"
| "op_covered (Op_cpp_init i) (objs, st) = (i < length objs)"
| "op_covered (Op_destroy i) (objs, st) = (i < length objs \<and> unloadable (objs ! i) (snd st))"
| "op_covered (Op_move_construct i j) (objs, st) = (i < length objs \<and> j < length objs \<and> i \<noteq> j \<and> \<not> md_loaded (objs ! i))"
| "op_covered (Op_move_assign i j) (objs, st) = (i < length objs \<and> j < length objs \<and> unloadable (objs ! i) (snd st))"
| "op_covered (Op_swap i j) (objs, st) = (i < length objs \<and> j < length objs)"

fun cpp_run :: "'h externals \<Rightarrow> (unit, 'h) machine_call \<Rightarrow> cpp_op list \<Rightarrow> Module list \<times> u32 \<times> 'h world
    \<Rightarrow> Module list \<times> u32 \<times> 'h world" where
  "cpp_run x run [] s = s"
| "cpp_run x run (p # ps) s = cpp_run x run ps (cpp_step x run p s)"

fun run_covered :: "'h externals \<Rightarrow> (unit, 'h) machine_call \<Rightarrow> cpp_op list \<Rightarrow> Module list \<times> u32 \<times> 'h world \<Rightarrow> bool" where
  "run_covered x run [] s = True"
| "run_covered x run (p # ps) s = (op_covered p s \<and> run_covered x run ps (cpp_step x run p s))"

lemma Module_unload_ledger:
  assumes "Module_unload x M w = (err, M', w')" and "unloadable M w"
  shows "err = UDYNLINK_OK" "\<not> md_loaded M'" "live (w_calls w') = live (w_calls w) - holds M" "w_mem w' = w_mem w"
proof -
  have mem: "w_mem (snd (snd (udynlink_unload_module x (Some pm) w))) = w_mem w"
    if "v_num (snd (get_sectab (w_mem w) (p_header pm) False)) \<le> 3" for pm
    using that by (auto simp: udynlink_unload_module_def Let_def free_nonmain_sections_def udynlink_external_free_def
        split: prod.splits)
  obtain e pm2 w2 where u: "udynlink_unload_module x (Some (md_mod M)) w = (e, pm2, w2)" by (metis prod_cases3)
  show "err = UDYNLINK_OK" "\<not> md_loaded M'" "live (w_calls w') = live (w_calls w) - holds M" "w_mem w' = w_mem w"
    using assms unload_ledger [OF u] mem [of "md_mod M"]
    by (auto simp: Module_unload_def u unloadable_def holds_def split: if_splits)
qed


lemma load_returns_handle: "\<exists>err pm' w'. udynlink_load_module x (Some pm) base la ls md w = (err, Some pm', w')"
  by (auto simp: udynlink_load_module_def udynlink_load_module_image_def Let_def split: prod.splits)

lemma Module_load_ledger:
  assumes q: "resolver_quiet x" "code_quiet run" and u: "unloadable M (snd st)"
    and small: "v_num (snd (get_sectab (w_mem (snd st)) base True)) \<le> 3"
    and l: "Module_load x run M base la ls md st = (err, M', st')"
  shows "live (w_calls (snd st')) = live (w_calls (snd st)) - holds M + holds M'"
proof -
  obtain e0 M0 w0 where r: "(if md_loaded M then Module_unload x M (snd st) else (UDYNLINK_OK, M, snd st)) = (e0, M0, w0)"
    by (metis prod_cases3)
  then have e0: "e0 = UDYNLINK_OK" and M0: "\<not> md_loaded M0" and w0: "live (w_calls w0) = live (w_calls (snd st)) - holds M"
    and m0: "w_mem w0 = w_mem (snd st)"
    using Module_unload_ledger [OF _ u] by (auto simp: holds_def split: if_splits)
  obtain e pm w1 where c: "udynlink_load_module x (Some zero_module) base la ls md w0 = (e, Some pm, w1)"
    using load_returns_handle by blast
  have "if e = UDYNLINK_OK then live (w_calls w1) = live (w_calls w0) + owned pm
      else live (w_calls w1) = live (w_calls w0) \<and> pm = mark_module_free zero_module"
    by (rule load_ledger [OF _ q(1) _ c [unfolded udynlink_load_module_def]])
      (use small m0 in \<open>simp_all add: zero_module_def\<close>)
  moreover have "M' = \<lparr>md_mod = pm, md_loaded = (e = UDYNLINK_OK)\<rparr>
      \<and> live (w_calls (snd st')) = live (w_calls w1)"
    using l M0 cpp_init_calls [OF q, of "Some pm" "(fst st, w1)"]
    by (auto simp: Module_load_def r e0 c Let_def split: if_splits)
  ultimately show ?thesis using w0 by (auto simp: holds_def split: if_splits)
qed

text \<open>One operation keeps the ledger: the blocks in use are the ones the objects hold, on top of
  those the rest of the program had.\<close>

lemma replaced_ledger:
  assumes i: "i < length objs" and inv: "live c = others + held objs" and l: "live c' = live c - holds (objs ! i) + holds M"
  shows "live c' = others + held (objs[i := M])"
proof -
  obtain rest where r: "held objs = holds (objs ! i) + rest"
    using held_part [OF i] by (auto simp: mset_subset_eq_exists_conv)
  have "held (objs[i := M]) = rest + holds M" using held_update [OF i, of M] by (simp add: r)
  then show ?thesis using inv l by (simp add: r ac_simps)
qed

lemma moved_ledger:
  assumes "i < length objs" "j < length objs" "i \<noteq> j" "\<not> md_loaded (objs ! i)"
  shows "held (Module_move_construct i j objs) = held objs"
proof -
  let ?a = "objs[i := \<lparr>md_mod = md_mod (objs ! j), md_loaded = md_loaded (objs ! j)\<rparr>]"
  let ?e = "(?a ! j)\<lparr>md_loaded := False, md_mod := zero_module\<rparr>"
  have "held ?a = held objs + holds (objs ! j)"
    using held_update [OF assms(1), of "\<lparr>md_mod = md_mod (objs ! j), md_loaded = md_loaded (objs ! j)\<rparr>"] assms(4)
    by (simp add: holds_def)
  moreover have "held (?a[j := ?e]) + holds (objs ! j) = held ?a"
    using held_update [of j ?a ?e] assms by (simp add: holds_def)
  ultimately show ?thesis by (simp add: Module_move_construct_def Let_def)
qed

lemma Module_eta [simp]: "\<lparr>md_mod = md_mod M, md_loaded = md_loaded M\<rparr> = M"
  by simp

lemma held_mset: "mset objs = mset objs' \<Longrightarrow> held objs = held objs'"
  by (simp add: held_def flip: sum_mset_sum_list)

lemma swapped_ledger: "i < length objs \<Longrightarrow> j < length objs \<Longrightarrow> held (Module_swap i j objs) = held objs"
  by (auto simp: Module_swap_def Let_def list_update_swap [of i j] intro!: held_mset mset_swap)

lemma cpp_step_ledger:
  assumes q: "resolver_quiet x" "code_quiet run" and ok: "op_covered p (objs, st)"
    and inv: "live (w_calls (snd st)) = others + held objs" and s: "cpp_step x run p (objs, st) = (objs', st')"
  shows "live (w_calls (snd st')) = others + held objs'"
proof (cases p)
  case (Op_load i base la ls md)
  obtain err M' st1 where l: "Module_load x run (objs ! i) base la ls md st = (err, M', st1)" by (metis prod_cases3)
  show ?thesis
    using replaced_ledger [OF _ inv Module_load_ledger [OF q _ _ l]] ok s by (simp add: Op_load l)
next
  case (Op_unload i)
  obtain err M' w1 where l: "Module_unload x (objs ! i) (snd st) = (err, M', w1)" by (metis prod_cases3)
  note u = Module_unload_ledger [OF l]
  show ?thesis
    using replaced_ledger [OF _ inv, of i "w_calls w1" M'] u ok s by (auto simp: Op_unload l holds_def)
next
  case (Op_cpp_init i)
  then show ?thesis using s inv cpp_init_calls [OF q, of _ st] by (auto simp: Module_cpp_init_def)
next
  case (Op_destroy i)
  obtain err M' w1 where l: "Module_unload x (objs ! i) (snd st) = (err, M', w1)" by (metis prod_cases3)
  note u = Module_unload_ledger [OF l]
  have "live (w_calls (Module_destroy x (objs ! i) (snd st))) = live (w_calls (snd st)) - holds (objs ! i)"
    using u ok by (auto simp: Op_destroy Module_destroy_def l holds_def)
  then show ?thesis
    using replaced_ledger [OF _ inv, of i _ Module_default] ok s by (auto simp: Op_destroy Module_default_def holds_def)
next
  case (Op_move_construct i j)
  then show ?thesis using s inv ok moved_ledger by auto
next
  case (Op_move_assign i j)
  obtain err M' w1 where l: "Module_unload x (objs ! i) (snd st) = (err, M', w1)" by (metis prod_cases3)
  note u = Module_unload_ledger [OF l]
  show ?thesis
  proof (cases "i = j")
    case True
    then show ?thesis using Op_move_assign s inv by (simp add: Module_move_assign_def)
  next
    case False
    let ?o = "if md_loaded (objs ! i) then objs[i := M'] else objs"
    let ?w = "if md_loaded (objs ! i) then w1 else snd st"
    have ij: "i < length objs" "j < length objs" and un: "unloadable (objs ! i) (snd st)"
      using ok by (simp_all add: Op_move_assign)
    have "objs' = Module_move_construct i j ?o \<and> st' = (fst st, ?w)"
      using s False by (auto simp: Op_move_assign Module_move_assign_def Module_move_construct_def l Let_def)
    moreover have "live (w_calls ?w) = others + held ?o"
      using replaced_ledger [OF ij(1) inv, of "w_calls w1" M'] u(2,3) un inv by (simp add: holds_def)
    moreover have "held (Module_move_construct i j ?o) = held ?o"
      by (rule moved_ledger) (use ij False u(2) un in auto)
    ultimately show ?thesis by simp
  qed
next
  case (Op_swap i j)
  then show ?thesis using s inv ok swapped_ledger by auto
qed

text \<open>C16: whatever a program does with its \<open>Module\<close> objects, the blocks in use are those it had
  before and those its loaded objects hold: no load, failed load, unload, move, swap or
  destruction leaks a block or returns one twice, including a load over a loaded object and a
  move onto itself. The images have no tagged sections, and neither the resolver nor the module
  code calls the allocator itself.\<close>

theorem wrapper_balances_allocations:
  assumes q: "resolver_quiet x" "code_quiet run"
    and "run_covered x run ps (replicate n Module_default, st)"
  shows "case cpp_run x run ps (replicate n Module_default, st) of (objs', st') \<Rightarrow>
    live (w_calls (snd st')) = live (w_calls (snd st)) + held objs'"
proof -
  have "case cpp_run x run ps (objs, st1) of (objs', st') \<Rightarrow> live (w_calls (snd st')) = others + held objs'"
    if "run_covered x run ps (objs, st1)" "live (w_calls (snd st1)) = others + held objs" for objs st1 others
    using that
  proof (induction ps arbitrary: objs st1)
    case (Cons p ps)
    obtain objs2 st2 where s: "cpp_step x run p (objs, st1) = (objs2, st2)" by (metis surj_pair)
    show ?case using Cons.IH [of objs2 st2] Cons.prems cpp_step_ledger [OF q _ Cons.prems(2) s] by (simp add: s)
  qed simp
  moreover have "held (replicate n Module_default) = {#}"
    by (induction n) (simp_all add: held_def holds_def Module_default_def)
  ultimately show ?thesis using assms(3) by simp
qed

lemma bump_lookup: "snd (udynlink_lookup_symbol bump_host p_mod name w) = w"
  by (auto simp: udynlink_lookup_symbol_def finish_lookup_def Let_def resolve_symbol_eq bump_host_def
      split: option.splits prod.splits)

lemma bump_cpp_init: "udynlink_cpp_init bump_host (\<lambda>a st. ((), st)) p_mod st = st"
  using bump_lookup [of p_mod "Literal init_array_name" "snd st"]
  by (auto simp: udynlink_cpp_init_def UDYNLINK_CALL_def UDYNLINK_PREPARE_CALL_def split: prod.splits option.splits)

theorem wrapper_balances_allocations_witness:
  "case cpp_run bump_host (\<lambda>a st. ((), st)) [Op_load 0 0x1000 NULL 0 LOAD_MODE_XIP, Op_move_construct 1 0, Op_destroy 1]
      (replicate 2 Module_default, 0, start_world bare_mem) of (objs', st') \<Rightarrow>
    objs' = [Module_default, Module_default] \<and> live (w_calls (snd st')) = {#}"
proof -
  let ?ps = "[Op_load 0 0x1000 NULL 0 LOAD_MODE_XIP, Op_move_construct 1 0, Op_destroy 1]"
  obtain pm w where l: "udynlink_load_module bump_host (Some empty_module) 0x1000 NULL 0 LOAD_MODE_XIP (start_world bare_mem)
      = (UDYNLINK_OK, Some pm, w)" and pm: "p_header pm = 0x1000" "w_mem w = bare_filled"
    using bare_load by (auto simp: udynlink_load_module_def start_world_def)
  have z: "zero_module = empty_module" by (simp add: zero_module_def empty_module_def)
  have m: "Module_load bump_host (\<lambda>a st. ((), st)) Module_default 0x1000 NULL 0 LOAD_MODE_XIP (0, start_world bare_mem)
      = (UDYNLINK_OK, \<lparr>md_mod = pm, md_loaded = True\<rparr>, 0, w)"
    by (simp add: Module_load_def Module_default_def z l bump_cpp_init Let_def)
  have sw: "w_mem (start_world bare_mem) = bare_mem" "w_calls (start_world bare_mem) = []" by (simp_all add: start_world_def)
  have md: "\<not> md_loaded Module_default" "md_mod Module_default = zero_module" by (simp_all add: Module_default_def)
  have two: "replicate 2 Module_default = [Module_default, Module_default]" by (simp add: numeral_2_eq_2)
  have "run_covered bump_host (\<lambda>a st. ((), st)) ?ps (replicate 2 Module_default, 0, start_world bare_mem)"
    by (simp add: two m unloadable_def Module_move_construct_def pm bare_view bare_headers sw md)
  moreover have "resolver_quiet bump_host" "code_quiet (\<lambda>a st. ((), st))"
    by (simp_all add: resolver_quiet_def bump_host_def code_quiet_def)
  ultimately have "case cpp_run bump_host (\<lambda>a st. ((), st)) ?ps (replicate 2 Module_default, 0, start_world bare_mem) of
      (objs', st') \<Rightarrow> live (w_calls (snd st')) = live (w_calls (snd (0 :: u32, start_world bare_mem))) + held objs'"
    by (intro wrapper_balances_allocations)
  moreover have "\<lparr>md_mod = zero_module, md_loaded = False\<rparr> = Module_default" by (simp add: Module_default_def)
  ultimately show ?thesis
    by (simp add: two m Module_move_construct_def sw held_def holds_def md)
qed

section \<open>r9 scopes\<close>

text \<open>Code that uses contexts: calls through function handles, rebinding the innermost context,
  and a context of its own around a block, destroyed where the block ends.\<close>

datatype cpp_stmt = Call Func | Rebind nat | Scope nat "cpp_stmt list"

fun exec :: "('r::zero, 'h) machine_call \<Rightarrow> (nat \<Rightarrow> udynlink_module_t) \<Rightarrow> cpp_stmt list
    \<Rightarrow> Context \<times> u32 \<times> 'h world \<Rightarrow> Context \<times> u32 \<times> 'h world" where
  "exec run mods [] s = s"
| "exec run mods (Call f # ss) (c, st) = exec run mods ss (c, snd (Func_call run mods f st))"
| "exec run mods (Rebind i # ss) (c, st) = exec run mods ss (Context_rebind mods i c st)"
| "exec run mods (Scope i body # ss) (c, st) =
     (case exec run mods body (Context_construct mods i st) of
        (c2, st2) \<Rightarrow> exec run mods ss (c, Context_destroy c2 st2))"

lemma Func_call_r9: "fst (snd (Func_call run mods f st)) = fst st"
  by (auto simp: Func_call_def FuncInvoker_invoke_def Let_def split: option.splits prod.splits)

text \<open>Inside a scope r9 is the RAM base of the module its context is bound to.\<close>

definition bound :: "(nat \<Rightarrow> udynlink_module_t) \<Rightarrow> Context \<times> u32 \<times> 'h world \<Rightarrow> bool" where
  "bound mods s \<longleftrightarrow> fst (snd s) = p_ram (mods (cx_mod (fst s)))"

lemma exec_bound:
  "cx_prev_r9 (fst (exec run mods ss s)) = cx_prev_r9 (fst s) \<and> (bound mods s \<longrightarrow> bound mods (exec run mods ss s))"
proof (induction run mods ss s rule: exec.induct)
  case (2 run mods f ss c st)
  have "bound mods (c, st) \<Longrightarrow> bound mods (c, snd (Func_call run mods f st))"
    by (simp add: bound_def Func_call_r9)
  then show ?case using 2 by simp
next
  case (3 run mods i ss c st)
  obtain c1 st1 where s: "Context_rebind mods i c st = (c1, st1)" by (metis surj_pair)
  have "cx_prev_r9 c1 = cx_prev_r9 c" "bound mods (c1, st1)" using s by (auto simp: Context_rebind_def bound_def)
  then show ?case using 3 s by simp
next
  case (4 run mods i body ss c st)
  obtain c2 st2 where e: "exec run mods body (Context_construct mods i st) = (c2, st2)" by (metis surj_pair)
  have k: "Context_construct mods i st = (\<lparr>cx_mod = i, cx_prev_r9 = fst st\<rparr>, UDYNLINK_PREPARE_CALL (mods i) st)"
    by (simp add: Context_construct_def)
  have "cx_prev_r9 c2 = fst st" using "4.IH"(1) e k by simp
  then have "bound mods (c, st) \<longrightarrow> bound mods (c, Context_destroy c2 st2)" by (simp add: bound_def Context_destroy_def)
  then show ?case using "4.IH"(2) [OF e [symmetric]] e by simp
qed simp

text \<open>C17: a \<open>Context\<close> gives back the r9 it found, and while it lives r9 is the RAM base of the
  module it is bound to: between any two statements of its block, whatever module functions are
  called, whatever they leave in r9, however contexts are rebound and nested.\<close>

theorem context_restores_r9:
  "case exec run mods body (Context_construct mods i st) of (c, st') \<Rightarrow>
     fst st' = p_ram (mods (cx_mod c)) \<and> fst (Context_destroy c st') = fst st"
proof -
  have "bound mods (Context_construct mods i st)"
    by (simp add: bound_def Context_construct_def UDYNLINK_PREPARE_CALL_def)
  then show ?thesis
    using exec_bound [of run mods body "Context_construct mods i st"]
    by (auto simp: bound_def Context_destroy_def Context_construct_def)
qed

section \<open>Symbol views\<close>

text \<open>The loop \<open>for (Symbol s : view)\<close> over the view object at address \<open>a\<close>.\<close>

partial_function (option) range_for ::
  "mem \<Rightarrow> (nat \<Rightarrow> udynlink_module_t) \<Rightarrow> (addr \<Rightarrow> SymbolView) \<Rightarrow> sym_iterator \<Rightarrow> sym_iterator \<Rightarrow> Symbol list option" where
  "range_for m mods views it e =
     (if iterator_eq it e then Some []
      else Option.bind (range_for m mods views (iterator_inc it) e)
             (\<lambda>ys. Some (iterator_deref m mods views it # ys)))"

lemma range_for_from:
  assumes "k \<le> unat n"
  shows "range_for m mods views \<lparr>it_view = a, it_index = of_nat k\<rparr> \<lparr>it_view = a, it_index = n\<rparr>
    = Some (map (\<lambda>i. SymbolView_at m mods (views a) (of_nat i)) [k..<unat n])"
  using assms
proof (induction "unat n - k" arbitrary: k)
  case 0
  then have "k = unat n" by simp
  then show ?case by (simp add: range_for.simps iterator_eq_def)
next
  case (Suc d)
  then have k: "k < unat n" by simp
  then have "unat (of_nat k :: u32) = k" using unat_u32_less [of n] by (simp add: unsigned_of_nat take_bit_nat_eq_self)
  then have "(of_nat k :: u32) \<noteq> n" using k by auto
  moreover have "[k..<unat n] = k # [Suc k..<unat n]" using k by (rule upt_conv_Cons)
  moreover have "iterator_inc \<lparr>it_view = a, it_index = of_nat k\<rparr> = \<lparr>it_view = a, it_index = of_nat (Suc k)\<rparr>"
    by (simp add: iterator_inc_def add.commute)
  ultimately show ?case
    using Suc.hyps(1) [of "Suc k"] Suc.hyps(2) k
    by (subst range_for.simps) (simp add: iterator_eq_def iterator_deref_def del: of_nat_Suc)
qed


text \<open>C35: iterating the symbols of a loaded module ends and yields every entry of its table once, in
  table order: as many as the table declares, each past the module name the relocated entry.\<close>

theorem symbols_enumerated:
  assumes ok: "symtab_ok m hp" and hp: "p_header (mods i) = hp" "hp \<noteq> NULL" and v: "views a = Module_symbols i"
  shows "\<exists>ys. range_for m mods views (SymbolView_begin a) (SymbolView_end m mods views a) = Some ys
    \<and> length ys = unat (rd32 m (get_sym_table_pointer m hp))
    \<and> (\<forall>k \<in> {1..<length ys}. ys ! k = Symbol_of (offset_sym m (mods i) (entry_sym m hp k)))"
proof -
  let ?n = "rd32 m (get_sym_table_pointer m hp)" and ?sz = "SymbolView_size m mods (views a)"
  have le: "unat ?n \<le> 65536" "8 * unat ?n + 4 \<le> unat (h_symt_size (read_header m hp))"
    using ok by (simp_all add: symtab_ok_def Let_def)
  have "?sz = bounded_sym_count m (get_sym_table_pointer m hp) (h_symt_size (read_header m hp))"
    by (simp add: v Module_symbols_def SymbolView_of_module_def SymbolView_size_def udynlink_get_symbol_count_def hp)
  then have sz: "?sz = ?n" using le by (simp add: word_unat_eq_iff bounded_sym_count_unat)
  let ?ys = "map (\<lambda>k. SymbolView_at m mods (views a) (of_nat k)) [0..<unat ?n]"
  have "range_for m mods views (SymbolView_begin a) (SymbolView_end m mods views a) = Some ?ys"
    using range_for_from [of 0 ?n m mods views a] by (simp add: SymbolView_begin_def SymbolView_end_def sz)
  moreover have "SymbolView_at m mods (views a) (of_nat k) = Symbol_of (offset_sym m (mods i) (entry_sym m hp k))"
    if "1 \<le> k" "k < unat ?n" for k
  proof -
    have "unat (of_nat k :: u32) = k" using that unat_u32_less [of ?n] by (simp add: unsigned_of_nat take_bit_nat_eq_self)
    then have "of_nat k < ?sz" using that sz by (simp add: word_less_nat_alt)
    then show ?thesis using get_sym_at_ok(1) [OF ok that] hp
      by (simp add: v Module_symbols_def SymbolView_of_module_def SymbolView_at_def udynlink_get_symbol_def)
  qed
  ultimately show ?thesis by (intro exI [of _ ?ys]) simp
qed

theorem symbols_enumerated_witness:
  "\<exists>ys. range_for plain_mem (\<lambda>i. empty_module\<lparr>p_header := 0x1000\<rparr>) (\<lambda>a. Module_symbols 0) (SymbolView_begin 0x30000)
      (SymbolView_end plain_mem (\<lambda>i. empty_module\<lparr>p_header := 0x1000\<rparr>) (\<lambda>a. Module_symbols 0) 0x30000) = Some ys
    \<and> length ys = 4"
proof -
  have hp: "p_header (empty_module\<lparr>p_header := 0x1000\<rparr>) = 0x1000" by simp
  show ?thesis
    using symbols_enumerated [OF plain_symtab_ok, of "\<lambda>i. empty_module\<lparr>p_header := 0x1000\<rparr>" 0 "\<lambda>a. Module_symbols 0" "0x30000"] hp
    by (auto simp: plain_pointer plain_words)
qed

end
