(* ===== verification/Spec2Isabelle.thy ===== *)
theory Spec2Isabelle
  imports RelinkSpec MoveSpec LoadSpec DepsSpec HostSpec ThunkPool WasmSpec CppSpec
begin

text \<open>
  A model of udynlink, a dynamic loader of position-independent modules for Cortex-M
  microcontrollers (\<open>src/udynlink/\<close>), with the theorems that make its components correct.

  \<^bold>\<open>The program.\<close> A module image is a 32-byte header, a relocation table, a symbol table with
  its string pool, an optional section table and the section payloads. The loader
  (\<open>udynlink.c\<close>) validates an image, asks the host for RAM, copies what the load mode
  demands, relocates the module's words against its own addresses and the host's symbols, and
  answers symbol queries; it can move and unload a loaded module. Around it: call thunks
  (\<open>udynlink_thunk.c\<close>), the dependency manager (\<open>udynlink_deps.c\<close>), the call macros
  (\<open>udynlink_call.h\<close>), the C++ wrapper (\<open>udynlink.hpp\<close>), lookup tables for hosts (\<open>udynlink_hash.h\<close>, \<open>udynlink_trie.h\<close>,
  \<open>udynlink_host_utils.h\<close>, \<open>udynlink_cpp_abi.h\<close>) and the runtime linked into modules compiled
  from WebAssembly (\<open>wasm2c_runtime/\<close>).

  \<^bold>\<open>Theories of the model.\<close>
    \<^item> \<open>Prelude\<close>: machine words, byte memory, alignment, C strings, the counted loop with its
      invariant rule.
    \<^item> \<open>Header\<close>, \<open>Symtab\<close>, \<open>Sectab\<close>: the image format and its validation, with the theorems on
      each check; \<open>Images\<close> holds the concrete images the theorems are instantiated on.
    \<^item> \<open>World\<close>: memory, the host state and the log of allocator calls; the callbacks.
    \<^item> \<open>Layout\<close>: the addresses of a loaded module's parts. \<open>Reloc\<close>: the relocation walks.
      \<open>Load\<close>, \<open>Relocate\<close>: loading, unloading and moving. \<open>Lookup\<close>: symbol queries and calls,
      with the two searches compared.
    \<^item> \<open>Thunk\<close>, \<open>Deps\<close>: thunks and the dependency manager.
    \<^item> \<open>HostTables\<close>, \<open>WasmRt\<close>, \<open>Cpp\<close>: host-side tables and C++ allocation stubs, the wasm
      runtime, the wrapper classes of \<open>udynlink.hpp\<close>.

  \<^bold>\<open>Theories of theorems.\<close>
    \<^item> \<open>Keeps\<close>: locales for what a host promises and what every loader operation then keeps.
    \<^item> \<open>LoadSpec\<close>: the ledger of blocks in use, which loads and unloads balance, and the contents
      of the RAM block of an image without section table.
    \<^item> \<open>RelocSpec\<close>: relocation and rebasing of an untagged module against the words its entries
      ask for. \<open>RelocateSpec\<close>: refused moves, and that a moved module is linked at its new place.
    \<^item> \<open>LinkSpec\<close>: the load as a whole: a load that succeeds leaves a linked module, and an image in
      order loads when RAM and symbols are provided. \<open>MoveSpec\<close>: a load followed by a move, which
      leaves the module linked at its new place. \<open>RelinkSpec\<close>: extern words resolved again after
      the load, and words set by symbol name.
    \<^item> \<open>ThunkCode\<close>: the instructions of a stub and a gateway, encoded and executed; \<open>ThunkPool\<close>: the
      pool invariant. \<open>DepsSpec\<close>: the registry as a bounded multiset, the loading stack.
    \<^item> \<open>HostSpec\<close>: hash table, trie and cache against the maps they store. \<open>WasmSpec\<close>: traps,
      memory growth and the block copies, with pages of the default 64 KiB. \<open>CppSpec\<close>: ownership of wrapper objects, r9 contexts,
      symbol iteration.

  \<^bold>\<open>Correspondence.\<close> The target is a 32-bit machine: \<open>size_t\<close>, \<open>uintptr_t\<close> and pointers are
  32-bit words, memory is a function from addresses to bytes, multi-byte accesses are little
  endian. C structs read from an image are records decoded at an address; the module handle is
  a record passed in and returned. A pointer that the code compares with \<open>NULL\<close> before use is
  an option where it points at a handle, a name or a pool of the caller. A name that the code
  hands on (to a lookup, to the resolver, to the loading stack) is a \<open>cname\<close>: an address, or the
  bytes of a literal or of a buffer on the stack, which the memory of the model does not hold; a
  name that is only compared is the bytes it points at. The symbol cache of the host stores
  addresses and reads the strings behind them when it compares. Error codes are the
  datatype \<open>udynlink_error_t\<close>; every early return and \<open>goto exit\<close> is a branch.

  The host is a parameter \<open>'h externals\<close>: the allocator reads the world and changes the host's
  state only, the resolver maps worlds to worlds, because a resolver that loads a dependency
  runs the loader again. Each allocator call is appended to the log \<open>w_calls\<close>.

  \<^bold>\<open>Loops and bounds.\<close> A loop over the relocation table re-reads the header's 16-bit count
  from memory in every round, as the code does, and runs at most 65535 rounds (\<open>for_u16\<close>).
  The section table has at most 63 entries. The binary search and the scans of a thunk pool
  carry measures. The linear symbol search stops at index \<open>2 ^ 32\<close>, which it never reaches.
  The walks of the hash table and the trie follow links stored in the table and may not end:
  they are partial functions into option, \<open>None\<close> standing for not returning.

  \<^bold>\<open>Objects of the wrapper.\<close> C++ objects are records; a reference or pointer to a handle is the
  number of an object, and a method that changes two objects (move, swap) acts on the list of
  all of them. The r9 register is a component of the state that calls thread.

  \<^bold>\<open>Scope of the theorems.\<close> The contents of a loaded block and the theorems on linking, linking
  again, rebasing and moving are for untagged images (no section table), in all three load modes,
  with a host whose resolver is a function of the name where words are computed; moves of
  sectioned modules are modelled, and for them the theorems cover which moves are refused and
  what a refused one leaves. The ledger of blocks is for images with at most the three main
  sections, on a resolver that does not allocate; for tagged sections lemmas show that the error
  exit and an unload free exactly the bases recorded in the block, not that every block a load
  takes is still recorded there. The validation, layout and
  lookup theorems hold with and without sections. Where a theorem excludes inputs on which the
  code goes wrong, a lemma beside it shows the failure (\<open>get_sym_at_raw_index_wraps\<close>,
  \<open>short_table_accepted\<close>, \<open>grow_to_full_frees_memory\<close>, \<open>stale_name_hit\<close>).

  \<^bold>\<open>Not modelled.\<close> Debug printing; the endless loop of the pure-virtual stub;
  the placement macros of \<open>udynlink_section.h\<close>, which are compiler attributes; the Python and
  shell tools that build images, the tests and templates. Machine code of modules is a parameter
  of the call macros. In the dependency layer there is one manager and one pool, in the
  host state: a pointer to either is compared with \<open>NULL\<close> where the code does and stands for it
  otherwise; a handle's record is written back when a load ends.
\<close>

end
